(* ===== verification/Prelude.thy ===== *)
theory Prelude
  imports Main "HOL-Library.Word" "HOL-Library.AList"
begin

text \<open>
  Shared vocabulary of the development: the machine integer types of the Rust sources, the
  saturating operations they use, decimal printing, ASCII case folding, bounded queues that drop
  from the front, and the interfaces (locales) that several components implement: a
  capped log, a machine with an invariant, and a keyed store.
\<close>

subsection \<open>Machine integers\<close>

type_synonym u8 = "8 word"
type_synonym u16 = "16 word"
type_synonym u32 = "32 word"
type_synonym u64 = "64 word"

text \<open>
  A double that the code only stores and copies is kept as its IEEE-754 bit pattern, so that
  copying, comparing with zero and testing for NaN are exact.
\<close>

type_synonym f64 = "64 word"

definition sat_add :: "'a::len word \<Rightarrow> 'a word \<Rightarrow> 'a word" where
  "sat_add a b = (if unat a + unat b < 2 ^ LENGTH('a) then a + b else - 1)"

definition sat_sub :: "'a::len word \<Rightarrow> 'a word \<Rightarrow> 'a word" where
  "sat_sub a b = (if a < b then 0 else a - b)"

named_theorems unat_simps

lemma unat_sat_add [unat_simps]:
  "unat (sat_add a b) = min (unat a + unat b) (2 ^ LENGTH('a) - 1)" for a b :: "'a::len word"
proof (cases "unat a + unat b < 2 ^ LENGTH('a)")
  case True
  then have "unat (a + b) = unat a + unat b"
    by (simp add: unat_add_lem)
  with True show ?thesis by (simp add: sat_add_def)
next
  case False
  have "unat (- 1 :: 'a word) = 2 ^ LENGTH('a) - 1"
    by (simp add: unsigned_minus_1_eq_mask mask_eq_exp_minus_1)
  with False show ?thesis by (simp add: sat_add_def)
qed

text \<open>The same without natural numbers, for evaluation: the sum wrapped exactly when it got smaller.\<close>

lemma sat_add_code [code]: "sat_add a b = (if a + b < a then - 1 else a + b)" for a b :: "'a::len word"
proof -
  have b: "unat b < 2 ^ LENGTH('a)" by (rule unsigned_less)
  show ?thesis
  proof (cases "unat a + unat b < 2 ^ LENGTH('a)")
    case True
    then have "unat (a + b) = unat a + unat b" by (simp add: unat_plus_if')
    then have "\<not> a + b < a" unfolding word_less_nat_alt by linarith
    with True show ?thesis by (simp add: sat_add_def)
  next
    case False
    then have "unat (a + b) = unat a + unat b - 2 ^ LENGTH('a)" by (simp add: unat_plus_if')
    then have "a + b < a" unfolding word_less_nat_alt using b False by linarith
    with False show ?thesis by (simp add: sat_add_def)
  qed
qed

lemma unat_sat_sub [unat_simps]: "unat (sat_sub a b) = unat a - unat b" for a b :: "'a::len word"
  by (auto simp: sat_sub_def word_less_nat_alt unat_sub_if')

lemma sat_add_mono: "a \<le> sat_add a b" for a b :: "'a::len word"
proof -
  have "unat a < 2 ^ LENGTH('a)" by (rule unsigned_less)
  then have "unat a \<le> 2 ^ LENGTH('a) - 1" by linarith
  then show ?thesis by (simp add: word_le_nat_alt unat_sat_add)
qed

lemma unat_Suc_less: "a < b \<Longrightarrow> unat (a + 1) = Suc (unat a)" for a b :: "'a::len word"
proof -
  assume "a < b"
  then have "unat a < unat b" by (simp add: word_less_nat_alt)
  moreover have "unat b < 2 ^ LENGTH('a)" by (rule unsigned_less)
  ultimately have "unat a + 1 < 2 ^ LENGTH('a)" by linarith
  then have "unat a + unat (1 :: 'a word) < 2 ^ LENGTH('a)" by simp
  then have "unat (a + 1) = unat a + unat (1 :: 'a word)" by (simp only: unat_add_lem)
  then show ?thesis by simp
qed

lemma unat_push_bit_one: "e < LENGTH('a) \<Longrightarrow> unat (push_bit e 1 :: 'a::len word) = 2 ^ e"
  by (simp add: unsigned_push_bit_eq take_bit_eq_mod del: push_bit_of_1)

lemma unat_ucast_small: "unat w < 2 ^ LENGTH('b) \<Longrightarrow> unat (ucast w :: 'b::len word) = unat w"
  by (simp add: unsigned_ucast_eq take_bit_eq_mod)

lemma unat_min: "unat (min a b) = min (unat a) (unat b)"
  by (simp add: min_def word_le_nat_alt)

lemma unat_u16: "unat (w :: u16) < 65536"
  by (rule order_less_le_trans [OF unsigned_less]) simp

lemma unat_u32: "unat (w :: u32) < 4294967296"
  by (rule order_less_le_trans [OF unsigned_less]) simp

subsection \<open>Decimal printing\<close>

definition digit_char :: "nat \<Rightarrow> char" where
  "digit_char d = char_of (48 + d)"

fun nat_to_dec :: "nat \<Rightarrow> string" where
  "nat_to_dec n = (if n < 10 then [digit_char n] else nat_to_dec (n div 10) @ [digit_char (n mod 10)])"

declare nat_to_dec.simps [simp del]

lemma digit_char_inj: "a < 10 \<Longrightarrow> b < 10 \<Longrightarrow> digit_char a = digit_char b \<longleftrightarrow> a = b"
proof -
  assume "a < 10" "b < 10"
  then have "of_char (digit_char a) = 48 + a" "of_char (digit_char b) = 48 + b"
    by (simp_all add: digit_char_def)
  then show ?thesis by (metis add_left_cancel)
qed

lemma nat_to_dec_nonempty [simp]: "nat_to_dec n \<noteq> []" "[] \<noteq> nat_to_dec n"
  by (subst nat_to_dec.simps, simp)+

lemma nat_to_dec_inj: "nat_to_dec m = nat_to_dec n \<longleftrightarrow> m = n"
proof (induction m arbitrary: n rule: nat_to_dec.induct)
  case (1 m)
  show ?case
  proof (cases "m < 10"; cases "n < 10")
    assume "m < 10" "n < 10"
    then show ?thesis
      by (simp add: nat_to_dec.simps [of m] nat_to_dec.simps [of n] digit_char_inj)
  next
    assume a: "m < 10" "\<not> n < 10"
    then show ?thesis
      by (auto simp: nat_to_dec.simps [of m] nat_to_dec.simps [of n] append_eq_Cons_conv)
  next
    assume a: "\<not> m < 10" "n < 10"
    then show ?thesis
      by (auto simp: nat_to_dec.simps [of m] nat_to_dec.simps [of n] append_eq_Cons_conv)
  next
    assume a: "\<not> m < 10" "\<not> n < 10"
    have "m = n \<longleftrightarrow> m div 10 = n div 10 \<and> m mod 10 = n mod 10"
      by (metis div_mult_mod_eq)
    with a 1 [of "n div 10"] show ?thesis
      by (simp add: nat_to_dec.simps [of m] nat_to_dec.simps [of n] digit_char_inj)
  qed
qed

lemma set_nat_to_dec: "c \<in> set (nat_to_dec n) \<Longrightarrow> (48 :: nat) \<le> of_char c \<and> of_char c < (58 :: nat)"
proof (induction n rule: nat_to_dec.induct)
  case (1 n)
  then show ?case
    by (cases "n < 10") (auto simp: nat_to_dec.simps [of n] digit_char_def)
qed

definition pad_dec :: "nat \<Rightarrow> nat \<Rightarrow> string" where
  "pad_dec w n = (let d = nat_to_dec n in replicate (w - length d) (CHR ''0'') @ d)"

definition is_digit :: "char \<Rightarrow> bool" where
  "is_digit c \<longleftrightarrow> 48 \<le> (of_char c :: nat) \<and> (of_char c :: nat) < 58"

definition parse_digits :: "string \<Rightarrow> nat option" where
  "parse_digits s =
     (if s = [] \<or> \<not> list_all is_digit s then None else Some (foldl (\<lambda>a c. 10 * a + (of_char c - 48)) 0 s))"

text \<open>\<^verbatim>\<open>str::parse::<i64>\<close>.\<close>

definition parse_i64 :: "string \<Rightarrow> int option" where
  "parse_i64 s =
     (case s of
        [] \<Rightarrow> None
      | c # rest \<Rightarrow>
          if c = CHR ''-''
          then (case parse_digits rest of Some n \<Rightarrow> if int n \<le> 2 ^ 63 then Some (- int n) else None | None \<Rightarrow> None)
          else (case parse_digits (if c = CHR ''+'' then rest else s) of
                  Some n \<Rightarrow> if int n < 2 ^ 63 then Some (int n) else None | None \<Rightarrow> None))"

definition parse_u32 :: "string \<Rightarrow> nat option" where
  "parse_u32 s =
     (case s of
        [] \<Rightarrow> None
      | c # rest \<Rightarrow>
          (case parse_digits (if c = CHR ''+'' then rest else s) of
             Some n \<Rightarrow> if n < 2 ^ 32 then Some n else None | None \<Rightarrow> None))"

lemma foldl_dec_append:
  "foldl (\<lambda>a c. 10 * a + (of_char c - 48)) a (nat_to_dec n) = a * 10 ^ length (nat_to_dec n) + n"
proof (induction n arbitrary: a rule: nat_to_dec.induct)
  case (1 n)
  show ?case
  proof (cases "n < 10")
    case True
    then show ?thesis by (simp add: nat_to_dec.simps [of n] digit_char_def)
  next
    case False
    then show ?thesis
      using 1 [of a] by (simp add: nat_to_dec.simps [of n] digit_char_def algebra_simps)
  qed
qed

lemma parse_pad_dec: "parse_digits (pad_dec w n) = Some n"
proof -
  have zeros: "foldl (\<lambda>a c. 10 * a + (of_char c - 48)) 0 (replicate k (CHR ''0'')) = (0 :: nat)" for k
    by (induction k) simp_all
  have "list_all is_digit (nat_to_dec n)" using set_nat_to_dec by (auto simp: list_all_iff is_digit_def)
  then show ?thesis
    by (auto simp: parse_digits_def pad_dec_def Let_def zeros foldl_dec_append is_digit_def list_all_iff)
qed

lemma pad_dec_digits: "list_all is_digit (pad_dec w n)" "pad_dec w n \<noteq> []"
  using parse_pad_dec [of w n] by (auto simp: parse_digits_def split: if_splits)

lemma pad_dec_hd: "is_digit (hd (pad_dec w n))"
  using pad_dec_digits [of w n] by (cases "pad_dec w n") auto

lemma parse_i64_pad_dec: "n < 2 ^ 63 \<Longrightarrow> parse_i64 (pad_dec w n) = Some (int n)"
  using pad_dec_hd [of w n] parse_pad_dec [of w n] pad_dec_digits(2) [of w n]
  by (cases "pad_dec w n") (auto simp: parse_i64_def is_digit_def)

lemma parse_u32_pad_dec: "n < 2 ^ 32 \<Longrightarrow> parse_u32 (pad_dec w n) = Some n"
  using pad_dec_hd [of w n] parse_pad_dec [of w n] pad_dec_digits(2) [of w n]
  by (cases "pad_dec w n") (auto simp: parse_u32_def is_digit_def)

lemma length_nat_to_dec: "0 < w \<Longrightarrow> n < 10 ^ w \<Longrightarrow> length (nat_to_dec n) \<le> w"
proof (induction n arbitrary: w rule: nat_to_dec.induct)
  case (1 n)
  show ?case
  proof (cases "n < 10")
    case True
    with 1 show ?thesis by (simp add: nat_to_dec.simps [of n])
  next
    case False
    obtain w' where w: "w = Suc w'" using 1 by (cases w) auto
    with False 1 have "0 < w'" by (cases w') auto
    moreover have "n div 10 < 10 ^ w'" using 1 w by auto
    ultimately show ?thesis using 1 False w by (simp add: nat_to_dec.simps [of n])
  qed
qed

lemma length_pad_dec: "0 < w \<Longrightarrow> n < 10 ^ w \<Longrightarrow> length (pad_dec w n) = w"
  using length_nat_to_dec [of w n] by (simp add: pad_dec_def Let_def)

subsection \<open>ASCII case\<close>

definition ascii_lower :: "char \<Rightarrow> char" where
  "ascii_lower c = (let n = of_char c :: nat in if 65 \<le> n \<and> n \<le> 90 then char_of (n + 32) else c)"

definition to_ascii_lowercase :: "string \<Rightarrow> string" where
  "to_ascii_lowercase = map ascii_lower"

definition eq_ignore_ascii_case :: "string \<Rightarrow> string \<Rightarrow> bool" where
  "eq_ignore_ascii_case a b \<longleftrightarrow> to_ascii_lowercase a = to_ascii_lowercase b"

lemma ascii_lower_idem [simp]: "ascii_lower (ascii_lower c) = ascii_lower c"
  by (auto simp: ascii_lower_def Let_def)

lemma to_ascii_lowercase_idem [simp]:
  "to_ascii_lowercase (to_ascii_lowercase s) = to_ascii_lowercase s"
  by (simp add: to_ascii_lowercase_def)

subsection \<open>Text\<close>

text \<open>The bytes of a string whose characters are below 256.\<close>

definition utf8_char :: "char \<Rightarrow> u8 list" where
  "utf8_char c =
     (let n = of_char c :: nat
      in if n < 128 then [word_of_nat n] else [word_of_nat (192 + n div 64), word_of_nat (128 + n mod 64)])"

definition utf8_bytes :: "string \<Rightarrow> u8 list" where
  "utf8_bytes s = concat (map utf8_char s)"

definition hex_digit :: "nat \<Rightarrow> char" where
  "hex_digit d = (if d < 10 then char_of (48 + d) else char_of (87 + d))"

fun nat_to_hex :: "nat \<Rightarrow> string" where
  "nat_to_hex n = (if n < 16 then [hex_digit n] else nat_to_hex (n div 16) @ [hex_digit (n mod 16)])"

declare nat_to_hex.simps [simp del]

text \<open>\<^verbatim>\<open>{:?}\<close> of a string: quoted, with control and other unprintable characters escaped.\<close>

definition BACKSLASH :: char where "BACKSLASH = CHR 0x5C"

definition QUOTE :: char where "QUOTE = CHR 0x22"

definition debug_char :: "char \<Rightarrow> string" where
  "debug_char c =
     (let n = of_char c :: nat
      in if n = 34 \<or> n = 92 then [BACKSLASH, c]
         else if n = 0 then [BACKSLASH, CHR ''0'']
         else if n = 9 then [BACKSLASH, CHR ''t'']
         else if n = 10 then [BACKSLASH, CHR ''n'']
         else if n = 13 then [BACKSLASH, CHR ''r'']
         else if n < 32 \<or> 127 \<le> n \<and> n \<le> 160 \<or> n = 173
              then [BACKSLASH] @ ''u{'' @ nat_to_hex n @ ''}''
         else [c])"

definition debug_str :: "string \<Rightarrow> string" where
  "debug_str s = [QUOTE] @ concat (map debug_char s) @ [QUOTE]"

text \<open>White space at the ends, and the first occurrence of a text in another.\<close>

definition is_space :: "char \<Rightarrow> bool" where
  "is_space c \<longleftrightarrow> (let n = of_char c :: nat in n = 32 \<or> 9 \<le> n \<and> n \<le> 13 \<or> n = 133 \<or> n = 160)"

definition trim :: "string \<Rightarrow> string" where
  "trim s = rev (dropWhile is_space (rev (dropWhile is_space s)))"

fun find_text :: "string \<Rightarrow> string \<Rightarrow> nat option" where
  "find_text needle hay =
     (if take (length needle) hay = needle then Some 0
      else case hay of [] \<Rightarrow> None | _ # rest \<Rightarrow> map_option Suc (find_text needle rest))"

declare find_text.simps [simp del]

definition contains_text :: "string \<Rightarrow> string \<Rightarrow> bool" where
  "contains_text needle hay \<longleftrightarrow> find_text needle hay \<noteq> None"

subsection \<open>Queues that drop from the front\<close>

text \<open>\<open>last_n k xs\<close> is the specification: the newest \<open>k\<close> elements, in order.\<close>

definition last_n :: "nat \<Rightarrow> 'a list \<Rightarrow> 'a list" where
  "last_n k xs = drop (length xs - k) xs"

lemma length_last_n [simp]: "length (last_n k xs) = min k (length xs)"
  by (auto simp: last_n_def)

lemma last_n_short [simp]: "length xs \<le> k \<Longrightarrow> last_n k xs = xs"
  by (simp add: last_n_def)

lemma last_n_Cons: "k \<le> length xs \<Longrightarrow> last_n k (x # xs) = last_n k xs"
  by (simp add: last_n_def Suc_diff_le)

lemma last_n_append_last_n [simp]: "last_n k (last_n k xs @ ys) = last_n k (xs @ ys)"
proof (cases "length xs \<le> k")
  case False
  then have "k + length ys - k = length ys" and "length xs + length ys - k = (length xs - k) + length ys"
    by simp_all
  with False show ?thesis
    by (simp add: last_n_def min_def add.commute)
qed simp

lemma set_last_n: "set (last_n k xs) \<subseteq> set xs"
  by (simp add: last_n_def set_drop_subset)

lemma last_last_n: "0 < k \<Longrightarrow> xs \<noteq> [] \<Longrightarrow> last (last_n k xs) = last xs"
  by (cases xs) (auto simp: last_n_def intro: last_drop)

text \<open>The Rust idiom \<^verbatim>\<open>while q.len() > cap { q.pop_front(); }\<close>.\<close>

fun trim_front :: "nat \<Rightarrow> 'a list \<Rightarrow> 'a list" where
  "trim_front cap [] = []"
| "trim_front cap (x # xs) = (if length (x # xs) > cap then trim_front cap xs else x # xs)"

lemma trim_front_eq: "trim_front cap xs = last_n cap xs"
  by (induction cap xs rule: trim_front.induct) (auto simp: last_n_def Suc_diff_le)

lemma nth_update_lt: "j < length xs \<Longrightarrow> xs[i := x] ! j = (if i = j then x else xs ! j)"
  by (simp add: nth_list_update)

lemma all_prefixes_snoc:
  assumes "\<forall>i \<le> length (xs @ [x]). P (take i (xs @ [x]))"
  shows "\<forall>i \<le> length xs. P (take i xs)" and "P (xs @ [x])"
proof -
  show "\<forall>i \<le> length xs. P (take i xs)"
  proof (intro allI impI)
    fix i assume "i \<le> length xs"
    with assms [rule_format, of i] show "P (take i xs)" by simp
  qed
  show "P (xs @ [x])" using assms [rule_format, of "length (xs @ [x])"] by simp
qed

lemma length_filter_update:
  "i < length xs \<Longrightarrow> length (filter P (xs[i := y])) + (if P (xs ! i) then 1 else 0) =
     length (filter P xs) + (if P y then 1 else 0)"
proof (induction xs arbitrary: i)
  case (Cons x xs)
  then show ?case by (cases i) auto
qed simp

subsection \<open>Hash maps whose values know their key\<close>

definition keyed_by :: "('v \<Rightarrow> 'k) \<Rightarrow> ('k \<times> 'v) list \<Rightarrow> bool" where
  "keyed_by key m \<longleftrightarrow> distinct (map fst m) \<and> list_all (\<lambda>(k, v). key v = k) m"

lemma keyed_by_Nil [simp]: "keyed_by key []"
  by (simp add: keyed_by_def)

lemma set_alist_update: "p \<in> set (AList.update k v m) \<Longrightarrow> p = (k, v) \<or> p \<in> set m"
  by (induction m) (auto split: if_splits)

lemma keyed_by_update: "keyed_by key m \<Longrightarrow> key v = k \<Longrightarrow> keyed_by key (AList.update k v m)"
  unfolding keyed_by_def by (auto simp: distinct_update list_all_iff dest: set_alist_update)

lemma keyed_by_fold:
  assumes "\<And>x m. keyed_by key m \<Longrightarrow> keyed_by key (f x m)" "keyed_by key m"
  shows "keyed_by key (fold f xs m)"
  using assms(2) by (induction xs arbitrary: m) (auto intro: assms(1))

lemma keyed_by_delete: "keyed_by key m \<Longrightarrow> keyed_by key (AList.delete k m)"
  unfolding keyed_by_def by (auto simp: list_all_iff AList.delete_eq intro: distinct_map_filter)

lemma keyed_by_length: "keyed_by key m \<Longrightarrow> length m = card (dom (map_of m))"
  unfolding keyed_by_def by (metis distinct_card dom_map_of_conv_image_fst length_map set_map)

lemma keyed_by_map_of: "keyed_by key m \<Longrightarrow> map_of m k = Some v \<Longrightarrow> key v = k"
  by (auto simp: keyed_by_def list_all_iff dest: map_of_SomeD)

lemma keyed_by_lookup_iff: "keyed_by key m \<Longrightarrow> map_of m k = Some v \<longleftrightarrow> (k, v) \<in> set m"
  by (simp add: keyed_by_def)

text \<open>The newest entry of a list with a given key, as a map built by successive updates has it.\<close>

lemma find_append: "find P (xs @ ys) = (case find P xs of None \<Rightarrow> find P ys | Some x \<Rightarrow> Some x)"
  by (induction xs) auto

subsection \<open>Interface: a capped log\<close>

text \<open>
  Several components keep the most recent entries of a stream in a bounded queue. The provider
  promises what one push leaves behind; the client gets bounds, freshness and the exact
  relation to the whole history.
\<close>

locale capped_log =
  fixes push :: "'a \<Rightarrow> 's \<Rightarrow> 's"
    and contents :: "'s \<Rightarrow> 'a list"
    and cap :: nat
    and ok :: "'s \<Rightarrow> bool"
  assumes contents_push: "ok s \<Longrightarrow> contents (push x s) = last_n cap (contents s @ [x])"
    and ok_push: "ok s \<Longrightarrow> ok (push x s)"
begin

lemma push_bounded: "ok s \<Longrightarrow> length (contents (push x s)) \<le> cap"
  by (simp add: contents_push)

lemma push_newest: "ok s \<Longrightarrow> 0 < cap \<Longrightarrow> last (contents (push x s)) = x"
  by (simp add: contents_push last_last_n)

lemma ok_fold: "ok s \<Longrightarrow> ok (fold push xs s)"
  by (induction xs arbitrary: s) (simp_all add: ok_push)

lemma contents_fold:
  assumes "ok s" and "length (contents s) \<le> cap"
  shows "contents (fold push xs s) = last_n cap (contents s @ xs)"
  using assms
proof (induction xs arbitrary: s)
  case Nil
  then show ?case by simp
next
  case (Cons x xs)
  have "length (contents (push x s)) \<le> cap" by (rule push_bounded [OF Cons.prems(1)])
  then have "contents (fold push xs (push x s)) = last_n cap (contents (push x s) @ xs)"
    by (rule Cons.IH [OF ok_push [OF Cons.prems(1)]])
  then show ?case by (simp add: contents_push [OF Cons.prems(1)])
qed

text \<open>A machine whose steps push the entries \<open>evs e\<close> keeps the newest of everything it was given.\<close>

lemma contents_run:
  assumes "\<And>e s. ok s \<Longrightarrow> contents (step e s) = contents (fold push (evs e) s)"
    and "\<And>e s. ok s \<Longrightarrow> ok (step e s)" and "ok s" and "length (contents s) \<le> cap"
  shows "contents (fold step es s) = last_n cap (contents s @ concat (map evs es))"
  using assms(3,4)
proof (induction es arbitrary: s)
  case Nil
  then show ?case by simp
next
  case (Cons e es)
  have c: "contents (step e s) = last_n cap (contents s @ evs e)"
    using Cons.prems by (simp add: assms(1) contents_fold)
  then have "length (contents (step e s)) \<le> cap" by simp
  from Cons.IH [OF assms(2) [OF Cons.prems(1)] this] show ?case by (simp add: c)
qed

end

subsection \<open>Interface: a machine with an invariant\<close>

locale invariant_machine =
  fixes step :: "'e \<Rightarrow> 's \<Rightarrow> 's"
    and inv :: "'s \<Rightarrow> bool"
  assumes step_inv: "inv s \<Longrightarrow> inv (step e s)"
begin

lemma run_inv: "inv s \<Longrightarrow> inv (fold step es s)"
  by (induction es arbitrary: s) (auto intro: step_inv)

end

subsection \<open>Interface: a store whose values carry their key\<close>

text \<open>
  Registries and subscription lists store values under the key the value itself carries. The
  provider promises what a lookup returns after an insert and that the size counts the keys;
  the client gets the last-write-wins reading of a whole sequence of inserts.
\<close>

locale keyed_upsert =
  fixes key :: "'v \<Rightarrow> 'k"
    and put :: "'v \<Rightarrow> 'm \<Rightarrow> 'm"
    and get :: "'m \<Rightarrow> 'k \<Rightarrow> 'v option"
    and count :: "'m \<Rightarrow> nat"
    and ok :: "'m \<Rightarrow> bool"
  assumes get_put: "ok m \<Longrightarrow> get (put v m) = (get m)(key v \<mapsto> v)"
    and ok_put: "ok m \<Longrightarrow> ok (put v m)"
    and finite_get: "ok m \<Longrightarrow> finite (dom (get m))"
    and count_get: "ok m \<Longrightarrow> count m = card (dom (get m))"
begin

lemma get_put_same: "ok m \<Longrightarrow> get (put v m) (key v) = Some v"
  by (simp add: get_put)

lemma get_put_other: "ok m \<Longrightarrow> k \<noteq> key v \<Longrightarrow> get (put v m) k = get m k"
  by (simp add: get_put)

lemma count_put: "ok m \<Longrightarrow> count (put v m) = (if get m (key v) = None then Suc (count m) else count m)"
  by (auto simp: count_get ok_put get_put finite_get card_insert_if)

lemma ok_fold_put: "ok m \<Longrightarrow> ok (fold put vs m)"
  by (induction vs arbitrary: m) (simp_all add: ok_put)

lemma get_fold_put:
  "ok m \<Longrightarrow> get (fold put vs m) = get m ++ map_of (rev (map (\<lambda>v. (key v, v)) vs))"
proof (induction vs arbitrary: m)
  case (Cons v vs)
  then have "get (fold put vs (put v m)) = get (put v m) ++ map_of (rev (map (\<lambda>v. (key v, v)) vs))"
    by (simp add: ok_put)
  with Cons.prems show ?case by (simp add: get_put map_add_def fun_eq_iff split: option.split)
qed simp

end

locale keyed_store = keyed_upsert +
  fixes del :: "'k \<Rightarrow> 'm \<Rightarrow> 'm"
  assumes get_del: "ok m \<Longrightarrow> get (del k m) = (get m)(k := None)"
    and ok_del: "ok m \<Longrightarrow> ok (del k m)"
begin

lemma count_del: "ok m \<Longrightarrow> count (del k m) = (if get m k = None then count m else count m - 1)"
proof -
  assume m: "ok m"
  then have "dom (get (del k m)) = dom (get m) - {k}" by (auto simp: get_del split: if_splits)
  with m show ?thesis
    by (auto simp: count_get ok_del finite_get card_Diff_singleton_if simp del: dom_fun_upd)
qed

lemma put_del_gone: "ok m \<Longrightarrow> get (del (key v) (put v m)) (key v) = None"
  by (simp add: get_del ok_put)

lemma put_del_restores: "ok m \<Longrightarrow> get m (key v) = None \<Longrightarrow> get (del (key v) (put v m)) = get m"
  by (auto simp: get_del get_put ok_put)

end

end
