(* ===== verification/Json.thy ===== *)
theory Json
  imports Prelude
begin

text \<open>
  The JSON values the sources pass around (\<^verbatim>\<open>serde_json::Value\<close>): the constructors and the
  accessors the components use. A number is an unsigned 64-bit, a negative signed 64-bit or a
  double, as the library documents; a double is kept as its bit pattern. Parsing and printing of
  JSON text belong to the library and are parameters of the components that need them.
\<close>

datatype json =
    JNull
  | JBool bool
  | JPos u64
  | JNeg int
  | JFloat f64
  | JString string
  | JArray "json list"
  | JObject "(string \<times> json) list"

subsection \<open>Conversion of integers to doubles\<close>

fun floor_log2 :: "nat \<Rightarrow> nat" where
  "floor_log2 n = (if n < 2 then 0 else Suc (floor_log2 (n div 2)))"

declare floor_log2.simps [simp del]

text \<open>Round to nearest, ties to even; the carry out of the significand lands in the exponent.\<close>

definition nat_to_f64 :: "nat \<Rightarrow> f64" where
  "nat_to_f64 n =
     (if n = 0 then 0
      else
        let e = floor_log2 n;
            q = (if e \<le> 52 then n * 2 ^ (52 - e)
                 else
                   let sh = e - 52; q0 = n div 2 ^ sh; r = n mod 2 ^ sh; half = 2 ^ (sh - 1)
                   in if r > half \<or> (r = half \<and> odd q0) then q0 + 1 else q0)
        in word_of_nat ((e + 1023) * 2 ^ 52 + (q - 2 ^ 52)))"

definition int_to_f64 :: "int \<Rightarrow> f64" where
  "int_to_f64 i = (if i < 0 then nat_to_f64 (nat (- i)) + 2 ^ 63 else nat_to_f64 (nat i))"

definition f64_is_nan :: "f64 \<Rightarrow> bool" where
  "f64_is_nan b \<longleftrightarrow> unat b mod 2 ^ 63 > 2047 * 2 ^ 52"

definition f64_is_finite :: "f64 \<Rightarrow> bool" where
  "f64_is_finite b \<longleftrightarrow> unat b mod 2 ^ 63 < 2047 * 2 ^ 52"

text \<open>The comparison \<^verbatim>\<open>x <= 0.0\<close>.\<close>

definition f64_le_zero :: "f64 \<Rightarrow> bool" where
  "f64_le_zero b \<longleftrightarrow> \<not> f64_is_nan b \<and> (unat b \<ge> 2 ^ 63 \<or> b = 0)"

subsection \<open>Accessors\<close>

fun as_object :: "json \<Rightarrow> (string \<times> json) list option" where
  "as_object (JObject m) = Some m"
| "as_object _ = None"

definition jget :: "string \<Rightarrow> json \<Rightarrow> json option" where
  "jget k v = (case as_object v of None \<Rightarrow> None | Some m \<Rightarrow> map_of m k)"

fun as_str :: "json \<Rightarrow> string option" where
  "as_str (JString s) = Some s"
| "as_str _ = None"

fun as_bool :: "json \<Rightarrow> bool option" where
  "as_bool (JBool b) = Some b"
| "as_bool _ = None"

fun as_u64 :: "json \<Rightarrow> u64 option" where
  "as_u64 (JPos n) = Some n"
| "as_u64 _ = None"

fun as_i64 :: "json \<Rightarrow> int option" where
  "as_i64 (JPos n) = (if unat n < 2 ^ 63 then Some (uint n) else None)"
| "as_i64 (JNeg i) = Some i"
| "as_i64 _ = None"

fun as_f64 :: "json \<Rightarrow> f64 option" where
  "as_f64 (JPos n) = Some (nat_to_f64 (unat n))"
| "as_f64 (JNeg i) = Some (int_to_f64 i)"
| "as_f64 (JFloat b) = Some b"
| "as_f64 _ = None"

fun as_array :: "json \<Rightarrow> json list option" where
  "as_array (JArray xs) = Some xs"
| "as_array _ = None"

definition is_null :: "json \<Rightarrow> bool" where
  "is_null v \<longleftrightarrow> v = JNull"

definition is_object :: "json \<Rightarrow> bool" where
  "is_object v \<longleftrightarrow> as_object v \<noteq> None"

text \<open>\<^verbatim>\<open>v.get(k).and_then(as_str)\<close> and its companions.\<close>

definition get_str :: "string \<Rightarrow> json \<Rightarrow> string option" where
  "get_str k v = Option.bind (jget k v) as_str"

definition get_u64 :: "string \<Rightarrow> json \<Rightarrow> u64 option" where
  "get_u64 k v = Option.bind (jget k v) as_u64"

definition get_bool :: "string \<Rightarrow> json \<Rightarrow> bool option" where
  "get_bool k v = Option.bind (jget k v) as_bool"

lemma jget_simps [simp]:
  "jget k (JObject m) = map_of m k"
  "jget k JNull = None"
  "jget k (JBool b) = None"
  "jget k (JString s) = None"
  "jget k (JArray xs) = None"
  "jget k (JPos n) = None"
  "jget k (JNeg i) = None"
  "jget k (JFloat x) = None"
  by (simp_all add: jget_def)

lemma as_str_Some [simp]: "as_str v = Some s \<longleftrightarrow> v = JString s"
  by (cases v) auto

lemma as_u64_Some [simp]: "as_u64 v = Some n \<longleftrightarrow> v = JPos n"
  by (cases v) auto

lemma as_array_Some [simp]: "as_array v = Some xs \<longleftrightarrow> v = JArray xs"
  by (cases v) auto

end
