(* ===== verification/World_Model.thy ===== *)
theory World_Model
  imports Json
begin

text \<open>
  Crate \<^verbatim>\<open>world-model\<close>: the fused publisher (\<^verbatim>\<open>store.rs\<close>) and the types it publishes
  (\<^verbatim>\<open>model.rs\<close>), with the native-control, system-control and vision structs it ingests. A hash map
  is an association list with distinct keys; nothing below depends on its order. The clock and
  the serialiser of an application snapshot are arguments.
\<close>

subsection \<open>Ingested types\<close>

record app_handle =
  ah_bundle_id :: string
  ah_pid :: "32 word"
  ah_name :: string
  ah_has_focus :: bool

record bbox =
  bb_x :: f64
  bb_y :: f64
  bb_w :: f64
  bb_h :: f64

definition is_zero_area :: "bbox \<Rightarrow> bool" where
  "is_zero_area b \<longleftrightarrow> f64_le_zero (bb_w b) \<or> f64_le_zero (bb_h b)"

record element_state =
  es_checked :: "bool option"
  es_expanded :: "bool option"
  es_pressed :: "bool option"
  es_selected :: "bool option"
  es_disabled :: bool

record app_element =
  ae_index :: nat
  ae_element_ref :: string
  ae_role :: string
  ae_name :: string
  ae_value :: "string option"
  ae_description :: "string option"
  ae_state :: element_state
  ae_bbox :: bbox
  ae_interactable :: bool
  ae_app_id :: string
  ae_stable_id :: string
  ae_ax_path :: "u32 list"

record app_snapshot =
  as_snapshot_seq :: u64
  as_app_id :: string
  as_bundle_id :: string
  as_pid :: "32 word"
  as_title :: string
  as_focused_ref :: "string option"
  as_elements :: "app_element list"
  as_tree :: json
  as_truncated_at :: "string option"

record window_handle =
  wh_window_id :: string
  wh_bundle_id :: string
  wh_title :: string
  wh_bbox :: bbox
  wh_minimized :: bool
  wh_fullscreen :: bool
  wh_main :: bool

datatype ax_event_topic =
  ValueChanged | FocusedChanged | WindowCreated | WindowDestroyed | SelectionChanged

record ax_event =
  ev_bundle_id :: string
  ev_topic :: ax_event_topic
  ev_timestamp_ms :: u64
  ev_element_ref :: "string option"
  ev_role :: "string option"
  ev_name :: "string option"
  ev_value :: "string option"

record display =
  d_id :: u32
  d_width :: u32
  d_height :: u32
  d_origin_x :: "32 word"
  d_origin_y :: "32 word"
  d_is_main :: bool
  d_scale :: f64

datatype fs_event_flag =
    Created | Removed | Renamed | Modified | InodeMetaModified | OwnerChanged | XattrChanged
  | IsFile | IsDir | IsSymlink | MountPoint | UnmountPoint | HistoryDone | RootChanged

record fs_event =
  fe_watch_id :: string
  fe_path :: string
  fe_flags :: "fs_event_flag list"
  fe_event_id :: u64
  fe_ts_ns :: "128 word"

record frame_handle =
  fh_shm_path :: string
  fh_slot_seq :: u64
  fh_slot_index :: u32
  fh_offset :: u32
  fh_len :: u32
  fh_ts_us :: u64

subsection \<open>Published types (model.rs)\<close>

datatype coherence = Coherent | Skewed (stale_ms: u64) (skew_reason: string) | Degraded string

datatype snapshot_source = AxStructure | Capture | LifecycleSource | WindowServer | CursorInput

record cursor_state =
  cs_x :: f64
  cs_y :: f64

datatype input_event_kind = MouseMove | MouseDown | MouseUp | KeyDown | KeyUp | Scroll

record input_event =
  ie_at_ms :: u64
  ie_kind :: input_event_kind
  ie_x :: "f64 option"
  ie_y :: "f64 option"
  ie_key :: "string option"

record focused_window =
  fw_bundle_id :: string
  fw_window_id :: string
  fw_title :: string

record snapshot_summary =
  ss_snapshot_seq :: u64
  ss_focused_ref :: "string option"
  ss_title :: string
  ss_payload :: json

record frame_ref =
  fr_shm_path :: string
  fr_slot_seq :: u64
  fr_slot_index :: u32
  fr_offset :: u32
  fr_len :: u32
  fr_ts_us :: u64

record ax_event_summary =
  axs_bundle_id :: string
  axs_topic :: string
  axs_timestamp_ms :: u64
  axs_role :: "string option"
  axs_name :: "string option"

record fs_event_summary =
  fss_watch_id :: string
  fss_path :: string
  fss_flags :: "string list"
  fss_event_id :: u64
  fss_at_ms :: u64

record app_world =
  aw_handle :: app_handle
  aw_windows :: "window_handle list"
  aw_snapshot :: "snapshot_summary option"

record display_world =
  dw_display :: display
  dw_latest_frame :: "frame_ref option"

record world_snapshot =
  ws_generation :: u64
  ws_captured_at_ms :: u64
  ws_sources :: "snapshot_source list"
  ws_coherence :: coherence
  ws_apps :: "app_world list"
  ws_displays :: "display_world list"
  ws_focused_window :: "focused_window option"
  ws_cursor :: "cursor_state option"
  ws_recent_ax_events :: "ax_event_summary list"
  ws_recent_fs_events :: "fs_event_summary list"
  ws_recent_input :: "input_event list"

definition not_primed :: coherence where
  "not_primed = Degraded ''world model not yet primed''"

definition world_snapshot_empty :: "u64 \<Rightarrow> world_snapshot" where
  "world_snapshot_empty now =
     \<lparr> ws_generation = 0, ws_captured_at_ms = now, ws_sources = [], ws_coherence = not_primed,
       ws_apps = [], ws_displays = [], ws_focused_window = None, ws_cursor = None,
       ws_recent_ax_events = [], ws_recent_fs_events = [], ws_recent_input = [] \<rparr>"

fun topic_debug :: "ax_event_topic \<Rightarrow> string" where
  "topic_debug ValueChanged = ''ValueChanged''"
| "topic_debug FocusedChanged = ''FocusedChanged''"
| "topic_debug WindowCreated = ''WindowCreated''"
| "topic_debug WindowDestroyed = ''WindowDestroyed''"
| "topic_debug SelectionChanged = ''SelectionChanged''"

definition ax_event_summary_from :: "ax_event \<Rightarrow> ax_event_summary" where
  "ax_event_summary_from e =
     \<lparr> axs_bundle_id = ev_bundle_id e, axs_topic = topic_debug (ev_topic e),
       axs_timestamp_ms = ev_timestamp_ms e, axs_role = ev_role e, axs_name = ev_name e \<rparr>"

fun flag_debug :: "fs_event_flag \<Rightarrow> string" where
  "flag_debug Created = ''Created''"
| "flag_debug Removed = ''Removed''"
| "flag_debug Renamed = ''Renamed''"
| "flag_debug Modified = ''Modified''"
| "flag_debug InodeMetaModified = ''InodeMetaModified''"
| "flag_debug OwnerChanged = ''OwnerChanged''"
| "flag_debug XattrChanged = ''XattrChanged''"
| "flag_debug IsFile = ''IsFile''"
| "flag_debug IsDir = ''IsDir''"
| "flag_debug IsSymlink = ''IsSymlink''"
| "flag_debug MountPoint = ''MountPoint''"
| "flag_debug UnmountPoint = ''UnmountPoint''"
| "flag_debug HistoryDone = ''HistoryDone''"
| "flag_debug RootChanged = ''RootChanged''"

definition fs_event_summary_from :: "fs_event \<Rightarrow> fs_event_summary" where
  "fs_event_summary_from e =
     \<lparr> fss_watch_id = fe_watch_id e, fss_path = fe_path e,
       fss_flags = map flag_debug (fe_flags e), fss_event_id = fe_event_id e,
       fss_at_ms = ucast (fe_ts_ns e div 1000000) \<rparr>"

subsection \<open>The store (store.rs)\<close>

definition RECENT_AX_CAP :: nat where "RECENT_AX_CAP = 64"
definition RECENT_FS_CAP :: nat where "RECENT_FS_CAP = 64"
definition RECENT_INPUT_CAP :: nat where "RECENT_INPUT_CAP = 64"

datatype world_model_input =
    AxSnapshot app_handle app_snapshot
  | Lifecycle "app_handle list"
  | WindowInventory string "window_handle list"
  | FrameReady u32 frame_handle
  | Displays "display list"
  | Cursor f64 f64
  | Input input_event
  | AxEvent ax_event
  | FsEvent fs_event

record inner =
  generation :: u64
  apps :: "(string \<times> app_world) list"
  displays :: "(u32 \<times> display_world) list"
  focused_window :: "focused_window option"
  cursor :: "cursor_state option"
  recent_ax_events :: "ax_event_summary list"
  recent_fs_events :: "fs_event_summary list"
  recent_input :: "input_event list"
  sources :: "snapshot_source list"
  coherence_of :: coherence

definition inner_new :: inner where
  "inner_new =
     \<lparr> generation = 0, apps = [], displays = [], focused_window = None, cursor = None,
       recent_ax_events = [], recent_fs_events = [], recent_input = [], sources = [],
       coherence_of = not_primed \<rparr>"

definition push_source :: "snapshot_source \<Rightarrow> inner \<Rightarrow> inner" where
  "push_source src g = g\<lparr> sources := sources g @ [src] \<rparr>"

text \<open>The branch of each input, in the order of the \<^verbatim>\<open>match\<close>.\<close>

definition apply_ax_snapshot ::
  "(app_snapshot \<Rightarrow> json option) \<Rightarrow> app_handle \<Rightarrow> app_snapshot \<Rightarrow> inner \<Rightarrow> inner" where
  "apply_ax_snapshot to_value app snap g =
     (let b = ah_bundle_id app;
          ws = (case map_of (apps g) b of None \<Rightarrow> [] | Some a \<Rightarrow> aw_windows a);
          summary = \<lparr> ss_snapshot_seq = as_snapshot_seq snap, ss_focused_ref = as_focused_ref snap,
                      ss_title = as_title snap,
                      ss_payload = (case to_value snap of None \<Rightarrow> JNull | Some v \<Rightarrow> v) \<rparr>;
          g = g\<lparr> apps := AList.update b
                   \<lparr> aw_handle = app, aw_windows = ws, aw_snapshot = Some summary \<rparr> (apps g) \<rparr>;
          g = (case as_focused_ref snap of
                 None \<Rightarrow> g
               | Some r \<Rightarrow>
                   (case find (\<lambda>e. ae_element_ref e = r) (as_elements snap) of
                      None \<Rightarrow> g
                    | Some e \<Rightarrow>
                        g\<lparr> focused_window :=
                             Some \<lparr> fw_bundle_id = b, fw_window_id = ae_app_id e,
                                    fw_title = as_title snap \<rparr> \<rparr>))
      in push_source AxStructure g)"

definition upsert_app :: "app_handle \<Rightarrow> (string \<times> app_world) list \<Rightarrow> (string \<times> app_world) list" where
  "upsert_app app m =
     (case map_of m (ah_bundle_id app) of
        None \<Rightarrow> AList.update (ah_bundle_id app)
                  \<lparr> aw_handle = app, aw_windows = [], aw_snapshot = None \<rparr> m
      | Some a \<Rightarrow> AList.update (ah_bundle_id app) (a\<lparr> aw_handle := app \<rparr>) m)"

definition apply_lifecycle :: "app_handle list \<Rightarrow> inner \<Rightarrow> inner" where
  "apply_lifecycle hs g =
     (let focused_bundle = map_option ah_bundle_id (find ah_has_focus hs);
          g = g\<lparr> apps := fold upsert_app hs (apps g) \<rparr>;
          g = (case focused_bundle of
                 None \<Rightarrow> g
               | Some b \<Rightarrow>
                   (case map_of (apps g) b of
                      None \<Rightarrow> g
                    | Some a \<Rightarrow>
                        (case find wh_main (aw_windows a) of
                           None \<Rightarrow> g
                         | Some w \<Rightarrow>
                             g\<lparr> focused_window :=
                                  Some \<lparr> fw_bundle_id = b, fw_window_id = wh_window_id w,
                                         fw_title = wh_title w \<rparr> \<rparr>)))
      in push_source LifecycleSource g)"

definition apply_window_inventory :: "string \<Rightarrow> window_handle list \<Rightarrow> inner \<Rightarrow> inner" where
  "apply_window_inventory b ws g =
     push_source WindowServer
       (case map_of (apps g) b of
          None \<Rightarrow>
            g\<lparr> coherence_of :=
                 Skewed 0 (''window inventory arrived before lifecycle for '' @ b) \<rparr>
        | Some a \<Rightarrow>
            (let g' = g\<lparr> apps := AList.update b (a\<lparr> aw_windows := ws \<rparr>) (apps g) \<rparr>
             in if ah_has_focus (aw_handle a)
                then (case find wh_main ws of
                        None \<Rightarrow> g'
                      | Some w \<Rightarrow>
                          g'\<lparr> focused_window :=
                               Some \<lparr> fw_bundle_id = b, fw_window_id = wh_window_id w,
                                      fw_title = wh_title w \<rparr> \<rparr>)
                else g'))"

definition frame_ref_of :: "frame_handle \<Rightarrow> frame_ref" where
  "frame_ref_of f =
     \<lparr> fr_shm_path = fh_shm_path f, fr_slot_seq = fh_slot_seq f, fr_slot_index = fh_slot_index f,
       fr_offset = fh_offset f, fr_len = fh_len f, fr_ts_us = fh_ts_us f \<rparr>"

definition apply_frame_ready :: "u32 \<Rightarrow> frame_handle \<Rightarrow> inner \<Rightarrow> inner" where
  "apply_frame_ready i f g =
     push_source Capture
       (case map_of (displays g) i of
          None \<Rightarrow>
            g\<lparr> coherence_of :=
                 Skewed 0 (''frame arrived before display inventory for display ''
                            @ nat_to_dec (unat i)) \<rparr>
        | Some d \<Rightarrow>
            g\<lparr> displays := AList.update i (d\<lparr> dw_latest_frame := Some (frame_ref_of f) \<rparr>)
                            (displays g) \<rparr>)"

definition collect_displays :: "display list \<Rightarrow> (u32 \<times> display_world) list" where
  "collect_displays ds =
     fold (\<lambda>d. AList.update (d_id d) \<lparr> dw_display = d, dw_latest_frame = None \<rparr>) ds []"

definition apply_displays :: "display list \<Rightarrow> inner \<Rightarrow> inner" where
  "apply_displays ds g = push_source WindowServer (g\<lparr> displays := collect_displays ds \<rparr>)"

definition push_recent_input :: "input_event \<Rightarrow> inner \<Rightarrow> inner" where
  "push_recent_input e g =
     g\<lparr> recent_input := trim_front RECENT_INPUT_CAP (recent_input g @ [e]) \<rparr>"

definition push_recent_ax :: "ax_event_summary \<Rightarrow> inner \<Rightarrow> inner" where
  "push_recent_ax e g =
     g\<lparr> recent_ax_events := trim_front RECENT_AX_CAP (recent_ax_events g @ [e]) \<rparr>"

definition push_recent_fs :: "fs_event_summary \<Rightarrow> inner \<Rightarrow> inner" where
  "push_recent_fs e g =
     g\<lparr> recent_fs_events := trim_front RECENT_FS_CAP (recent_fs_events g @ [e]) \<rparr>"

definition mouse_move :: "u64 \<Rightarrow> f64 \<Rightarrow> f64 \<Rightarrow> input_event" where
  "mouse_move now x y =
     \<lparr> ie_at_ms = now, ie_kind = MouseMove, ie_x = Some x, ie_y = Some y, ie_key = None \<rparr>"

definition apply_cursor :: "u64 \<Rightarrow> f64 \<Rightarrow> f64 \<Rightarrow> inner \<Rightarrow> inner" where
  "apply_cursor now x y g =
     push_source CursorInput
       (push_recent_input (mouse_move now x y) (g\<lparr> cursor := Some \<lparr> cs_x = x, cs_y = y \<rparr> \<rparr>))"

text \<open>
  \<open>apply_inner\<close> is what happens to the locked state; \<open>now\<close> is the clock read of the cursor branch.
\<close>

definition apply_inner ::
  "(app_snapshot \<Rightarrow> json option) \<Rightarrow> u64 \<Rightarrow> world_model_input \<Rightarrow> inner \<Rightarrow> inner" where
  "apply_inner to_value now inp g =
     (let g = g\<lparr> generation := sat_add (generation g) 1, sources := [], coherence_of := Coherent \<rparr>
      in case inp of
           AxSnapshot app snap \<Rightarrow> apply_ax_snapshot to_value app snap g
         | Lifecycle hs \<Rightarrow> apply_lifecycle hs g
         | WindowInventory b ws \<Rightarrow> apply_window_inventory b ws g
         | FrameReady i f \<Rightarrow> apply_frame_ready i f g
         | Displays ds \<Rightarrow> apply_displays ds g
         | Cursor x y \<Rightarrow> apply_cursor now x y g
         | Input e \<Rightarrow> push_source CursorInput (push_recent_input e g)
         | AxEvent e \<Rightarrow> push_source AxStructure (push_recent_ax (ax_event_summary_from e) g)
         | FsEvent e \<Rightarrow> push_source WindowServer (push_recent_fs (fs_event_summary_from e) g))"

definition publish :: "u64 \<Rightarrow> inner \<Rightarrow> world_snapshot" where
  "publish now g =
     \<lparr> ws_generation = generation g, ws_captured_at_ms = now, ws_sources = sources g,
       ws_coherence = coherence_of g, ws_apps = map snd (apps g),
       ws_displays = map snd (displays g), ws_focused_window = focused_window g,
       ws_cursor = cursor g, ws_recent_ax_events = recent_ax_events g,
       ws_recent_fs_events = recent_fs_events g, ws_recent_input = recent_input g \<rparr>"

definition apply_world ::
  "(app_snapshot \<Rightarrow> json option) \<Rightarrow> u64 \<Rightarrow> u64 \<Rightarrow> world_model_input \<Rightarrow> inner
   \<Rightarrow> world_snapshot \<times> inner" where
  "apply_world to_value now now' inp g =
     (let g' = apply_inner to_value now inp g in (publish now' g', g'))"

definition latest :: "u64 \<Rightarrow> inner \<Rightarrow> world_snapshot" where
  "latest now g = (if generation g = 0 then world_snapshot_empty now else publish now g)"


subsection \<open>A run of the publisher\<close>

text \<open>A history is the list of inputs applied, each with the clock value its cursor branch reads.\<close>

type_synonym history = "(world_model_input \<times> u64) list"

definition apply_step ::
  "(app_snapshot \<Rightarrow> json option) \<Rightarrow> world_model_input \<times> u64 \<Rightarrow> inner \<Rightarrow> inner" where
  "apply_step to_value e g = apply_inner to_value (snd e) (fst e) g"

definition run_world :: "(app_snapshot \<Rightarrow> json option) \<Rightarrow> history \<Rightarrow> inner" where
  "run_world to_value es = fold (apply_step to_value) es inner_new"

text \<open>What an input contributes to each stream, and the application handles it delivers.\<close>

fun input_events_of :: "world_model_input \<times> u64 \<Rightarrow> input_event list" where
  "input_events_of (Cursor x y, now) = [mouse_move now x y]"
| "input_events_of (Input e, now) = [e]"
| "input_events_of _ = []"

fun ax_events_of :: "world_model_input \<times> u64 \<Rightarrow> ax_event_summary list" where
  "ax_events_of (AxEvent e, now) = [ax_event_summary_from e]"
| "ax_events_of _ = []"

fun fs_events_of :: "world_model_input \<times> u64 \<Rightarrow> fs_event_summary list" where
  "fs_events_of (FsEvent e, now) = [fs_event_summary_from e]"
| "fs_events_of _ = []"

fun handles_of :: "world_model_input \<times> u64 \<Rightarrow> app_handle list" where
  "handles_of (AxSnapshot app snap, now) = [app]"
| "handles_of (Lifecycle hs, now) = hs"
| "handles_of _ = []"

definition handle_of :: "(string \<times> app_world) list \<Rightarrow> string \<Rightarrow> app_handle option" where
  "handle_of m b = map_option aw_handle (map_of m b)"

text \<open>The well-formedness the lock protects.\<close>

definition focus_known :: "inner \<Rightarrow> bool" where
  "focus_known g \<longleftrightarrow>
     (case focused_window g of None \<Rightarrow> True | Some f \<Rightarrow> map_of (apps g) (fw_bundle_id f) \<noteq> None)"

definition wm_inv :: "inner \<Rightarrow> bool" where
  "wm_inv g \<longleftrightarrow> keyed_by (ah_bundle_id \<circ> aw_handle) (apps g) \<and>
     keyed_by (d_id \<circ> dw_display) (displays g) \<and> focus_known g \<and>
     length (recent_ax_events g) \<le> RECENT_AX_CAP \<and>
     length (recent_fs_events g) \<le> RECENT_FS_CAP \<and>
     length (recent_input g) \<le> RECENT_INPUT_CAP \<and> length (sources g) \<le> 1"

subsection \<open>Lemmas\<close>

lemmas apply_branch_defs =
  apply_ax_snapshot_def apply_lifecycle_def apply_window_inventory_def apply_frame_ready_def
  apply_displays_def apply_cursor_def push_source_def push_recent_input_def push_recent_ax_def
  push_recent_fs_def Let_def

lemma upsert_app_eq:
  "upsert_app app m =
     AList.update (ah_bundle_id app)
       (case map_of m (ah_bundle_id app) of
          None \<Rightarrow> \<lparr> aw_handle = app, aw_windows = [], aw_snapshot = None \<rparr>
        | Some a \<Rightarrow> a\<lparr> aw_handle := app \<rparr>) m"
  by (simp add: upsert_app_def split: option.split)

lemma keyed_by_upsert_app:
  "keyed_by (ah_bundle_id \<circ> aw_handle) m \<Longrightarrow> keyed_by (ah_bundle_id \<circ> aw_handle) (upsert_app app m)"
  unfolding upsert_app_eq by (rule keyed_by_update) (auto split: option.split)

lemma dom_upsert_app: "dom (map_of (upsert_app app m)) = insert (ah_bundle_id app) (dom (map_of m))"
  by (simp add: upsert_app_eq update_conv')

lemma dom_fold_upsert_app:
  "dom (map_of (fold upsert_app hs m)) = ah_bundle_id ` set hs \<union> dom (map_of m)"
  by (induction hs arbitrary: m) (auto simp: dom_upsert_app)

lemma keyed_by_collect_displays: "keyed_by (d_id \<circ> dw_display) (collect_displays ds)"
  unfolding collect_displays_def by (rule keyed_by_fold) (auto intro: keyed_by_update)

lemma focus_known_apply:
  assumes "focus_known g"
  shows "focus_known (apply_inner to_value now inp g)"
proof (cases inp)
  case (AxSnapshot app snap)
  then show ?thesis using assms
    by (auto simp: apply_inner_def apply_branch_defs focus_known_def update_conv'
          split: option.splits)
next
  case (Lifecycle hs)
  have "dom (map_of (apps g)) \<subseteq> dom (map_of (fold upsert_app hs (apps g)))"
    by (simp add: dom_fold_upsert_app)
  with Lifecycle assms show ?thesis
    by (auto simp: apply_inner_def apply_branch_defs focus_known_def subset_eq domIff
          split: option.splits)
next
  case (WindowInventory b ws)
  then show ?thesis using assms
    by (auto simp: apply_inner_def apply_branch_defs focus_known_def update_conv'
          split: option.splits)
qed (use assms in \<open>auto simp: apply_inner_def apply_branch_defs focus_known_def
                      split: option.splits\<close>)

lemma wm_inv_apply:
  assumes "wm_inv g"
  shows "wm_inv (apply_inner to_value now inp g)"
proof -
  have f: "focus_known (apply_inner to_value now inp g)"
    using assms by (auto simp: wm_inv_def intro: focus_known_apply)
  show ?thesis using assms f unfolding wm_inv_def
    by (cases inp)
      (auto simp: apply_inner_def apply_branch_defs trim_front_eq keyed_by_collect_displays
         dest: keyed_by_map_of intro!: keyed_by_update keyed_by_fold [OF keyed_by_upsert_app]
         split: option.splits)
qed

lemma wm_inv_new: "wm_inv inner_new"
  by (simp add: wm_inv_def inner_new_def focus_known_def)

interpretation publisher: invariant_machine "apply_step to_value" wm_inv
  by unfold_locales (simp add: apply_step_def wm_inv_apply)

interpretation input_log: capped_log push_recent_input recent_input RECENT_INPUT_CAP "\<lambda>_. True"
  by unfold_locales (simp add: push_recent_input_def trim_front_eq)+

interpretation ax_log: capped_log push_recent_ax recent_ax_events RECENT_AX_CAP "\<lambda>_. True"
  by unfold_locales (simp add: push_recent_ax_def trim_front_eq)+

interpretation fs_log: capped_log push_recent_fs recent_fs_events RECENT_FS_CAP "\<lambda>_. True"
  by unfold_locales (simp add: push_recent_fs_def trim_front_eq)+

lemma recent_input_step:
  "recent_input (apply_step to_value e g) = recent_input (fold push_recent_input (input_events_of e) g)"
  by (cases e; cases "fst e")
    (auto simp: apply_step_def apply_inner_def apply_branch_defs split: option.split)

lemma recent_ax_step:
  "recent_ax_events (apply_step to_value e g) = recent_ax_events (fold push_recent_ax (ax_events_of e) g)"
  by (cases e; cases "fst e")
    (auto simp: apply_step_def apply_inner_def apply_branch_defs split: option.split)

lemma recent_fs_step:
  "recent_fs_events (apply_step to_value e g) = recent_fs_events (fold push_recent_fs (fs_events_of e) g)"
  by (cases e; cases "fst e")
    (auto simp: apply_step_def apply_inner_def apply_branch_defs split: option.split)

lemma generation_step: "generation (apply_step to_value e g) = sat_add (generation g) 1"
  by (cases e; cases "fst e")
    (auto simp: apply_step_def apply_inner_def apply_branch_defs split: option.split)

lemma generation_fold:
  "unat (generation (fold (apply_step to_value) es g)) = min (unat (generation g) + length es) (2 ^ 64 - 1)"
proof (induction es arbitrary: g)
  case Nil
  have "unat (generation g) < 2 ^ 64" using unsigned_less [of "generation g"] by simp
  then show ?case by simp
next
  case (Cons e es)
  then show ?case by (simp add: generation_step unat_sat_add)
qed

lemma generation_apply_nonzero: "generation (apply_inner to_value now inp g) \<noteq> 0"
proof
  assume "generation (apply_inner to_value now inp g) = 0"
  then have "unat (sat_add (generation g) 1) = 0"
    using generation_step [of to_value "(inp, now)" g] by (simp add: apply_step_def)
  then show False by (simp add: unat_sat_add)
qed

text \<open>What \<open>apply\<close> returns is what readers see next, up to the time stamp.\<close>

lemma latest_after_apply:
  "latest t (snd (apply_world to_value now now' inp g)) =
     (fst (apply_world to_value now now' inp g))\<lparr> ws_captured_at_ms := t \<rparr>"
  by (simp add: apply_world_def latest_def publish_def Let_def generation_apply_nonzero)

lemma handle_of_update:
  "handle_of (AList.update k a m) = (handle_of m)(k \<mapsto> aw_handle a)"
  by (rule ext) (simp add: handle_of_def update_conv')

lemma handle_of_upsert: "handle_of (upsert_app h m) = (handle_of m)(ah_bundle_id h \<mapsto> h)"
  by (auto simp: upsert_app_eq handle_of_update split: option.split)

lemma handle_of_fold_upsert:
  "handle_of (fold upsert_app hs m) b =
     (case find (\<lambda>h. ah_bundle_id h = b) (rev hs) of None \<Rightarrow> handle_of m b | Some h \<Rightarrow> Some h)"
  by (induction hs arbitrary: m) (auto simp: handle_of_upsert find_append split: option.split)

lemma handle_of_step:
  "handle_of (apps (apply_step to_value e g)) b = handle_of (fold upsert_app (handles_of e) (apps g)) b"
  by (cases e; cases "fst e")
    (auto simp: apply_step_def apply_inner_def apply_branch_defs handle_of_update handle_of_upsert
       handle_of_def update_conv' split: option.split)

lemma handle_of_run:
  "handle_of (apps (fold (apply_step to_value) es g)) b =
     (case find (\<lambda>h. ah_bundle_id h = b) (rev (concat (map handles_of es))) of
        None \<Rightarrow> handle_of (apps g) b | Some h \<Rightarrow> Some h)"
  by (induction es arbitrary: g)
    (auto simp: handle_of_step handle_of_fold_upsert find_append split: option.split)

subsection \<open>Properties\<close>

text \<open>
  C1. After any sequence of inputs the store is well formed: applications and displays are keyed
  by their own ids without duplicates, the focused window belongs to a known application, the
  three recent-event rings hold at most 64 entries, and the generation is the number of inputs
  applied, saturating at the largest 64-bit value.
\<close>
theorem world_model_invariant:
  "wm_inv (run_world to_value es) \<and>
   unat (generation (run_world to_value es)) = min (length es) (2 ^ 64 - 1)"
proof
  show "wm_inv (run_world to_value es)"
    unfolding run_world_def by (rule publisher.run_inv [OF wm_inv_new])
  show "unat (generation (run_world to_value es)) = min (length es) (2 ^ 64 - 1)"
    by (simp add: run_world_def generation_fold) (simp add: inner_new_def)
qed

text \<open>
  C2. The published rings refine the history: after any sequence of inputs each of the three rings
  is exactly the newest 64 entries, in order of arrival, of what the inputs contributed to it
  (a cursor move contributes a mouse-move event to the input ring).
\<close>
theorem world_model_rings:
  "recent_input (run_world to_value es) = last_n 64 (concat (map input_events_of es)) \<and>
   recent_ax_events (run_world to_value es) = last_n 64 (concat (map ax_events_of es)) \<and>
   recent_fs_events (run_world to_value es) = last_n 64 (concat (map fs_events_of es))"
  using input_log.contents_run
      [where step = "apply_step to_value" and s = inner_new and es = es, OF recent_input_step]
    ax_log.contents_run
      [where step = "apply_step to_value" and s = inner_new and es = es, OF recent_ax_step]
    fs_log.contents_run
      [where step = "apply_step to_value" and s = inner_new and es = es, OF recent_fs_step]
  by (simp add: run_world_def inner_new_def RECENT_INPUT_CAP_def RECENT_AX_CAP_def RECENT_FS_CAP_def)

text \<open>
  C3. The store knows an application exactly when some input delivered a handle for its bundle id,
  and the handle it publishes is the one delivered last. In particular an application that has
  quit and is missing from later lifecycle inputs is still published.
\<close>
theorem world_model_handles:
  "map_option aw_handle (map_of (apps (run_world to_value es)) b) =
     find (\<lambda>h. ah_bundle_id h = b) (rev (concat (map handles_of es)))"
  using handle_of_run [of to_value es inner_new b]
  by (simp add: run_world_def handle_of_def inner_new_def split: option.splits)

text \<open>
  An input leaves the world marked as not coherent exactly when it is a window inventory for an
  application no lifecycle or structure input has announced, or a frame for a display that is not
  in the display inventory.
\<close>
theorem world_model_skew:
  "coherence_of (apply_inner to_value now inp g) \<noteq> Coherent \<longleftrightarrow>
     (\<exists>b ws. inp = WindowInventory b ws \<and> map_of (apps g) b = None) \<or>
     (\<exists>i f. inp = FrameReady i f \<and> map_of (displays g) i = None)"
  by (cases inp) (auto simp: apply_inner_def apply_branch_defs split: option.splits)

end
