(* ===== verification/Cdp_Framing.thy ===== *)
theory Cdp_Framing
  imports Json
begin

text \<open>
  Crate \<^verbatim>\<open>cdp-client\<close>: the NUL-delimited codec of the Chromium pipe (\<^verbatim>\<open>framing.rs\<close>), the
  error types (\<^verbatim>\<open>error.rs\<close>) and the retry policy with the loop that uses it (\<^verbatim>\<open>retry.rs\<close>,
  \<^verbatim>\<open>session.rs\<close>). The JSON printer and parser are arguments. A vector length never exceeds
  \<^verbatim>\<open>isize::MAX\<close>, so the saturating addition of two lengths is addition.
\<close>

subsection \<open>Errors (error.rs)\<close>

datatype framing_error = FrameTooLarge nat | FramingIo string | FramingJson string | UnexpectedEof

datatype cdp_error =
    Spawn string
  | Framing framing_error
  | CdpJson string
  | ProtocolError int string "json option"
  | SessionDetached
  | ConnectionClosed
  | Timeout
  | UnknownId string
  | Internal string

subsection \<open>The codec (framing.rs)\<close>

definition DEFAULT_MAX_FRAME_BYTES :: nat where
  "DEFAULT_MAX_FRAME_BYTES = 100 * 1024 * 1024"

text \<open>\<open>to_vec\<close> is \<^verbatim>\<open>serde_json::to_vec\<close>.\<close>

definition encode_frame :: "(json \<Rightarrow> string + u8 list) \<Rightarrow> json \<Rightarrow> framing_error + u8 list" where
  "encode_frame to_vec v =
     (case to_vec v of Inl e \<Rightarrow> Inl (FramingJson e) | Inr buf \<Rightarrow> Inr (buf @ [0]))"

text \<open>
  \<^verbatim>\<open>to_writer\<close> leaves the bytes it managed to write in the scratch buffer when it fails:
  \<open>to_writer v\<close> is an optional error and the bytes written.
\<close>

definition encode_frame_into ::
  "(json \<Rightarrow> string option \<times> u8 list) \<Rightarrow> u8 list \<Rightarrow> json \<Rightarrow> framing_error option \<times> u8 list" where
  "encode_frame_into to_writer scratch v =
     (case to_writer v of
        (Some e, w) \<Rightarrow> (Some (FramingJson e), scratch @ w)
      | (None, w) \<Rightarrow> (None, scratch @ w @ [0]))"

record decoder =
  dec_buf :: "u8 list"
  dec_max :: nat

definition decoder_new :: "nat \<Rightarrow> decoder" where
  "decoder_new max_frame_bytes = \<lparr> dec_buf = [], dec_max = max_frame_bytes \<rparr>"

definition buffered :: "decoder \<Rightarrow> nat" where
  "buffered d = length (dec_buf d)"

text \<open>
  The loop over the buffer. \<open>cur\<close> is the slice from \<^verbatim>\<open>start\<close> to the current position; the result is
  the error, if any, the slice from \<^verbatim>\<open>start\<close> to the end, and the values pushed to \<^verbatim>\<open>out\<close>.
\<close>

fun scan_frames ::
  "(u8 list \<Rightarrow> string + json) \<Rightarrow> nat \<Rightarrow> u8 list \<Rightarrow> u8 list \<Rightarrow> json list
   \<Rightarrow> framing_error option \<times> u8 list \<times> json list" where
  "scan_frames from_slice mx cur [] out = (None, cur, out)"
| "scan_frames from_slice mx cur (b # bs) out =
     (if b = 0 then
        (if cur \<noteq> [] then
           (if length cur > mx then (Some (FrameTooLarge mx), cur, out)
            else
              (case from_slice cur of
                 Inl e \<Rightarrow> (Some (FramingJson e), cur, out)
               | Inr v \<Rightarrow> scan_frames from_slice mx [] bs (out @ [v])))
         else scan_frames from_slice mx [] bs out)
      else scan_frames from_slice mx (cur @ [b]) bs out)"

text \<open>The error, if any, the decoder afterwards, and \<^verbatim>\<open>out\<close> with what was appended to it.\<close>

definition feed_into ::
  "(u8 list \<Rightarrow> string + json) \<Rightarrow> u8 list \<Rightarrow> json list \<Rightarrow> decoder
   \<Rightarrow> framing_error option \<times> decoder \<times> json list" where
  "feed_into from_slice chunk out d =
     (if length (dec_buf d) + length chunk > dec_max d \<and> 0 \<notin> set chunk
         \<and> list_all (\<lambda>b. b \<noteq> 0) (dec_buf d)
      then (Some (FrameTooLarge (dec_max d)), d, out)
      else
        let buf = dec_buf d @ chunk
        in case scan_frames from_slice (dec_max d) [] buf out of
             (Some e, rest, out') \<Rightarrow> (Some e, d\<lparr> dec_buf := buf \<rparr>, out')
           | (None, rest, out') \<Rightarrow>
               (if length rest > dec_max d then Some (FrameTooLarge (dec_max d)) else None,
                d\<lparr> dec_buf := rest \<rparr>, out'))"

definition feed ::
  "(u8 list \<Rightarrow> string + json) \<Rightarrow> u8 list \<Rightarrow> decoder \<Rightarrow> (framing_error + json list) \<times> decoder" where
  "feed from_slice chunk d =
     (case feed_into from_slice chunk [] d of
        (Some e, d', out) \<Rightarrow> (Inl e, d')
      | (None, d', out) \<Rightarrow> (Inr out, d'))"

definition finish :: "decoder \<Rightarrow> framing_error + unit" where
  "finish d = (if dec_buf d = [] then Inr () else Inl UnexpectedEof)"

text \<open>
  The reader actor's loop over the chunks the pipe delivers: it stops at the first framing error.
\<close>

fun feed_chunks ::
  "(u8 list \<Rightarrow> string + json) \<Rightarrow> u8 list list \<Rightarrow> json list \<Rightarrow> decoder
   \<Rightarrow> framing_error option \<times> decoder \<times> json list" where
  "feed_chunks from_slice [] out d = (None, d, out)"
| "feed_chunks from_slice (c # cs) out d =
     (case feed_into from_slice c out d of
        (Some e, d', out') \<Rightarrow> (Some e, d', out')
      | (None, d', out') \<Rightarrow> feed_chunks from_slice cs out' d')"

subsection \<open>What the codec promises\<close>

text \<open>
  The specification works on the whole stream: the non-empty segments that a NUL closes, and the
  open segment at the end.
\<close>

fun split_nul :: "u8 list \<Rightarrow> u8 list \<Rightarrow> u8 list list \<times> u8 list" where
  "split_nul cur [] = ([], cur)"
| "split_nul cur (b # bs) =
     (if b = 0 then
        (let (fs, t) = split_nul [] bs in ((if cur = [] then fs else cur # fs), t))
      else split_nul (cur @ [b]) bs)"

definition frame_ok :: "(u8 list \<Rightarrow> string + json) \<Rightarrow> nat \<Rightarrow> u8 list \<Rightarrow> bool" where
  "frame_ok from_slice mx f \<longleftrightarrow> length f \<le> mx \<and> (\<exists>v. from_slice f = Inr v)"

definition stream_ok :: "(u8 list \<Rightarrow> string + json) \<Rightarrow> nat \<Rightarrow> u8 list \<Rightarrow> bool" where
  "stream_ok from_slice mx s \<longleftrightarrow>
     list_all (frame_ok from_slice mx) (fst (split_nul [] s)) \<and> length (snd (split_nul [] s)) \<le> mx"

text \<open>One chunk, in terms of the segments of the buffered tail followed by the chunk.\<close>

definition chunk_ok :: "(u8 list \<Rightarrow> string + json) \<Rightarrow> decoder \<Rightarrow> u8 list \<Rightarrow> bool" where
  "chunk_ok from_slice d c \<longleftrightarrow>
     list_all (frame_ok from_slice (dec_max d)) (fst (split_nul (dec_buf d) c)) \<and>
     length (snd (split_nul (dec_buf d) c)) \<le> dec_max d"

subsection \<open>Retries (retry.rs, session.rs)\<close>

text \<open>A \<^verbatim>\<open>Duration\<close> in nanoseconds; the largest is \<open>2 ^ 64\<close> seconds less one nanosecond.\<close>

type_synonym duration = nat

definition DURATION_MAX :: duration where
  "DURATION_MAX = 2 ^ 64 * 1000000000 - 1"

definition from_millis :: "nat \<Rightarrow> duration" where
  "from_millis ms = ms * 1000000"

definition duration_checked_mul :: "duration \<Rightarrow> u32 \<Rightarrow> duration option" where
  "duration_checked_mul d m = (if d * unat m \<le> DURATION_MAX then Some (d * unat m) else None)"

record retry_policy =
  max_attempts :: u32
  initial_backoff :: duration
  max_backoff :: duration

definition disabled :: retry_policy where
  "disabled = \<lparr> max_attempts = 1, initial_backoff = from_millis 0, max_backoff = from_millis 0 \<rparr>"

definition default_idempotent :: retry_policy where
  "default_idempotent =
     \<lparr> max_attempts = 3, initial_backoff = from_millis 50, max_backoff = from_millis 200 \<rparr>"

definition checked_shl_one :: "u32 \<Rightarrow> u64 option" where
  "checked_shl_one e = (if unat e < 64 then Some (push_bit (unat e) 1) else None)"

definition backoff_before :: "retry_policy \<Rightarrow> u32 \<Rightarrow> duration" where
  "backoff_before p attempt =
     (if attempt \<le> 1 then from_millis 0
      else
        let ex = sat_sub attempt 2;
            mult = (case checked_shl_one ex of None \<Rightarrow> - 1 | Some m \<Rightarrow> m);
            scaled = (case duration_checked_mul (initial_backoff p) (ucast (min mult 0xFFFFFFFF)) of
                        None \<Rightarrow> max_backoff p | Some d \<Rightarrow> d)
        in min scaled (max_backoff p))"

fun is_transient :: "cdp_error \<Rightarrow> bool" where
  "is_transient ConnectionClosed = True"
| "is_transient Timeout = True"
| "is_transient SessionDetached = True"
| "is_transient _ = False"

datatype outcome = OutcomeOk | OutcomeTransport | OutcomeProtocolError | OutcomeInternal

fun failure_outcome :: "cdp_error \<Rightarrow> outcome" where
  "failure_outcome (ProtocolError c m d) = OutcomeProtocolError"
| "failure_outcome _ = OutcomeInternal"

fun outcome_for_result :: "cdp_error + 'a \<Rightarrow> outcome" where
  "outcome_for_result (Inr v) = OutcomeOk"
| "outcome_for_result (Inl e) =
     (if is_transient e then OutcomeTransport else failure_outcome e)"

text \<open>
  One call of \<^verbatim>\<open>send_with_retry_policy\<close>: the result, the outcome and the number of attempts given to
  the metrics sink, and the sleeps taken. \<open>snd n\<close> is what the \<open>n\<close>-th attempt of \<^verbatim>\<open>send_inner\<close> returns.
\<close>

record 'a retry_run =
  rr_result :: "cdp_error + 'a"
  rr_outcome :: outcome
  rr_attempts :: u32
  rr_sleeps :: "duration list"

function retry_loop ::
  "retry_policy \<Rightarrow> (u32 \<Rightarrow> cdp_error + 'a) \<Rightarrow> u32 \<Rightarrow> cdp_error option \<Rightarrow> duration list \<Rightarrow> 'a retry_run"
where
  "retry_loop p send attempt last_err sleeps =
     (if attempt < max_attempts p then
        let attempt = attempt + 1;
            sleeps = (if attempt > 1 then sleeps @ [backoff_before p attempt] else sleeps)
        in case send attempt of
             Inr v \<Rightarrow> \<lparr> rr_result = Inr v, rr_outcome = OutcomeOk, rr_attempts = attempt,
                        rr_sleeps = sleeps \<rparr>
           | Inl e \<Rightarrow>
               (if \<not> is_transient e
                then \<lparr> rr_result = Inl e, rr_outcome = failure_outcome e, rr_attempts = attempt,
                       rr_sleeps = sleeps \<rparr>
                else retry_loop p send attempt (Some e) sleeps)
      else
        \<lparr> rr_result = Inl (case last_err of None \<Rightarrow> ConnectionClosed | Some e \<Rightarrow> e),
          rr_outcome = OutcomeTransport, rr_attempts = attempt, rr_sleeps = sleeps \<rparr>)"
  by pat_completeness auto
termination
proof (relation "measure (\<lambda>(p, send, attempt, last_err, sleeps). unat (max_attempts p) - unat attempt)")
  fix p :: retry_policy and attempt x :: u32 and send :: "u32 \<Rightarrow> cdp_error + 'a"
    and last_err :: "cdp_error option" and sleeps xa :: "duration list" and e
  assume "attempt < max_attempts p" and x: "x = attempt + 1"
  then have "unat (attempt + 1) = Suc (unat attempt)" "unat attempt < unat (max_attempts p)"
    by (simp_all add: unat_Suc_less word_less_nat_alt)
  then show "((p, send, x, Some e, xa), p, send, attempt, last_err, sleeps)
    \<in> measure (\<lambda>(p, send, attempt, last_err, sleeps). unat (max_attempts p) - unat attempt)"
    using x by simp
qed simp

declare retry_loop.simps [simp del]

definition send_with_retry_policy ::
  "(u32 \<Rightarrow> cdp_error + 'a) \<Rightarrow> retry_policy \<Rightarrow> 'a retry_run" where
  "send_with_retry_policy send p = retry_loop p send 0 None []"

definition send_with_retry :: "bool \<Rightarrow> (u32 \<Rightarrow> cdp_error + 'a) \<Rightarrow> 'a retry_run" where
  "send_with_retry idempotent send =
     send_with_retry_policy send (if idempotent then default_idempotent else disabled)"

text \<open>The contract of a retry run that starts after attempt \<open>a\<close>.\<close>

definition retryable :: "cdp_error + 'a \<Rightarrow> bool" where
  "retryable r = (case r of Inl e \<Rightarrow> is_transient e | Inr v \<Rightarrow> False)"

definition retry_spec ::
  "retry_policy \<Rightarrow> (u32 \<Rightarrow> cdp_error + 'a) \<Rightarrow> nat \<Rightarrow> cdp_error option \<Rightarrow> duration list
   \<Rightarrow> 'a retry_run \<Rightarrow> bool" where
  "retry_spec p send a last_err sleeps r \<longleftrightarrow>
     (let n = unat (rr_attempts r)
      in a \<le> n \<and> n \<le> unat (max_attempts p) \<and>
         list_all (\<lambda>k. retryable (send (word_of_nat k))) [Suc a..<n] \<and>
         (n = unat (max_attempts p) \<or> a < n \<and> \<not> retryable (send (word_of_nat n))) \<and>
         rr_result r = (if a < n then send (word_of_nat n)
                        else Inl (case last_err of None \<Rightarrow> ConnectionClosed | Some e \<Rightarrow> e)) \<and>
         rr_outcome r = (if a < n then outcome_for_result (rr_result r) else OutcomeTransport) \<and>
         rr_sleeps r = sleeps @ map (\<lambda>k. backoff_before p (word_of_nat k)) [max 2 (Suc a)..<Suc n])"

subsection \<open>Lemmas: the codec\<close>

lemma split_nul_append:
  "split_nul cur (xs @ ys) =
     (let (fs, t) = split_nul cur xs; (gs, u) = split_nul t ys in (fs @ gs, u))"
  by (induction cur xs rule: split_nul.induct) (auto simp: Let_def split: prod.splits)

lemma split_nul_no_nul: "0 \<notin> set xs \<Longrightarrow> split_nul cur xs = ([], cur @ xs)"
  by (induction cur xs rule: split_nul.induct) auto

lemma tail_no_nul: "0 \<notin> set cur \<Longrightarrow> 0 \<notin> set (snd (split_nul cur xs))"
  by (induction cur xs rule: split_nul.induct) (auto simp: Let_def split: prod.splits)

text \<open>An open segment that is already too long stays visible in whatever follows.\<close>

lemma long_tail_bad:
  "length cur > mx \<Longrightarrow>
   \<not> (list_all (frame_ok from_slice mx) (fst (split_nul cur xs)) \<and> length (snd (split_nul cur xs)) \<le> mx)"
  by (induction cur xs rule: split_nul.induct) (auto simp: frame_ok_def Let_def split: prod.splits)

lemma scan_frames_ok:
  "list_all (frame_ok from_slice mx) (fst (split_nul cur bs)) \<Longrightarrow>
   scan_frames from_slice mx cur bs out =
     (None, snd (split_nul cur bs), out @ map (projr \<circ> from_slice) (fst (split_nul cur bs)))"
  by (induction from_slice mx cur bs out rule: scan_frames.induct)
    (auto simp: Let_def frame_ok_def split: prod.splits sum.splits)

lemma scan_frames_bad:
  "\<not> list_all (frame_ok from_slice mx) (fst (split_nul cur bs)) \<Longrightarrow>
   fst (scan_frames from_slice mx cur bs out) \<noteq> None"
  by (induction from_slice mx cur bs out rule: scan_frames.induct)
    (auto simp: Let_def frame_ok_def split: prod.splits sum.splits)

lemma split_nul_buffered: "0 \<notin> set buf \<Longrightarrow> split_nul [] (buf @ c) = split_nul buf c"
  by (simp add: split_nul_append split_nul_no_nul)

lemma feed_into_ok:
  assumes "0 \<notin> set (dec_buf d)" and "chunk_ok from_slice d c"
  shows "feed_into from_slice c out d =
    (None, d\<lparr> dec_buf := snd (split_nul (dec_buf d) c) \<rparr>,
     out @ map (projr \<circ> from_slice) (fst (split_nul (dec_buf d) c)))"
proof -
  have "0 \<notin> set c \<Longrightarrow> length (dec_buf d) + length c \<le> dec_max d"
    using assms(2) by (simp add: chunk_ok_def split_nul_no_nul)
  with assms show ?thesis
    by (auto simp: feed_into_def Let_def chunk_ok_def split_nul_buffered scan_frames_ok)
qed

lemma feed_into_bad:
  assumes "0 \<notin> set (dec_buf d)" and "\<not> chunk_ok from_slice d c"
  shows "fst (feed_into from_slice c out d) \<noteq> None"
proof (cases "list_all (frame_ok from_slice (dec_max d)) (fst (split_nul (dec_buf d) c))")
  case True
  with assms show ?thesis
    by (auto simp: feed_into_def Let_def chunk_ok_def split_nul_buffered scan_frames_ok)
next
  case False
  then have "fst (scan_frames from_slice (dec_max d) [] (dec_buf d @ c) out) \<noteq> None"
    using assms(1) by (intro scan_frames_bad) (simp add: split_nul_buffered)
  then show ?thesis by (auto simp: feed_into_def Let_def split: prod.splits option.splits)
qed

lemma feed_chunks_spec:
  assumes "0 \<notin> set (dec_buf d)" and "length (dec_buf d) \<le> dec_max d"
    and s: "split_nul (dec_buf d) (concat cs) = (fs, t)"
  shows "if list_all (frame_ok from_slice (dec_max d)) fs \<and> length t \<le> dec_max d
    then feed_chunks from_slice cs out d =
           (None, d\<lparr> dec_buf := t \<rparr>, out @ map (projr \<circ> from_slice) fs)
    else fst (feed_chunks from_slice cs out d) \<noteq> None"
  using assms
proof (induction cs arbitrary: d out fs t)
  case Nil
  then show ?case by auto
next
  case (Cons c cs)
  obtain gs u where g: "split_nul (dec_buf d) c = (gs, u)" by fastforce
  obtain hs v where h: "split_nul u (concat cs) = (hs, v)" by fastforce
  have fs: "fs = gs @ hs" and t: "t = v"
    using Cons.prems(3) g h by (auto simp: split_nul_append)
  have nn: "0 \<notin> set u" using tail_no_nul [OF Cons.prems(1), of c] g by simp
  show ?case
  proof (cases "chunk_ok from_slice d c")
    case True
    then have "list_all (frame_ok from_slice (dec_max d)) gs" and "length u \<le> dec_max d"
      by (auto simp: chunk_ok_def g)
    with Cons.IH [of "d\<lparr> dec_buf := u \<rparr>" hs v "out @ map (projr \<circ> from_slice) gs"] nn h True
      feed_into_ok [OF Cons.prems(1) True, of out]
    show ?thesis by (simp add: g fs t)
  next
    case False
    then have bad: "fst (feed_chunks from_slice (c # cs) out d) \<noteq> None"
      using feed_into_bad [OF Cons.prems(1) False, of out]
      by (auto split: prod.splits option.splits)
    have no: "\<not> (list_all (frame_ok from_slice (dec_max d)) fs \<and> length t \<le> dec_max d)"
    proof (cases "length u \<le> dec_max d")
      case True
      then show ?thesis using False by (auto simp: chunk_ok_def g fs)
    next
      case False
      then show ?thesis using long_tail_bad [of "dec_max d" u from_slice "concat cs"]
        by (auto simp: h fs t)
    qed
    show ?thesis unfolding if_not_P [OF no] by (rule bad)
  qed
qed

lemma split_nul_frame: "0 \<notin> set f \<Longrightarrow> f \<noteq> [] \<Longrightarrow> split_nul [] (f @ 0 # xs) = (f # fst (split_nul [] xs), snd (split_nul [] xs))"
  by (simp add: split_nul_append split_nul_no_nul split: prod.splits)

lemma split_nul_encoded:
  assumes "\<forall>v\<in>set vs. 0 \<notin> set (ser v) \<and> ser v \<noteq> []"
  shows "split_nul [] (concat (map (\<lambda>v. ser v @ [0]) vs)) = (map ser vs, [])"
  using assms by (induction vs) (simp_all add: split_nul_frame)

subsection \<open>Lemmas: retries\<close>

lemma retry_spec_step:
  assumes "retry_spec p send (Suc a) (Some e) sleeps' r"
    and "send (word_of_nat (Suc a)) = Inl e" "is_transient e"
    and "sleeps' = (if Suc a > 1 then sleeps @ [backoff_before p (word_of_nat (Suc a))] else sleeps)"
  shows "retry_spec p send a last_err sleeps r"
proof -
  define n where "n = unat (rr_attempts r)"
  define w where "w = (word_of_nat :: nat \<Rightarrow> u32)"
  note spec = retry_spec_def [of p send _ _ _ r, unfolded Let_def, folded n_def w_def]
  have n: "Suc a \<le> n" using assms(1) by (simp add: spec)
  have "[Suc a..<n] = (if Suc a < n then Suc a # [Suc (Suc a)..<n] else [])"
    by (simp add: upt_conv_Cons)
  moreover have "[max 2 (Suc a)..<Suc n] =
      (if Suc a > 1 then Suc a # [max 2 (Suc (Suc a))..<Suc n] else [max 2 (Suc (Suc a))..<Suc n])"
    using n by (auto simp: max_def upt_conv_Cons numeral_2_eq_2)
  moreover have "Suc a = n \<or> Suc a < n" using n by auto
  ultimately show ?thesis
    using assms [folded w_def] n unfolding spec retryable_def by auto
qed

lemma retry_loop_spec:
  assumes "attempt \<le> max_attempts p"
  shows "retry_spec p send (unat attempt) last_err sleeps (retry_loop p send attempt last_err sleeps)"
  using assms
proof (induction p send attempt last_err sleeps rule: retry_loop.induct)
  case (1 p send attempt last_err sleeps)
  show ?case
  proof (cases "attempt < max_attempts p")
    case False
    with 1 have "attempt = max_attempts p" by simp
    then show ?thesis by (simp add: retry_loop.simps [of p send] retry_spec_def Let_def)
  next
    case True
    then have u: "unat (attempt + 1) = Suc (unat attempt)" by (rule unat_Suc_less)
    from True have le: "attempt + 1 \<le> max_attempts p"
      by (simp add: word_le_nat_alt word_less_nat_alt u)
    have w: "word_of_nat (Suc (unat attempt)) = attempt + 1" by (simp add: add.commute)
    have g: "attempt + 1 > 1 \<longleftrightarrow> Suc (unat attempt) > 1" by (simp add: word_less_nat_alt u)
    let ?sl = "if Suc (unat attempt) > 1 then sleeps @ [backoff_before p (attempt + 1)] else sleeps"
    note unfold = retry_loop.simps [of p send attempt, unfolded Let_def, unfolded g]
    show ?thesis
    proof (cases "retryable (send (attempt + 1))")
      case False
      then show ?thesis using le u True w
        by (auto simp: unfold retry_spec_def Let_def retryable_def word_le_nat_alt max_def
            simp del: word_of_nat_eq_iff of_nat_Suc split: sum.splits)
    next
      case r: True
      then obtain e where e: "send (attempt + 1) = Inl e" "is_transient e"
        by (auto simp: retryable_def split: sum.splits)
      have "retry_spec p send (unat (attempt + 1)) (Some e) ?sl
          (retry_loop p send (attempt + 1) (Some e) ?sl)"
        using 1(1) [OF True refl refl e(1)] e(2) le g by simp
      then have "retry_spec p send (unat attempt) last_err sleeps
          (retry_loop p send (attempt + 1) (Some e) ?sl)"
        unfolding u by (rule retry_spec_step) (use e in \<open>simp_all add: add.commute\<close>)
      then show ?thesis using e True by (simp add: unfold)
    qed
  qed
qed

lemma backoff_formula:
  assumes "2 \<le> unat n" and "unat n < 34" and "max_backoff p \<le> DURATION_MAX"
  shows "backoff_before p n = min (initial_backoff p * 2 ^ (unat n - 2)) (max_backoff p)"
proof -
  let ?e = "unat n - 2" and ?m = "push_bit (unat n - 2) (1 :: u64)"
  have sub: "unat (sat_sub n 2) = ?e" by (simp add: unat_sat_sub)
  have e: "?e < 32" using assms(2) by simp
  then have m: "unat ?m = 2 ^ ?e" by (intro unat_push_bit_one) simp
  have pow: "(2::nat) ^ ?e < 2 ^ 32" using e by (intro power_strict_increasing) auto
  then have "unat (min ?m 0xFFFFFFFF) = 2 ^ ?e"
    unfolding unat_min m by simp
  then have u: "unat (ucast (min ?m 0xFFFFFFFF) :: u32) = 2 ^ ?e"
    using pow by (simp add: unat_ucast_small del: push_bit_of_1)
  have gt: "\<not> n \<le> 1" using assms(1) by (simp add: word_le_nat_alt)
  show ?thesis
    using gt e u assms(3)
    by (auto simp: backoff_before_def checked_shl_one_def sub duration_checked_mul_def Let_def
        simp del: push_bit_of_1)
qed

lemma backoff_le_max: "backoff_before p n \<le> max_backoff p"
  by (simp add: backoff_before_def from_millis_def Let_def)

subsection \<open>Properties\<close>

text \<open>
  C4. The decoder is independent of how the pipe cuts the stream into chunks. Fed with any chunks,
  it succeeds exactly when every non-empty NUL-terminated segment of the whole stream is within
  the cap and parses, and the open segment at the end is within the cap. When it succeeds, it has
  delivered the parsed segments in order and buffers exactly the open segment; otherwise it
  reports an error.
\<close>
theorem decoder_chunking:
  "(if stream_ok from_slice mx (concat chunks)
    then feed_chunks from_slice chunks [] (decoder_new mx) =
           (None, \<lparr> dec_buf = snd (split_nul [] (concat chunks)), dec_max = mx \<rparr>,
            map (projr \<circ> from_slice) (fst (split_nul [] (concat chunks))))
    else fst (feed_chunks from_slice chunks [] (decoder_new mx)) \<noteq> None)"
  using feed_chunks_spec [of "decoder_new mx" chunks "fst (split_nul [] (concat chunks))"
      "snd (split_nul [] (concat chunks))" from_slice "[]"]
  by (auto simp: decoder_new_def stream_ok_def split: if_splits)

text \<open>
  C5. Round trip of the pipe codec. If the printer's output of every value parses back to the value,
  is not empty, has no NUL byte and fits the cap, then any chunking of the concatenated frames is
  decoded to exactly the values that were sent, and the stream ends cleanly.
\<close>
theorem frame_roundtrip:
  assumes "\<forall>v\<in>set vs. to_vec v = Inr (ser v) \<and> from_slice (ser v) = Inr v \<and> 0 \<notin> set (ser v)
             \<and> ser v \<noteq> [] \<and> length (ser v) \<le> mx"
    and "concat chunks = concat (map (\<lambda>v. projr (encode_frame to_vec v)) vs)"
  shows "\<exists>d. feed_chunks from_slice chunks [] (decoder_new mx) = (None, d, vs) \<and> finish d = Inr ()"
proof -
  have "concat chunks = concat (map (\<lambda>v. ser v @ [0]) vs)"
    unfolding assms(2) using assms(1) by (auto simp: encode_frame_def intro!: arg_cong [of _ _ concat])
  then have s: "split_nul [] (concat chunks) = (map ser vs, [])"
    using split_nul_encoded [of vs ser] assms(1) by simp
  have "list_all (frame_ok from_slice mx) (map ser vs)"
    using assms(1) by (auto simp: list_all_iff frame_ok_def)
  moreover have "map (projr \<circ> from_slice) (map ser vs) = vs"
    using assms(1) by (auto intro!: map_idI)
  ultimately show ?thesis
    using feed_chunks_spec [of "decoder_new mx" chunks "map ser vs" "[]" from_slice "[]"] s
    by (simp add: decoder_new_def finish_def)
qed

theorem frame_roundtrip_witness:
  "let to_vec = (\<lambda>v. if v = JNull then Inr [110] else if v = JBool True then Inr [116, 33] else Inl []);
       from_slice = (\<lambda>b. if b = [110] then Inr JNull else if b = [116, 33] then Inr (JBool True) else Inl [])
   in \<exists>d. feed_chunks from_slice [[110], [0, 116], [], [33, 0, 110, 0]] [] (decoder_new 2) =
            (None, d, [JNull, JBool True, JNull]) \<and> finish d = Inr ()"
  unfolding Let_def
  by (rule frame_roundtrip [where ser = "\<lambda>v. if v = JNull then [110] else [116, 33]"
        and to_vec = "\<lambda>v. if v = JNull then Inr [110] else if v = JBool True then Inr [116, 33] else Inl []"])
    (simp_all add: encode_frame_def)



end
