(* ===== verification/Cdp_Session.thy ===== *)
theory Cdp_Session
  imports Cdp_Framing
begin

text \<open>
  Crate \<^verbatim>\<open>cdp-client\<close>: sessions, in-flight commands and the demultiplexer (\<^verbatim>\<open>session.rs\<close>,
  \<^verbatim>\<open>connection.rs\<close>). A \<^verbatim>\<open>CdpSession\<close> is a reference to shared data, so sessions live in a heap and
  are named by their position in it; the registry maps a session id to such a position. A call is
  named by its position in the list of calls, and the sender stored in \<^verbatim>\<open>pending\<close> is that position.
  One operation of the machine is what a task does between two suspension points.
\<close>

subsection \<open>State\<close>

text \<open>
  A call waits for its reply, or its sender was dropped and its task has not run since, or the
  caller dropped the future, or it returned.
\<close>

datatype call_state =
    Waiting u64
  | Orphaned u64
  | Cancelled u64
  | Answered "cdp_error + json"

record cdp_session =
  cs_id :: string
  cs_next_id :: u64
  cs_metrics :: "nat option"

record conn_state =
  sess_heap :: "cdp_session list"
  registry :: "(string \<times> nat) list"
  pending :: "(u64 \<times> nat) list"
  conn_metrics :: "nat option"
  writer_open :: bool
  outbox :: "json list"
  calls :: "call_state list"
  events :: "(nat \<times> json) list"

definition session_root :: string where
  "session_root = ''''"

definition session_new :: "string \<Rightarrow> cdp_session" where
  "session_new sid = \<lparr> cs_id = sid, cs_next_id = 1, cs_metrics = None \<rparr>"

definition conn_new :: conn_state where
  "conn_new =
     \<lparr> sess_heap = [session_new session_root], registry = [(session_root, 0)], pending = [],
       conn_metrics = None, writer_open = True, outbox = [], calls = [], events = [] \<rparr>"

subsection \<open>Sessions\<close>

definition session_for :: "string \<Rightarrow> conn_state \<Rightarrow> nat \<times> conn_state" where
  "session_for sid c =
     (case map_of (registry c) sid of
        Some h \<Rightarrow> (h, c)
      | None \<Rightarrow>
          (let h = length (sess_heap c); s = session_new sid;
               s = (case conn_metrics c of None \<Rightarrow> s | Some k \<Rightarrow> s\<lparr> cs_metrics := Some k \<rparr>)
           in (h, c\<lparr> sess_heap := sess_heap c @ [s], registry := AList.update sid h (registry c) \<rparr>)))"

definition drop_session :: "string \<Rightarrow> conn_state \<Rightarrow> conn_state" where
  "drop_session sid c = c\<lparr> registry := AList.delete sid (registry c) \<rparr>"

definition set_metrics_sink :: "nat option \<Rightarrow> conn_state \<Rightarrow> conn_state" where
  "set_metrics_sink k c =
     c\<lparr> conn_metrics := k,
        sess_heap := fold (\<lambda>h ss. ss[h := (ss ! h)\<lparr> cs_metrics := k \<rparr>]) (map snd (registry c)) (sess_heap c) \<rparr>"

subsection \<open>In-flight commands\<close>

text \<open>Dropping a sender wakes its receiver with an error; a receiver that is gone does not notice.\<close>

definition drop_sender :: "nat \<Rightarrow> conn_state \<Rightarrow> conn_state" where
  "drop_sender t c =
     (case calls c ! t of Waiting i \<Rightarrow> c\<lparr> calls := (calls c)[t := Orphaned i] \<rparr> | _ \<Rightarrow> c)"

definition send_reply :: "nat \<Rightarrow> cdp_error + json \<Rightarrow> conn_state \<Rightarrow> conn_state" where
  "send_reply t r c =
     (case calls c ! t of Waiting i \<Rightarrow> c\<lparr> calls := (calls c)[t := Answered r] \<rparr> | _ \<Rightarrow> c)"

text \<open>\<^verbatim>\<open>pending.remove(&id)\<close> with the removed sender dropped.\<close>

definition pending_remove :: "u64 \<Rightarrow> conn_state \<Rightarrow> conn_state" where
  "pending_remove i c =
     (case map_of (pending c) i of
        None \<Rightarrow> c
      | Some t \<Rightarrow> drop_sender t (c\<lparr> pending := AList.delete i (pending c) \<rparr>))"

text \<open>\<^verbatim>\<open>pending.insert(id, tx)\<close>: a sender that was stored under the same id is dropped.\<close>

definition pending_insert :: "u64 \<Rightarrow> nat \<Rightarrow> conn_state \<Rightarrow> conn_state" where
  "pending_insert i t c =
     (let c' = (case map_of (pending c) i of None \<Rightarrow> c | Some t' \<Rightarrow> drop_sender t' c)
      in c'\<lparr> pending := AList.update i t (pending c') \<rparr>)"

definition request_frame :: "string \<Rightarrow> u64 \<Rightarrow> string \<Rightarrow> json \<Rightarrow> json" where
  "request_frame sid i method params =
     JObject ([(''id'', JPos i), (''method'', JString method), (''params'', params)]
              @ (if sid = session_root then [] else [(''sessionId'', JString sid)]))"

text \<open>\<^verbatim>\<open>send_inner_value\<close> up to the point where it waits for the reply.\<close>

definition call_start :: "nat \<Rightarrow> string \<Rightarrow> json \<Rightarrow> conn_state \<Rightarrow> conn_state" where
  "call_start h method params c =
     (let s = sess_heap c ! h; i = cs_next_id s; t = length (calls c);
          c = c\<lparr> sess_heap := (sess_heap c)[h := s\<lparr> cs_next_id := i + 1 \<rparr>],
                 calls := calls c @ [Waiting i] \<rparr>;
          c = pending_insert i t c
      in if writer_open c then c\<lparr> outbox := outbox c @ [request_frame (cs_id s) i method params] \<rparr>
         else
           let c = pending_remove i c
           in c\<lparr> calls := (calls c)[t := Answered (Inl ConnectionClosed)] \<rparr>)"

text \<open>The task of a call whose sender was dropped runs: it removes its id and fails.\<close>

definition call_wake :: "nat \<Rightarrow> conn_state \<Rightarrow> conn_state" where
  "call_wake t c =
     (case calls c ! t of
        Orphaned i \<Rightarrow>
          (let c = pending_remove i c in c\<lparr> calls := (calls c)[t := Answered (Inl ConnectionClosed)] \<rparr>)
      | _ \<Rightarrow> c)"

text \<open>The deadline of a call passes before its task sees a reply.\<close>

definition call_timeout :: "nat \<Rightarrow> conn_state \<Rightarrow> conn_state" where
  "call_timeout t c =
     (case calls c ! t of
        Waiting i \<Rightarrow>
          (let c = pending_remove i c in c\<lparr> calls := (calls c)[t := Answered (Inl Timeout)] \<rparr>)
      | _ \<Rightarrow> c)"

text \<open>The caller drops the future.\<close>

definition call_cancel :: "nat \<Rightarrow> conn_state \<Rightarrow> conn_state" where
  "call_cancel t c =
     (case calls c ! t of
        Waiting i \<Rightarrow> c\<lparr> calls := (calls c)[t := Cancelled i] \<rparr>
      | Orphaned i \<Rightarrow> c\<lparr> calls := (calls c)[t := Cancelled i] \<rparr>
      | _ \<Rightarrow> c)"

subsection \<open>Dispatch of an inbound frame\<close>

definition frame_session :: "json \<Rightarrow> string" where
  "frame_session frame = (case get_str ''sessionId'' frame of None \<Rightarrow> session_root | Some s \<Rightarrow> s)"

definition reply_result :: "json \<Rightarrow> cdp_error + json" where
  "reply_result frame =
     (case jget ''error'' frame of
        Some err \<Rightarrow>
          Inl (ProtocolError
                 (case Option.bind (jget ''code'' err) as_i64 of None \<Rightarrow> - 32603 | Some k \<Rightarrow> k)
                 (case get_str ''message'' err of None \<Rightarrow> ''unknown error'' | Some m \<Rightarrow> m)
                 (jget ''data'' err))
      | None \<Rightarrow> Inr (case jget ''result'' frame of None \<Rightarrow> JNull | Some v \<Rightarrow> v))"

text \<open>\<open>typed\<close> decides whether the generated event enum models the frame.\<close>

definition dispatch :: "(json \<Rightarrow> bool) \<Rightarrow> json \<Rightarrow> conn_state \<Rightarrow> conn_state" where
  "dispatch typed frame c =
     (case jget ''id'' frame of
        Some id_v \<Rightarrow>
          (case as_u64 id_v of
             None \<Rightarrow> c
           | Some i \<Rightarrow>
               (case map_of (pending c) i of
                  None \<Rightarrow> c
                | Some t \<Rightarrow>
                    send_reply t (reply_result frame)
                      (c\<lparr> pending := AList.delete i (pending c) \<rparr>)))
      | None \<Rightarrow>
          (case jget ''method'' frame of
             None \<Rightarrow> c
           | Some method_v \<Rightarrow>
               (let (h, c) = session_for (frame_session frame) c
                in if typed frame then c\<lparr> events := events c @ [(h, frame)] \<rparr> else c)))"

text \<open>The reader's exit: take one entry after the other and fail it.\<close>

function drain :: "conn_state \<Rightarrow> conn_state" where
  "drain c =
     (case pending c of
        [] \<Rightarrow> c
      | (k, t) # ps \<Rightarrow>
          drain (send_reply t (Inl ConnectionClosed) (c\<lparr> pending := AList.delete k (pending c) \<rparr>)))"
  by pat_completeness auto

lemma send_reply_frame [simp]:
  "pending (send_reply t r c) = pending c"
  "sess_heap (send_reply t r c) = sess_heap c"
  "registry (send_reply t r c) = registry c"
  "writer_open (send_reply t r c) = writer_open c"
  "length (calls (send_reply t r c)) = length (calls c)"
  by (simp_all add: send_reply_def split: call_state.split)

termination drain
  by (relation "measure (\<lambda>c. length (pending c))") (auto simp: le_imp_less_Suc length_delete_le)

declare drain.simps [simp del]

subsection \<open>The machine\<close>

datatype cdp_op =
    CallStart nat string json
  | Frame json
  | Wake nat
  | Deadline nat
  | Cancel nat
  | Attach string
  | Detach string
  | SetSink "nat option"
  | WriterClosed
  | Drain

text \<open>An operation on a call or session that does not exist is not a step of the program.\<close>

definition cdp_step :: "(json \<Rightarrow> bool) \<Rightarrow> cdp_op \<Rightarrow> conn_state \<Rightarrow> conn_state" where
  "cdp_step typed op c =
     (case op of
        CallStart h m p \<Rightarrow> (if h < length (sess_heap c) then call_start h m p c else c)
      | Frame f \<Rightarrow> dispatch typed f c
      | Wake t \<Rightarrow> (if t < length (calls c) then call_wake t c else c)
      | Deadline t \<Rightarrow> (if t < length (calls c) then call_timeout t c else c)
      | Cancel t \<Rightarrow> (if t < length (calls c) then call_cancel t c else c)
      | Attach sid \<Rightarrow> snd (session_for sid c)
      | Detach sid \<Rightarrow> drop_session sid c
      | SetSink k \<Rightarrow> set_metrics_sink k c
      | WriterClosed \<Rightarrow> c\<lparr> writer_open := False \<rparr>
      | Drain \<Rightarrow> drain c)"

definition cdp_run :: "(json \<Rightarrow> bool) \<Rightarrow> cdp_op list \<Rightarrow> conn_state" where
  "cdp_run typed ops = fold (cdp_step typed) ops conn_new"

text \<open>
  The invariant: the senders in \<^verbatim>\<open>pending\<close> are exactly those of the calls that still wait, besides
  those of cancelled calls, and the registry points into the heap.
\<close>

definition pending_inv :: "(u64 \<times> nat) list \<Rightarrow> call_state list \<Rightarrow> bool" where
  "pending_inv ps cs \<longleftrightarrow>
     distinct (map fst ps) \<and>
     (\<forall>i t. map_of ps i = Some t \<longrightarrow> t < length cs \<and> (cs ! t = Waiting i \<or> cs ! t = Cancelled i)) \<and>
     (\<forall>i t. t < length cs \<longrightarrow> cs ! t = Waiting i \<longrightarrow> map_of ps i = Some t)"

definition registry_inv :: "conn_state \<Rightarrow> bool" where
  "registry_inv c \<longleftrightarrow>
     distinct (map fst (registry c)) \<and>
     (\<forall>sid h. map_of (registry c) sid = Some h \<longrightarrow> h < length (sess_heap c))"

definition cdp_inv :: "conn_state \<Rightarrow> bool" where
  "cdp_inv c \<longleftrightarrow> pending_inv (pending c) (calls c) \<and> registry_inv c"

text \<open>
  All calls so far came from the session at \<open>h\<close>: they used the ids \<open>1, 2, \<dots>\<close> in order and none lost
  its sender.
\<close>

definition solo :: "nat \<Rightarrow> conn_state \<Rightarrow> bool" where
  "solo h c \<longleftrightarrow>
     h < length (sess_heap c) \<and> cs_next_id (sess_heap c ! h) = word_of_nat (Suc (length (calls c))) \<and>
     (\<forall>t < length (calls c).
        (\<exists>r. calls c ! t = Answered r) \<or> calls c ! t = Waiting (word_of_nat (Suc t)) \<or>
        calls c ! t = Cancelled (word_of_nat (Suc t)))"

definition solo_op :: "nat \<Rightarrow> cdp_op \<Rightarrow> bool" where
  "solo_op h op \<longleftrightarrow> (case op of CallStart h' m p \<Rightarrow> h' = h | _ \<Rightarrow> True)"

subsection \<open>Lemmas: the invariant\<close>

lemma pending_inv_Nil: "pending_inv [] []"
  by (simp add: pending_inv_def)

lemma pending_inv_sender:
  "pending_inv ps cs \<Longrightarrow> map_of ps i = Some t \<Longrightarrow>
     t < length cs \<and> (cs ! t = Waiting i \<or> cs ! t = Cancelled i)"
  unfolding pending_inv_def by blast

lemma pending_inv_waiting:
  "pending_inv ps cs \<Longrightarrow> t < length cs \<Longrightarrow> cs ! t = Waiting i \<Longrightarrow> map_of ps i = Some t"
  unfolding pending_inv_def by blast

lemma pending_inv_unique:
  assumes "pending_inv ps cs" "map_of ps i = Some t" "map_of ps j = Some t"
  shows "i = j"
  using pending_inv_sender [OF assms(1,2)] pending_inv_sender [OF assms(1,3)] by auto

text \<open>The entry of \<open>i\<close> goes away and its call, if it waited, stops waiting.\<close>

lemma pending_inv_delete:
  assumes inv: "pending_inv ps cs" and m: "map_of ps i = Some t"
    and x: "\<And>j. x \<noteq> Waiting j"
    and cs': "cs' = cs[t := x] \<or> cs' = cs \<and> cs ! t = Cancelled i"
  shows "pending_inv (AList.delete i ps) cs'"
proof -
  have t: "t < length cs" "cs ! t = Waiting i \<or> cs ! t = Cancelled i"
    using inv m by (auto simp: pending_inv_def)
  have other: "t' \<noteq> t" if "map_of ps j = Some t'" "j \<noteq> i" for j t'
    using pending_inv_unique [OF inv m, of j] that by auto
  show ?thesis
    unfolding pending_inv_def
  proof (intro conjI allI impI)
    show "distinct (map fst (AList.delete i ps))"
      using inv by (simp add: pending_inv_def distinct_delete)
  next
    fix j t' assume "map_of (AList.delete i ps) j = Some t'"
    then have j: "map_of ps j = Some t'" "j \<noteq> i" by (auto simp: delete_conv' split: if_splits)
    then show "t' < length cs'" using inv cs' by (auto simp: pending_inv_def)
    show "cs' ! t' = Waiting j \<or> cs' ! t' = Cancelled j"
      using pending_inv_sender [OF inv j(1)] cs' other [OF j] by auto
  next
    fix j t' assume "t' < length cs'" "cs' ! t' = Waiting j"
    then have w: "t' < length cs" "cs ! t' = Waiting j" "t' \<noteq> t"
      using cs' x [of j] t by (auto simp: nth_list_update split: if_splits)
    then have "map_of ps j = Some t'" using inv by (simp add: pending_inv_def)
    moreover have "j \<noteq> i" using calculation w(3) m by auto
    ultimately show "map_of (AList.delete i ps) j = Some t'" by (simp add: delete_conv')
  qed
qed

lemma pending_inv_settle:
  assumes "pending_inv ps cs" "t < length cs" "\<And>i. cs ! t \<noteq> Waiting i" "\<And>i. cs ! t \<noteq> Cancelled i"
    and "\<And>i. x \<noteq> Waiting i"
  shows "pending_inv ps (cs[t := x])"
  using assms unfolding pending_inv_def by (metis length_list_update nth_list_update nth_list_update_neq)

lemma pending_inv_cancel:
  assumes "pending_inv ps cs" "t < length cs" "cs ! t = Waiting i"
  shows "pending_inv ps (cs[t := Cancelled i])"
proof -
  have "map_of ps i = Some t" using assms by (simp add: pending_inv_def)
  then have "j = i" if "map_of ps j = Some t" for j
    using assms that unfolding pending_inv_def by (metis call_state.inject(1) call_state.distinct(3))
  with assms show ?thesis
    unfolding pending_inv_def
    by (metis call_state.distinct(3) length_list_update nth_list_update nth_list_update_neq)
qed

lemma pending_inv_new:
  assumes "pending_inv ps cs" "map_of ps i = None"
  shows "pending_inv (AList.update i (length cs) ps) (cs @ [Waiting i])"
proof -
  have "cs ! t \<noteq> Waiting i" if "t < length cs" for t
    using assms that by (auto simp: pending_inv_def)
  with assms show ?thesis
    by (auto simp: pending_inv_def distinct_update update_conv' nth_append less_Suc_eq)
qed

lemma pending_inv_pending_remove:
  assumes "pending_inv (pending c) (calls c)"
  shows "pending_inv (pending (pending_remove i c)) (calls (pending_remove i c))"
proof (cases "map_of (pending c) i")
  case None
  then show ?thesis using assms by (simp add: pending_remove_def)
next
  case (Some t)
  then have "calls c ! t = Waiting i \<or> calls c ! t = Cancelled i"
    using assms by (auto simp: pending_inv_def)
  then show ?thesis
    using pending_inv_delete [OF assms Some, of "Orphaned i"]
    by (auto simp: pending_remove_def Some drop_sender_def)
qed

lemma pending_remove_simps [simp]:
  "length (calls (pending_remove i c)) = length (calls c)"
  "sess_heap (pending_remove i c) = sess_heap c"
  "registry (pending_remove i c) = registry c"
  "map_of (pending (pending_remove i c)) = (map_of (pending c))(i := None)"
  by (auto simp: pending_remove_def drop_sender_def delete_conv' split: option.split call_state.split)

lemma pending_remove_not_waiting:
  assumes inv: "pending_inv (pending c) (calls c)" and t: "t < length (calls c)"
    and "calls c ! t = Waiting i \<or> calls c ! t = Orphaned i"
  shows "calls (pending_remove i c) ! t \<noteq> Waiting j \<and> calls (pending_remove i c) ! t \<noteq> Cancelled j"
  using assms(3)
proof
  assume w: "calls c ! t = Waiting i"
  then have "map_of (pending c) i = Some t" by (rule pending_inv_waiting [OF inv t])
  with w t show ?thesis by (simp add: pending_remove_def drop_sender_def)
next
  assume o: "calls c ! t = Orphaned i"
  show ?thesis
  proof (cases "map_of (pending c) i")
    case None
    then show ?thesis by (simp add: pending_remove_def o)
  next
    case (Some t')
    then have "t' \<noteq> t" using pending_inv_sender [OF inv Some] o by auto
    then show ?thesis by (simp add: pending_remove_def Some drop_sender_def o split: call_state.split)
  qed
qed

lemma pending_inv_reply:
  assumes "pending_inv (pending c) (calls c)" "map_of (pending c) i = Some t"
  shows "pending_inv (AList.delete i (pending c))
    (calls (send_reply t r (c\<lparr> pending := AList.delete i (pending c) \<rparr>)))"
proof -
  have "calls c ! t = Waiting i \<or> calls c ! t = Cancelled i"
    using assms by (auto simp: pending_inv_def)
  then show ?thesis
    using pending_inv_delete [OF assms, of "Answered r"] by (auto simp: send_reply_def)
qed

lemma pending_insert_eq:
  assumes "map_of (pending c) i = Some t'" "t' < length (calls c)"
  shows "pending_insert i t (c\<lparr> calls := calls c @ [x] \<rparr>) =
    (pending_remove i c)\<lparr> calls := calls (pending_remove i c) @ [x],
       pending := AList.update i t (pending c) \<rparr>"
  using assms
  by (simp add: pending_insert_def pending_remove_def drop_sender_def nth_append list_update_append1
      split: call_state.split)

lemma map_of_update_delete: "map_of (AList.update i t (AList.delete i ps)) = map_of (AList.update i t ps)"
  by (simp add: update_conv' delete_conv')

lemma pending_inv_cong:
  "map_of ps = map_of ps' \<Longrightarrow> distinct (map fst ps') \<Longrightarrow> pending_inv ps cs \<Longrightarrow> pending_inv ps' cs"
  by (simp add: pending_inv_def)

lemma pending_inv_insert:
  assumes inv: "pending_inv (pending c) (calls c)"
  shows "pending_inv (pending (pending_insert i (length (calls c)) (c\<lparr> calls := calls c @ [Waiting i] \<rparr>)))
    (calls (pending_insert i (length (calls c)) (c\<lparr> calls := calls c @ [Waiting i] \<rparr>)))"
proof (cases "map_of (pending c) i")
  case None
  then show ?thesis using pending_inv_new [OF inv None] by (simp add: pending_insert_def)
next
  case (Some t')
  have "map_of (pending (pending_remove i c)) i = None" by simp
  from pending_inv_new [OF pending_inv_pending_remove [OF inv] this]
  have "pending_inv (AList.update i (length (calls c)) (pending (pending_remove i c)))
      (calls (pending_remove i c) @ [Waiting i])" by simp
  moreover have "map_of (AList.update i (length (calls c)) (pending (pending_remove i c))) =
      map_of (AList.update i (length (calls c)) (pending c))"
    by (simp add: update_conv')
  moreover have "distinct (map fst (AList.update i (length (calls c)) (pending c)))"
    using inv by (simp add: pending_inv_def distinct_update)
  ultimately show ?thesis
    using pending_inv_sender [OF inv Some] pending_inv_cong
    by (simp add: pending_insert_eq [OF Some])
qed

lemma pending_insert_simps [simp]:
  "sess_heap (pending_insert i t c) = sess_heap c"
  "registry (pending_insert i t c) = registry c"
  "writer_open (pending_insert i t c) = writer_open c"
  "length (calls (pending_insert i t c)) = length (calls c)"
  by (auto simp: pending_insert_def drop_sender_def Let_def split: option.split call_state.split)

lemma settle_after_remove:
  assumes "pending_inv (pending c) (calls c)" "t < length (calls c)"
    and "calls c ! t = Waiting i \<or> calls c ! t = Orphaned i"
  shows "pending_inv (pending (pending_remove i c)) ((calls (pending_remove i c))[t := Answered r])"
  using pending_remove_not_waiting [OF assms]
  by (intro pending_inv_settle pending_inv_pending_remove assms(1)) (simp_all add: assms(2))

text \<open>The state in which a started call looks at the writer.\<close>

lemma call_start_split:
  assumes inv: "pending_inv (pending c) (calls c)"
    and i_def: "i = cs_next_id (sess_heap c ! h)"
  obtains c2 where
    "pending_inv (pending c2) (calls c2)"
    "calls c2 = calls (pending_remove i c) @ [Waiting i]"
    "sess_heap c2 = (sess_heap c)[h := (sess_heap c ! h)\<lparr> cs_next_id := i + 1 \<rparr>]"
    "registry c2 = registry c" "writer_open c2 = writer_open c"
    "call_start h m p c =
      (if writer_open c
       then c2\<lparr> outbox := outbox c2 @ [request_frame (cs_id (sess_heap c ! h)) i m p] \<rparr>
       else (pending_remove i c2)\<lparr> calls := (calls (pending_remove i c2))
              [length (calls c) := Answered (Inl ConnectionClosed)] \<rparr>)"
proof -
  define c1 where "c1 = c\<lparr> sess_heap := (sess_heap c)[h := (sess_heap c ! h)\<lparr> cs_next_id := i + 1 \<rparr>] \<rparr>"
  define c2 where "c2 = pending_insert i (length (calls c)) (c1\<lparr> calls := calls c @ [Waiting i] \<rparr>)"
  have "pending_inv (pending c2) (calls c2)"
    using pending_inv_insert [of c1 i] inv by (simp add: c1_def c2_def)
  moreover have "calls c2 = calls (pending_remove i c) @ [Waiting i]"
  proof (cases "map_of (pending c) i")
    case None
    then show ?thesis by (simp add: c2_def c1_def pending_insert_def pending_remove_def)
  next
    case (Some t)
    then have "t < length (calls c)" using pending_inv_sender [OF inv Some] by simp
    then have "calls c2 = calls (pending_remove i c1) @ [Waiting i]"
      using pending_insert_eq [of c1 i t "length (calls c)" "Waiting i"] Some
      by (simp add: c2_def c1_def)
    then show ?thesis
      by (simp add: c1_def pending_remove_def Some drop_sender_def split: call_state.splits)
  qed
  moreover have "call_start h m p c =
    (if writer_open c
     then c2\<lparr> outbox := outbox c2 @ [request_frame (cs_id (sess_heap c ! h)) i m p] \<rparr>
     else (pending_remove i c2)\<lparr> calls := (calls (pending_remove i c2))
            [length (calls c) := Answered (Inl ConnectionClosed)] \<rparr>)"
    by (simp add: call_start_def Let_def c2_def c1_def i_def)
  ultimately show ?thesis using that [of c2] by (simp add: c2_def c1_def)
qed

lemma pending_inv_call_start:
  assumes "pending_inv (pending c) (calls c)"
  shows "pending_inv (pending (call_start h m p c)) (calls (call_start h m p c))"
proof -
  define i where "i = cs_next_id (sess_heap c ! h)"
  obtain c2 where c2: "pending_inv (pending c2) (calls c2)"
    "calls c2 = calls (pending_remove i c) @ [Waiting i]"
    "call_start h m p c =
      (if writer_open c
       then c2\<lparr> outbox := outbox c2 @ [request_frame (cs_id (sess_heap c ! h)) i m p] \<rparr>
       else (pending_remove i c2)\<lparr> calls := (calls (pending_remove i c2))
              [length (calls c) := Answered (Inl ConnectionClosed)] \<rparr>)"
    using call_start_split [OF assms i_def, of m p] by metis
  show ?thesis
    using c2(1,3) settle_after_remove [OF c2(1), of "length (calls c)" i]
    by (simp add: c2(2) nth_append)
qed

lemma drain_preserves:
  assumes step: "\<And>c k t. map_of (pending c) k = Some t \<Longrightarrow> P c \<Longrightarrow>
      P (send_reply t (Inl ConnectionClosed) (c\<lparr> pending := AList.delete k (pending c) \<rparr>))"
    and "P c"
  shows "P (drain c) \<and> pending (drain c) = []"
  using assms(2)
proof (induction c rule: drain.induct)
  case (1 c)
  show ?case
  proof (cases "pending c")
    case Nil
    with 1(2) show ?thesis by (simp add: drain.simps [of c])
  next
    case (Cons kt ps)
    then obtain k t where kt: "kt = (k, t)" by fastforce
    have m: "map_of (pending c) k = Some t" by (simp add: Cons kt)
    from 1(1) [OF Cons kt [symmetric] step [OF m 1(2)]] show ?thesis
      by (simp add: drain.simps [of c] Cons kt)
  qed
qed

lemma drain_spec:
  assumes "pending_inv (pending c) (calls c)"
  shows "pending (drain c) = [] \<and> pending_inv [] (calls (drain c))"
  using drain_preserves [of "\<lambda>c. pending_inv (pending c) (calls c)" c] assms
  by (auto simp: pending_inv_reply)

lemma session_for_calls [simp]:
  "pending (snd (session_for sid c)) = pending c" "calls (snd (session_for sid c)) = calls c"
  by (auto simp: session_for_def Let_def split: option.split)

lemma registry_inv_session_for: "registry_inv c \<Longrightarrow> registry_inv (snd (session_for sid c))"
  by (auto simp: registry_inv_def session_for_def Let_def distinct_update less_Suc_eq
      dest!: set_alist_update split: option.split)

lemma set_metrics_length [simp]: "length (sess_heap (set_metrics_sink k c)) = length (sess_heap c)"
proof -
  have "length (fold (\<lambda>h ss. ss[h := (ss ! h)\<lparr> cs_metrics := k \<rparr>]) hs ss) = length ss" for hs ss
    by (induction hs arbitrary: ss) simp_all
  then show ?thesis by (simp add: set_metrics_sink_def)
qed

lemma set_metrics_calls: "calls (set_metrics_sink k c) = calls c"
  by (simp add: set_metrics_sink_def)

lemma set_metrics_registry [simp]: "registry (set_metrics_sink k c) = registry c"
  by (simp add: set_metrics_sink_def)

lemma call_start_simps [simp]:
  "length (sess_heap (call_start h m p c)) = length (sess_heap c)"
  "registry (call_start h m p c) = registry c"
  by (simp_all add: call_start_def Let_def)

lemma registry_inv_step: "registry_inv c \<Longrightarrow> registry_inv (cdp_step typed op c)"
proof (cases op)
  case (Frame f)
  assume "registry_inv c"
  then have "registry_inv (snd (session_for (frame_session f) c))" by (rule registry_inv_session_for)
  then show ?thesis
    using \<open>registry_inv c\<close>
    by (auto simp: cdp_step_def Frame dispatch_def registry_inv_def split: option.split prod.split)
next
  case (Attach sid)
  assume "registry_inv c"
  then show ?thesis by (simp add: cdp_step_def Attach registry_inv_session_for)
next
  case (Detach sid)
  assume "registry_inv c"
  then show ?thesis
    by (auto simp: cdp_step_def Detach drop_session_def registry_inv_def distinct_delete delete_conv'
        split: if_splits)
next
  case Drain
  have "registry_inv c \<Longrightarrow> registry_inv (drain c)"
    using drain_preserves [of registry_inv c] by (auto simp: registry_inv_def)
  moreover assume "registry_inv c"
  ultimately show ?thesis by (simp add: cdp_step_def Drain)
qed (auto simp: cdp_step_def registry_inv_def call_wake_def call_timeout_def call_cancel_def Let_def
      split: call_state.split)

lemma cdp_inv_step:
  assumes "cdp_inv c"
  shows "cdp_inv (cdp_step typed op c)"
proof -
  have p: "pending_inv (pending c) (calls c)" using assms by (simp add: cdp_inv_def)
  have "pending_inv (pending (cdp_step typed op c)) (calls (cdp_step typed op c))"
  proof (cases op)
    case (CallStart h m q)
    then show ?thesis using p pending_inv_call_start [OF p] by (simp add: cdp_step_def)
  next
    case (Frame f)
    then show ?thesis using p pending_inv_reply [OF p] session_for_calls [of "frame_session f" c]
      by (auto simp: cdp_step_def dispatch_def split_beta split: option.split)
  next
    case (Wake t)
    then show ?thesis using p settle_after_remove [OF p, of t]
      by (auto simp: cdp_step_def call_wake_def Let_def split: call_state.split)
  next
    case (Deadline t)
    then show ?thesis using p settle_after_remove [OF p, of t]
      by (auto simp: cdp_step_def call_timeout_def Let_def split: call_state.split)
  next
    case (Cancel t)
    then show ?thesis using p pending_inv_cancel [OF p, of t] pending_inv_settle [OF p, of t]
      by (auto simp: cdp_step_def call_cancel_def split: call_state.split)
  next
    case Drain
    then show ?thesis using drain_spec [OF p] by (simp add: cdp_step_def)
  qed (use p in \<open>auto simp: cdp_step_def drop_session_def set_metrics_sink_def\<close>)
  then show ?thesis using registry_inv_step assms by (simp add: cdp_inv_def)
qed

interpretation cdp_machine: invariant_machine "cdp_step typed" cdp_inv
  by unfold_locales (rule cdp_inv_step)

lemma cdp_inv_new: "cdp_inv conn_new"
  by (simp add: cdp_inv_def conn_new_def pending_inv_Nil registry_inv_def)

lemma cdp_inv_run: "cdp_inv (cdp_run typed ops)"
  unfolding cdp_run_def by (rule cdp_machine.run_inv [OF cdp_inv_new])

subsection \<open>Lemmas: one caller\<close>

lemma solo_call_start:
  assumes "solo h c" "cdp_inv c" "length (calls c) < 2 ^ 64 - 1"
  shows "solo h (call_start h m p c)"
proof -
  let ?n = "length (calls c)"
  define i where "i = cs_next_id (sess_heap c ! h)"
  have p: "pending_inv (pending c) (calls c)" using assms(2) by (simp add: cdp_inv_def)
  have i: "i = word_of_nat (Suc ?n)" using assms(1) by (simp add: i_def solo_def)
  have fresh: "map_of (pending c) i = None"
  proof (rule ccontr)
    assume "map_of (pending c) i \<noteq> None"
    then obtain t where "map_of (pending c) i = Some t" by auto
    from pending_inv_sender [OF p this]
    have t: "t < ?n" "calls c ! t = Waiting i \<or> calls c ! t = Cancelled i" by auto
    then have "i = word_of_nat (Suc t)" using assms(1) by (auto simp: solo_def)
    then have "unat (word_of_nat (Suc t) :: u64) = unat (word_of_nat (Suc ?n) :: u64)"
      using i by simp
    then show False using t(1) assms(3) by (simp add: unat_of_nat del: of_nat_Suc)
  qed
  then have same: "pending_remove i c = c" by (simp add: pending_remove_def)
  obtain c2 where c2: "pending_inv (pending c2) (calls c2)"
    "calls c2 = calls (pending_remove i c) @ [Waiting i]"
    "sess_heap c2 = (sess_heap c)[h := (sess_heap c ! h)\<lparr> cs_next_id := i + 1 \<rparr>]"
    "call_start h m p c =
      (if writer_open c
       then c2\<lparr> outbox := outbox c2 @ [request_frame (cs_id (sess_heap c ! h)) i m p] \<rparr>
       else (pending_remove i c2)\<lparr> calls := (calls (pending_remove i c2))
              [?n := Answered (Inl ConnectionClosed)] \<rparr>)"
    using call_start_split [OF p i_def, of m p] by metis
  have m: "map_of (pending c2) i = Some ?n"
    using pending_inv_waiting [OF c2(1), of ?n i] by (simp add: c2(2) same)
  have cc: "calls c2 = calls c @ [Waiting i]" using c2(2) by (simp add: same)
  have rem: "calls (pending_remove i c2) = (calls c2)[?n := Orphaned i]"
    by (simp add: pending_remove_def m drop_sender_def cc)
  have h: "h < length (sess_heap c)" using assms(1) by (simp add: solo_def)
  have nxt: "word_of_nat (Suc ?n) + 1 = (word_of_nat (Suc (Suc ?n)) :: u64)" by simp
  show ?thesis
    using assms(1) h
    by (auto simp: solo_def c2(4) [unfolded i] rem [unfolded i] cc [unfolded i] c2(3) [unfolded i] nxt
        nth_append nth_update_lt less_Suc_eq simp del: of_nat_Suc)
qed

lemma solo_remove:
  assumes "solo h c" "cdp_inv c" "t < length (calls c)" "calls c ! t = Waiting i"
  shows "solo h ((pending_remove i c)\<lparr> calls := (calls (pending_remove i c))[t := Answered r] \<rparr>)"
proof -
  have "map_of (pending c) i = Some t"
    using assms by (auto simp: cdp_inv_def intro: pending_inv_waiting)
  then show ?thesis
    using assms(1,4) by (auto simp: solo_def pending_remove_def drop_sender_def nth_update_lt)
qed

lemma solo_reply: "solo h c \<Longrightarrow> solo h (send_reply t r (c\<lparr> pending := ps \<rparr>))"
  by (auto simp: solo_def send_reply_def nth_update_lt split: call_state.split)

lemma solo_cong:
  "solo h c \<Longrightarrow> calls c' = calls c \<Longrightarrow> h < length (sess_heap c') \<Longrightarrow>
   cs_next_id (sess_heap c' ! h) = cs_next_id (sess_heap c ! h) \<Longrightarrow> solo h c'"
  by (simp add: solo_def)

lemma solo_drain: "solo h c \<Longrightarrow> solo h (drain c)"
  using drain_preserves [of "solo h" c] by (simp add: solo_reply)

lemma set_metrics_next_id:
  "h < length (sess_heap c) \<Longrightarrow>
   cs_next_id (sess_heap (set_metrics_sink k c) ! h) = cs_next_id (sess_heap c ! h)"
proof -
  have "cs_next_id (fold (\<lambda>h ss. ss[h := (ss ! h)\<lparr> cs_metrics := k \<rparr>]) hs ss ! h) = cs_next_id (ss ! h)"
    if "h < length ss" for hs ss
    using that by (induction hs arbitrary: ss) (simp_all add: nth_update_lt)
  then show "h < length (sess_heap c) \<Longrightarrow> ?thesis" by (simp add: set_metrics_sink_def)
qed

lemma session_for_heap:
  "h < length (sess_heap c) \<Longrightarrow>
   h < length (sess_heap (snd (session_for sid c))) \<and> sess_heap (snd (session_for sid c)) ! h = sess_heap c ! h"
  by (auto simp: session_for_def Let_def nth_append split: option.split)

lemma solo_events [simp]: "solo h (c\<lparr> events := es \<rparr>) = solo h c"
  by (simp add: solo_def)

lemma solo_dispatch:
  assumes "solo h c"
  shows "solo h (dispatch typed f c)"
proof -
  have h: "h < length (sess_heap c)" using assms by (simp add: solo_def)
  have "solo h (snd (session_for (frame_session f) c))"
    using session_for_heap [OF h] by (intro solo_cong [OF assms]) simp_all
  then show ?thesis
    using assms solo_reply by (auto simp: dispatch_def split_beta split: option.split)
qed

lemma solo_step:
  assumes "solo h c" "cdp_inv c" "solo_op h op" "length (calls c) < 2 ^ 64 - 1"
  shows "solo h (cdp_step typed op c)"
proof (cases op)
  case (CallStart h' m p)
  then show ?thesis using assms solo_call_start by (simp add: cdp_step_def solo_op_def)
next
  case (Frame f)
  then show ?thesis using solo_dispatch [OF assms(1)] by (simp add: cdp_step_def)
next
  case (Wake t)
  then show ?thesis using assms(1)
    by (cases "t < length (calls c)") (auto simp: cdp_step_def call_wake_def solo_def split: call_state.split)
next
  case (Deadline t)
  then show ?thesis using assms(1) solo_remove [OF assms(1,2)]
    by (auto simp: cdp_step_def call_timeout_def Let_def split: call_state.split)
next
  case (Cancel t)
  then show ?thesis using assms(1)
    by (cases "t < length (calls c)")
      (auto simp: cdp_step_def call_cancel_def solo_def nth_update_lt split: call_state.split)
next
  case (Attach sid)
  then show ?thesis
    using assms(1) session_for_heap [of h c sid]
    by (auto simp: cdp_step_def solo_def)
next
  case (SetSink k)
  then show ?thesis
    using assms(1) set_metrics_next_id [of h c k] solo_cong [OF assms(1), of "set_metrics_sink k c"]
    by (simp add: cdp_step_def solo_def set_metrics_calls)
next
  case Drain
  then show ?thesis using solo_drain [OF assms(1)] by (simp add: cdp_step_def)
qed (use assms(1) in \<open>auto simp: cdp_step_def drop_session_def solo_def\<close>)

lemma drop_sender_length [simp]: "length (calls (drop_sender t c)) = length (calls c)"
  by (simp add: drop_sender_def split: call_state.split)

lemma length_calls_step: "length (calls (cdp_step typed op c)) \<le> Suc (length (calls c))"
proof -
  have "length (calls (drain c)) = length (calls c)"
    using drain_preserves [of "\<lambda>c'. length (calls c') = length (calls c)" c] by simp
  then show ?thesis
    by (cases op)
      (auto simp: cdp_step_def call_start_def dispatch_def call_wake_def call_timeout_def call_cancel_def
        drop_session_def set_metrics_sink_def Let_def split_beta split: option.split call_state.split)
qed

lemma solo_run:
  assumes "list_all (solo_op h) ops" "solo h c" "cdp_inv c" "length (calls c) + length ops < 2 ^ 64"
  shows "solo h (fold (cdp_step typed) ops c)"
  using assms
proof (induction ops arbitrary: c)
  case (Cons op ops)
  have "solo h (cdp_step typed op c)" using Cons.prems by (intro solo_step) auto
  moreover have "length (calls (cdp_step typed op c)) \<le> Suc (length (calls c))"
    by (rule length_calls_step)
  ultimately show ?case using Cons.prems by (simp add: Cons.IH cdp_inv_step)
qed simp

subsection \<open>Properties\<close>


text \<open>
  With a single calling session replies are delivered correctly: as long as fewer than
  \<open>2 ^ 64\<close> operations were made and all calls come from one session, no call loses its sender, the
  \<open>n\<close>-th call used id \<open>n\<close>, and a reply that carries the id of a waiting call completes exactly that
  call with the result or protocol error of the frame.
\<close>
theorem single_session_delivery:
  fixes typed :: "json \<Rightarrow> bool" and ops :: "cdp_op list"
  assumes "list_all (solo_op 0) ops" and "length ops < 2 ^ 64"
  defines "c \<equiv> cdp_run typed ops"
  assumes "t < length (calls c)" and "calls c ! t = Waiting i" and "jget ''id'' f = Some (JPos i)"
  shows "list_all (\<lambda>s. \<nexists>j. s = Orphaned j) (calls c) \<and> i = word_of_nat (Suc t) \<and>
    calls (dispatch typed f c) = (calls c)[t := Answered (reply_result f)]"
proof -
  have s: "solo 0 c" unfolding c_def cdp_run_def
    using assms(1,2) cdp_inv_new by (intro solo_run) (auto simp: conn_new_def solo_def session_new_def)
  have "pending_inv (pending c) (calls c)" using cdp_inv_run by (simp add: c_def cdp_inv_def)
  from pending_inv_waiting [OF this assms(4,5)] have "map_of (pending c) i = Some t" .
  with s assms(4,5,6) show ?thesis
    by (auto simp: solo_def list_all_length dispatch_def send_reply_def)
qed

theorem single_session_delivery_witness:
  "let ops = [CallStart 0 ''A'' JNull, CallStart 0 ''B'' JNull]; c = cdp_run (\<lambda>_. True) ops;
       f = JObject [(''id'', JPos 2), (''result'', JBool True)]
   in calls (dispatch (\<lambda>_. True) f c) = (calls c)[1 := Answered (Inr (JBool True))]"
proof -
  let ?ops = "[CallStart 0 ''A'' JNull, CallStart 0 ''B'' JNull]"
  let ?f = "JObject [(''id'', JPos 2), (''result'', JBool True)]"
  have c: "calls (cdp_run (\<lambda>_. True) ?ops) = [Waiting 1, Waiting 2]"
    by (simp add: cdp_run_def cdp_step_def conn_new_def call_start_def session_new_def Let_def
        pending_insert_def)
  have "calls (dispatch (\<lambda>_. True) ?f (cdp_run (\<lambda>_. True) ?ops)) =
      (calls (cdp_run (\<lambda>_. True) ?ops))[1 := Answered (reply_result ?f)]"
    using single_session_delivery [where typed = "\<lambda>_. True" and ops = ?ops and t = 1 and i = 2 and f = ?f]
    by (simp add: c solo_op_def)
  then show ?thesis by (simp add: Let_def reply_result_def)
qed

text \<open>
  C8. Two sessions that reach the same id interfere, because ids are counted per session but the
  table of in-flight calls is shared and keyed by the id alone. If a call waits with id \<open>i\<close> and
  another session's next id is \<open>i\<close>, then starting a call there makes the first call fail with a
  closed connection although the connection is open; its clean-up then makes the second call fail
  as well; and before that, a reply meant for the first call would complete the second one.
\<close>
theorem cross_session_collision:
  fixes typed :: "json \<Rightarrow> bool" and c :: conn_state and b t :: nat and m :: string and p f :: json
  assumes "cdp_inv c" and "t < length (calls c)" and "calls c ! t = Waiting i"
    and "b < length (sess_heap c)" and "cs_next_id (sess_heap c ! b) = i" and "writer_open c"
    and "jget ''id'' f = Some (JPos i)"
  defines "n \<equiv> length (calls c)" and "c1 \<equiv> cdp_step typed (CallStart b m p) c"
  defines "c2 \<equiv> cdp_step typed (Wake n) (cdp_step typed (Wake t) c1)"
  shows "calls c2 ! t = Answered (Inl ConnectionClosed) \<and>
    calls c2 ! n = Answered (Inl ConnectionClosed) \<and> writer_open c2 \<and>
    calls (cdp_step typed (Frame f) c1) ! n = Answered (reply_result f)"
proof -
  have p: "pending_inv (pending c) (calls c)" using assms(1) by (simp add: cdp_inv_def)
  have m: "map_of (pending c) i = Some t" by (rule pending_inv_waiting [OF p assms(2,3)])
  have nt: "t \<noteq> n" "t < n" using assms(2) by (auto simp: n_def)
  have c1: "calls c1 = (calls c)[t := Orphaned i] @ [Waiting i]" "pending c1 = AList.update i n (pending c)"
    "writer_open c1"
    using assms(2-6) m
    by (simp_all add: c1_def cdp_step_def call_start_def Let_def pending_insert_def drop_sender_def
        nth_append list_update_append1 n_def)
  have u: "map_of (AList.update i n (pending c)) i = Some n" by (simp add: update_conv')
  show ?thesis
    using nt u assms(7)
    by (simp add: c2_def cdp_step_def call_wake_def Let_def c1 pending_remove_def drop_sender_def
        nth_append list_update_append delete_conv' dispatch_def send_reply_def n_def [symmetric])
qed

theorem cross_session_collision_witness:
  "let c = cdp_run (\<lambda>_. True) [Attach ''S'', CallStart 0 ''A'' JNull]
   in calls (cdp_step (\<lambda>_. True) (Wake 1) (cdp_step (\<lambda>_. True) (Wake 0)
        (cdp_step (\<lambda>_. True) (CallStart 1 ''B'' JNull) c))) ! 1 = Answered (Inl ConnectionClosed)"
proof -
  let ?c = "cdp_run (\<lambda>_. True) [Attach ''S'', CallStart 0 ''A'' JNull]"
  have c: "calls ?c = [Waiting 1]" "length (sess_heap ?c) = 2" "cs_next_id (sess_heap ?c ! Suc 0) = 1"
    "writer_open ?c"
    by (simp_all add: cdp_run_def cdp_step_def conn_new_def call_start_def session_new_def Let_def
        pending_insert_def session_for_def session_root_def)
  show ?thesis
    using cross_session_collision [where c = ?c and typed = "\<lambda>_. True" and t = 0 and b = 1
        and i = 1 and f = "JObject [(''id'', JPos 1)]" and m = "''B''" and p = JNull,
        OF cdp_inv_run]
    by (simp add: c Let_def)
qed

end
