(* ===== verification/Frame_Ring.thy ===== *)
theory Frame_Ring
  imports Prelude
begin

text \<open>
  Crate \<^verbatim>\<open>vision\<close>: the shared-memory frame ring (\<^verbatim>\<open>frame_ring.rs\<close>) and the window of past frames read
  from it (\<^verbatim>\<open>animation.rs\<close>). The mapping is a header, the slot headers and one body of bytes that the
  guards address by absolute offsets. Every operation takes the lock of the mapping; the first
  machine below treats each as one step. The second one splits the two stores of a commit, which
  the code performs under the shared lock and which a reader can therefore see separately.
\<close>

subsection \<open>Layout\<close>

definition HEADER_BYTES :: nat where "HEADER_BYTES = 120"
definition SLOT_HDR_BYTES :: nat where "SLOT_HDR_BYTES = 56"
definition MAGIC :: u64 where "MAGIC = 0xCBF1AEF1AEFFFF55"
definition VERSION :: u32 where "VERSION = 1"

datatype vision_error = RingExhausted | FrameTooLarge nat nat | VisionOther string

record slot =
  sl_seq :: u64
  sl_len :: u32
  sl_refcnt :: u32
  sl_ts_us :: u64

record frame_ring =
  fr_path :: string
  fr_slot_bytes :: u32
  fr_slot_count :: u32
  hdr_magic :: u64
  hdr_version :: u32
  hdr_next_seq :: u64
  fr_slots :: "slot list"
  fr_body :: "u8 list"

record write_guard =
  wg_slot_index :: u32
  wg_payload_off :: nat
  wg_slot_off :: nat
  wg_len :: u32
  wg_seq :: u64

record read_guard =
  rg_slot_index :: u32
  rg_payload_off :: nat
  rg_len :: u32
  rg_seq :: u64
  rg_ts_us :: u64

record ring_handle =
  rh_shm_path :: string
  rh_slot_seq :: u64
  rh_slot_index :: u32
  rh_offset :: u32
  rh_len :: u32
  rh_ts_us :: u64

definition slot_off :: "nat \<Rightarrow> nat" where
  "slot_off i = HEADER_BYTES + i * SLOT_HDR_BYTES"

text \<open>The slot header a byte offset points at.\<close>

definition slot_at :: "nat \<Rightarrow> nat" where
  "slot_at off = (off - HEADER_BYTES) div SLOT_HDR_BYTES"

definition body_off :: "frame_ring \<Rightarrow> nat" where
  "body_off r = HEADER_BYTES + SLOT_HDR_BYTES * unat (fr_slot_count r)"

definition payload_off :: "frame_ring \<Rightarrow> nat \<Rightarrow> nat" where
  "payload_off r i = body_off r + i * unat (fr_slot_bytes r)"

text \<open>Bytes \<^verbatim>\<open>[off .. off + n]\<close> of the mapping, and their replacement, for offsets in the body.\<close>

definition bytes_at :: "frame_ring \<Rightarrow> nat \<Rightarrow> nat \<Rightarrow> u8 list" where
  "bytes_at r off n = take n (drop (off - body_off r) (fr_body r))"

definition copy_bytes :: "nat \<Rightarrow> u8 list \<Rightarrow> frame_ring \<Rightarrow> frame_ring" where
  "copy_bytes off data r =
     (let k = off - body_off r
      in r\<lparr> fr_body := take k (fr_body r) @ data @ drop (k + length data) (fr_body r) \<rparr>)"

definition update_slot :: "nat \<Rightarrow> (slot \<Rightarrow> slot) \<Rightarrow> frame_ring \<Rightarrow> frame_ring" where
  "update_slot i f r = r\<lparr> fr_slots := (fr_slots r)[i := f (fr_slots r ! i)] \<rparr>"

subsection \<open>Operations\<close>

definition empty_slot :: slot where
  "empty_slot = \<lparr> sl_seq = 0, sl_len = 0, sl_refcnt = 0, sl_ts_us = 0 \<rparr>"

definition ring_create :: "string \<Rightarrow> u32 \<Rightarrow> u32 \<Rightarrow> vision_error + frame_ring" where
  "ring_create path slot_bytes slot_count =
     (if slot_count = 0 \<or> slot_bytes < 64
      then Inl (VisionOther (''invalid ring shape: slot_bytes='' @ nat_to_dec (unat slot_bytes)
                             @ '' slot_count='' @ nat_to_dec (unat slot_count)))
      else Inr \<lparr> fr_path = path, fr_slot_bytes = slot_bytes, fr_slot_count = slot_count,
                 hdr_magic = MAGIC, hdr_version = VERSION, hdr_next_seq = 1,
                 fr_slots = replicate (unat slot_count) empty_slot,
                 fr_body = replicate (unat slot_bytes * unat slot_count) 0 \<rparr>)"

text \<open>The scan of \<^verbatim>\<open>acquire_write\<close>: the idle slot with the smallest sequence number, an empty one at once.\<close>

fun choose_slot :: "slot list \<Rightarrow> nat \<Rightarrow> nat option \<Rightarrow> u64 \<Rightarrow> nat option" where
  "choose_slot [] i chosen chosen_seq = chosen"
| "choose_slot (s # ss) i chosen chosen_seq =
     (if sl_refcnt s \<noteq> 0 then choose_slot ss (i + 1) chosen chosen_seq
      else if sl_seq s < chosen_seq then
        (if sl_seq s = 0 then Some i else choose_slot ss (i + 1) (Some i) (sl_seq s))
      else choose_slot ss (i + 1) chosen chosen_seq)"

definition acquire_write ::
  "u32 \<Rightarrow> u64 \<Rightarrow> frame_ring \<Rightarrow> (vision_error + write_guard) \<times> frame_ring" where
  "acquire_write len ts r =
     (if len > fr_slot_bytes r then (Inl (FrameTooLarge (unat len) (unat (fr_slot_bytes r))), r)
      else
        (case choose_slot (fr_slots r) 0 None (- 1) of
           None \<Rightarrow> (Inl RingExhausted, r)
         | Some i \<Rightarrow>
             (let new_seq = hdr_next_seq r;
                  r = r\<lparr> hdr_next_seq := new_seq + 1 \<rparr>;
                  r = update_slot i
                        (\<lambda>s. s\<lparr> sl_seq := 0, sl_refcnt := 1, sl_ts_us := ts, sl_len := len \<rparr>) r
              in (Inr \<lparr> wg_slot_index = word_of_nat i, wg_payload_off = payload_off r i,
                        wg_slot_off = slot_off i, wg_len = len, wg_seq = new_seq \<rparr>, r))))"

definition guard_write :: "write_guard \<Rightarrow> u8 list \<Rightarrow> frame_ring \<Rightarrow> (vision_error + unit) \<times> frame_ring" where
  "guard_write g data r =
     (if length data \<noteq> unat (wg_len g)
      then (Inl (VisionOther (''write len mismatch: got '' @ nat_to_dec (length data)
                              @ '' expected '' @ nat_to_dec (unat (wg_len g)))), r)
      else (Inr (), copy_bytes (wg_payload_off g) data r))"

text \<open>The two stores of \<^verbatim>\<open>commit\<close>.\<close>

definition commit_seq :: "write_guard \<Rightarrow> frame_ring \<Rightarrow> frame_ring" where
  "commit_seq g r = update_slot (slot_at (wg_slot_off g)) (\<lambda>s. s\<lparr> sl_seq := wg_seq g \<rparr>) r"

definition commit_refcnt :: "write_guard \<Rightarrow> frame_ring \<Rightarrow> frame_ring" where
  "commit_refcnt g r = update_slot (slot_at (wg_slot_off g)) (\<lambda>s. s\<lparr> sl_refcnt := 0 \<rparr>) r"

definition commit :: "write_guard \<Rightarrow> frame_ring \<Rightarrow> u64 \<times> frame_ring" where
  "commit g r = (wg_seq g, commit_refcnt g (commit_seq g r))"

definition drop_write :: "write_guard \<Rightarrow> frame_ring \<Rightarrow> frame_ring" where
  "drop_write g r =
     update_slot (slot_at (wg_slot_off g))
       (\<lambda>s. s\<lparr> sl_seq := 0, sl_len := 0, sl_ts_us := 0, sl_refcnt := 0 \<rparr>) r"

text \<open>The first slot that publishes a sequence number.\<close>

fun find_slot :: "u64 \<Rightarrow> slot list \<Rightarrow> nat \<Rightarrow> nat option" where
  "find_slot q [] i = None"
| "find_slot q (s # ss) i = (if sl_seq s = q then Some i else find_slot q ss (i + 1))"

text \<open>
  \<^verbatim>\<open>read\<close> as one step: between the two loads of the sequence number nothing else runs, so the re-check
  succeeds.
\<close>

definition ring_read :: "u64 \<Rightarrow> frame_ring \<Rightarrow> read_guard option \<times> frame_ring" where
  "ring_read q r =
     (case find_slot q (fr_slots r) 0 of
        None \<Rightarrow> (None, r)
      | Some i \<Rightarrow>
          (let r = update_slot i (\<lambda>s. s\<lparr> sl_refcnt := sl_refcnt s + 1 \<rparr>) r; s = fr_slots r ! i
           in (Some \<lparr> rg_slot_index = word_of_nat i, rg_payload_off = payload_off r i,
                      rg_len = sl_len s, rg_seq = q, rg_ts_us = sl_ts_us s \<rparr>, r)))"

definition to_vec :: "read_guard \<Rightarrow> frame_ring \<Rightarrow> u8 list" where
  "to_vec g r = bytes_at r (rg_payload_off g) (unat (rg_len g))"

definition drop_read :: "read_guard \<Rightarrow> frame_ring \<Rightarrow> frame_ring" where
  "drop_read g r =
     update_slot (slot_at (HEADER_BYTES + unat (rg_slot_index g) * SLOT_HDR_BYTES))
       (\<lambda>s. s\<lparr> sl_refcnt := sl_refcnt s - 1 \<rparr>) r"

definition handle_for :: "write_guard \<Rightarrow> frame_ring \<Rightarrow> ring_handle" where
  "handle_for g r =
     \<lparr> rh_shm_path = fr_path r, rh_slot_seq = wg_seq g, rh_slot_index = wg_slot_index g,
       rh_offset = word_of_nat (wg_payload_off g), rh_len = wg_len g, rh_ts_us = 0 \<rparr>"

definition head_seq :: "frame_ring \<Rightarrow> u64" where
  "head_seq r = fold (\<lambda>s mx. if sl_seq s > mx then sl_seq s else mx) (fr_slots r) 0"

definition slot_ts_us :: "u64 \<Rightarrow> frame_ring \<Rightarrow> u64 option" where
  "slot_ts_us q r = map_option (\<lambda>i. sl_ts_us (fr_slots r ! i)) (find_slot q (fr_slots r) 0)"

definition handle_for_seq :: "u64 \<Rightarrow> frame_ring \<Rightarrow> ring_handle option" where
  "handle_for_seq q r =
     map_option
       (\<lambda>i. \<lparr> rh_shm_path = fr_path r, rh_slot_seq = q, rh_slot_index = word_of_nat i,
              rh_offset = word_of_nat (payload_off r i), rh_len = sl_len (fr_slots r ! i),
              rh_ts_us = sl_ts_us (fr_slots r ! i) \<rparr>)
       (find_slot q (fr_slots r) 0)"

subsection \<open>The window of past frames (animation.rs)\<close>

definition MAX_DURATION_MS :: u32 where "MAX_DURATION_MS = 5000"

text \<open>The loop from the head backwards; \<open>n\<close> is the sequence number as a natural number.\<close>

fun window_loop :: "frame_ring \<Rightarrow> u64 \<Rightarrow> nat \<Rightarrow> ring_handle list \<Rightarrow> ring_handle list" where
  "window_loop r cutoff 0 out = out"
| "window_loop r cutoff (Suc n) out =
     (case handle_for_seq (word_of_nat (Suc n)) r of
        None \<Rightarrow> out
      | Some h \<Rightarrow>
          (if rh_ts_us h < cutoff then out
           else let out = out @ [h] in if length out \<ge> 256 then out else window_loop r cutoff n out))"

definition animation_frames :: "u32 \<Rightarrow> frame_ring \<Rightarrow> vision_error + ring_handle list" where
  "animation_frames duration_ms r =
     (if duration_ms = 0 \<or> duration_ms > MAX_DURATION_MS
      then Inl (VisionOther (''duration_ms must be in 1..=5000 (got '' @ nat_to_dec (unat duration_ms) @ '')''))
      else
        let head = head_seq r
        in if head = 0 then Inr []
           else
             let head_ts = (case slot_ts_us head r of None \<Rightarrow> 0 | Some t \<Rightarrow> t);
                 cutoff = sat_sub head_ts (ucast duration_ms * 1000)
             in Inr (rev (window_loop r cutoff (unat head) [])))"

subsection \<open>The machine of whole operations\<close>

text \<open>
  The guards that are alive, and, for the statement only, what was in a slot when it was committed:
  the bytes and the time stamp of every published sequence number.
\<close>

record ring_state =
  the_ring :: frame_ring
  writers :: "write_guard list"
  readers :: "read_guard list"
  published :: "(u64 \<times> u8 list \<times> u64) list"

datatype ring_op =
    AcquireWrite u32 u64
  | Write nat "u8 list"
  | Commit nat
  | DropWrite nat
  | Read u64
  | DropRead nat

definition remove_nth :: "nat \<Rightarrow> 'a list \<Rightarrow> 'a list" where
  "remove_nth k xs = take k xs @ drop (Suc k) xs"

text \<open>
  When an operation can happen: guards are named by their position; a sequence number has not run
  out, the reader counter is not full, and the caller asks for a sequence number that can have been
  published.
\<close>

fun ring_enabled :: "ring_op \<Rightarrow> ring_state \<Rightarrow> bool" where
  "ring_enabled (AcquireWrite len ts) st \<longleftrightarrow> hdr_next_seq (the_ring st) \<noteq> - 1"
| "ring_enabled (Write k data) st \<longleftrightarrow> k < length (writers st)"
| "ring_enabled (Commit k) st \<longleftrightarrow> k < length (writers st)"
| "ring_enabled (DropWrite k) st \<longleftrightarrow> k < length (writers st)"
| "ring_enabled (Read q) st \<longleftrightarrow> q \<noteq> 0 \<and> length (readers st) < 2 ^ 32 - 1"
| "ring_enabled (DropRead k) st \<longleftrightarrow> k < length (readers st)"

fun ring_step :: "ring_op \<Rightarrow> ring_state \<Rightarrow> ring_state" where
  "ring_step (AcquireWrite len ts) st =
     (case acquire_write len ts (the_ring st) of
        (Inl e, r) \<Rightarrow> st\<lparr> the_ring := r \<rparr>
      | (Inr g, r) \<Rightarrow> st\<lparr> the_ring := r, writers := writers st @ [g] \<rparr>)"
| "ring_step (Write k data) st =
     st\<lparr> the_ring := snd (guard_write (writers st ! k) data (the_ring st)) \<rparr>"
| "ring_step (Commit k) st =
     (let g = writers st ! k; r = the_ring st; s = fr_slots r ! slot_at (wg_slot_off g)
      in st\<lparr> the_ring := snd (commit g r), writers := remove_nth k (writers st),
             published := (wg_seq g, bytes_at r (wg_payload_off g) (unat (wg_len g)), sl_ts_us s)
                            # published st \<rparr>)"
| "ring_step (DropWrite k) st =
     st\<lparr> the_ring := drop_write (writers st ! k) (the_ring st), writers := remove_nth k (writers st) \<rparr>"
| "ring_step (Read q) st =
     (case ring_read q (the_ring st) of
        (None, r) \<Rightarrow> st\<lparr> the_ring := r \<rparr>
      | (Some g, r) \<Rightarrow> st\<lparr> the_ring := r, readers := readers st @ [g] \<rparr>)"
| "ring_step (DropRead k) st =
     st\<lparr> the_ring := drop_read (readers st ! k) (the_ring st), readers := remove_nth k (readers st) \<rparr>"

inductive ring_reach :: "ring_state \<Rightarrow> bool" where
  created: "ring_create path slot_bytes slot_count = Inr r \<Longrightarrow>
    ring_reach \<lparr> the_ring = r, writers = [], readers = [], published = [] \<rparr>"
| step: "ring_reach st \<Longrightarrow> ring_enabled op st \<Longrightarrow> ring_reach (ring_step op st)"

subsection \<open>The invariant\<close>

definition shape_ok :: "frame_ring \<Rightarrow> bool" where
  "shape_ok r \<longleftrightarrow> length (fr_slots r) = unat (fr_slot_count r) \<and>
     length (fr_body r) = unat (fr_slot_bytes r) * unat (fr_slot_count r)"

definition holders :: "nat \<Rightarrow> write_guard list \<Rightarrow> read_guard list \<Rightarrow> nat" where
  "holders i ws rs =
     length (filter (\<lambda>g. slot_at (wg_slot_off g) = i) ws) +
     length (filter (\<lambda>g. unat (rg_slot_index g) = i) rs)"

definition writer_ok :: "frame_ring \<Rightarrow> write_guard \<Rightarrow> bool" where
  "writer_ok r g \<longleftrightarrow>
     (let i = slot_at (wg_slot_off g); s = fr_slots r ! i
      in i < length (fr_slots r) \<and> wg_payload_off g = payload_off r i \<and> sl_seq s = 0 \<and>
         sl_len s = wg_len g \<and> wg_len g \<le> fr_slot_bytes r \<and> 0 < wg_seq g \<and> wg_seq g < hdr_next_seq r)"

definition reader_ok :: "frame_ring \<Rightarrow> read_guard \<Rightarrow> bool" where
  "reader_ok r g \<longleftrightarrow>
     (let i = unat (rg_slot_index g); s = fr_slots r ! i
      in i < length (fr_slots r) \<and> rg_payload_off g = payload_off r i \<and> sl_seq s = rg_seq g \<and>
         rg_seq g \<noteq> 0 \<and> sl_len s = rg_len g \<and> sl_ts_us s = rg_ts_us g)"

definition slot_ok :: "frame_ring \<Rightarrow> (u64 \<times> u8 list \<times> u64) list \<Rightarrow> nat \<Rightarrow> bool" where
  "slot_ok r log i \<longleftrightarrow>
     (let s = fr_slots r ! i
      in sl_seq s = 0 \<or>
         sl_seq s < hdr_next_seq r \<and> sl_len s \<le> fr_slot_bytes r \<and>
         map_of log (sl_seq s) = Some (bytes_at r (payload_off r i) (unat (sl_len s)), sl_ts_us s))"

text \<open>No two slots publish the same number.\<close>

definition slots_distinct :: "frame_ring \<Rightarrow> bool" where
  "slots_distinct r \<longleftrightarrow>
     (\<forall>i < length (fr_slots r). \<forall>j < length (fr_slots r).
        sl_seq (fr_slots r ! i) \<noteq> 0 \<longrightarrow> sl_seq (fr_slots r ! i) = sl_seq (fr_slots r ! j) \<longrightarrow> i = j)"

definition ring_inv :: "ring_state \<Rightarrow> bool" where
  "ring_inv st \<longleftrightarrow>
     (let r = the_ring st
      in shape_ok r \<and> 0 < hdr_next_seq r \<and>
         (\<forall>i < length (fr_slots r). unat (sl_refcnt (fr_slots r ! i)) = holders i (writers st) (readers st)) \<and>
         (\<forall>g \<in> set (writers st). writer_ok r g) \<and>
         distinct (map (slot_at \<circ> wg_slot_off) (writers st)) \<and>
         (\<forall>g \<in> set (readers st). reader_ok r g) \<and>
         (\<forall>i < length (fr_slots r). slot_ok r (published st) i) \<and>
         slots_distinct r \<and> distinct (map wg_seq (writers st)) \<and> (\<forall>q \<in> fst ` set (published st). q < hdr_next_seq r) \<and>
         (\<forall>g \<in> set (writers st). wg_seq g \<notin> fst ` set (published st)))"

text \<open>A fresh ring of \<open>n\<close> slots, for the concrete runs below.\<close>

definition demo_ring :: "u32 \<Rightarrow> ring_state" where
  "demo_ring n = \<lparr> the_ring = projr (ring_create ''ring'' 64 n), writers = [], readers = [], published = [] \<rparr>"

subsection \<open>Lemmas: layout\<close>

lemma slot_at_slot_off [simp]: "slot_at (slot_off i) = i"
  by (simp add: slot_at_def slot_off_def SLOT_HDR_BYTES_def)

lemma slot_at_index [simp]: "slot_at (HEADER_BYTES + i * SLOT_HDR_BYTES) = i"
  by (simp add: slot_at_def SLOT_HDR_BYTES_def)

lemma update_slot_simps [simp]:
  "fr_slot_count (update_slot i f r) = fr_slot_count r"
  "fr_slot_bytes (update_slot i f r) = fr_slot_bytes r"
  "hdr_next_seq (update_slot i f r) = hdr_next_seq r"
  "fr_body (update_slot i f r) = fr_body r"
  "length (fr_slots (update_slot i f r)) = length (fr_slots r)"
  "shape_ok (update_slot i f r) = shape_ok r"
  "body_off (update_slot i f r) = body_off r"
  "payload_off (update_slot i f r) j = payload_off r j"
  "bytes_at (update_slot i f r) off n = bytes_at r off n"
  by (simp_all add: update_slot_def shape_ok_def body_off_def payload_off_def bytes_at_def)

lemma update_slot_nth [simp]:
  "j < length (fr_slots r) \<Longrightarrow>
   fr_slots (update_slot i f r) ! j = (if i = j then f (fr_slots r ! j) else fr_slots r ! j)"
  by (simp add: update_slot_def nth_update_lt)

lemma next_seq_simps [simp]:
  "shape_ok (r\<lparr> hdr_next_seq := q \<rparr>) = shape_ok r"
  "body_off (r\<lparr> hdr_next_seq := q \<rparr>) = body_off r"
  "payload_off (r\<lparr> hdr_next_seq := q \<rparr>) j = payload_off r j"
  "bytes_at (r\<lparr> hdr_next_seq := q \<rparr>) off n = bytes_at r off n"
  by (simp_all add: shape_ok_def body_off_def payload_off_def bytes_at_def)

lemma copy_bytes_simps [simp]:
  "fr_slot_count (copy_bytes off d r) = fr_slot_count r"
  "fr_slot_bytes (copy_bytes off d r) = fr_slot_bytes r"
  "hdr_next_seq (copy_bytes off d r) = hdr_next_seq r"
  "fr_slots (copy_bytes off d r) = fr_slots r"
  "body_off (copy_bytes off d r) = body_off r"
  "payload_off (copy_bytes off d r) j = payload_off r j"
  by (simp_all add: copy_bytes_def Let_def body_off_def payload_off_def)

lemma take_drop_splice_other:
  assumes "k + length d \<le> length b" and "a + n \<le> k \<or> k + length d \<le> a" and "a + n \<le> length b"
  shows "take n (drop a (take k b @ d @ drop (k + length d) b)) = take n (drop a b)"
  using assms(2)
proof
  assume a: "a + n \<le> k"
  then have "n \<le> k - a" by simp
  then have "take n (drop a (take k b) @ xs) = take n (drop a b)" for xs
    using assms(1) by (auto simp: drop_take min_def)
  then show ?thesis using a assms(1) by (simp add: drop_append)
next
  assume "k + length d \<le> a"
  then show ?thesis using assms(1) by simp
qed

lemma slot_region:
  assumes "shape_ok r" and "i < unat (fr_slot_count r)" and "n \<le> unat (fr_slot_bytes r)"
  shows "payload_off r i - body_off r + n \<le> length (fr_body r)"
proof -
  have "i * unat (fr_slot_bytes r) + n \<le> Suc i * unat (fr_slot_bytes r)" using assms(3) by simp
  also have "\<dots> \<le> unat (fr_slot_count r) * unat (fr_slot_bytes r)"
    using assms(2) by (intro mult_right_mono) auto
  finally show ?thesis using assms(1) by (simp add: payload_off_def shape_ok_def mult.commute)
qed

lemma copy_bytes_shape:
  assumes "shape_ok r" and "i < unat (fr_slot_count r)" and "length d \<le> unat (fr_slot_bytes r)"
  shows "shape_ok (copy_bytes (payload_off r i) d r)"
  using slot_region [OF assms] assms(1) by (simp add: shape_ok_def copy_bytes_def Let_def)

lemma bytes_at_same:
  assumes "shape_ok r" and "i < unat (fr_slot_count r)" and "length d \<le> unat (fr_slot_bytes r)"
  shows "bytes_at (copy_bytes (payload_off r i) d r) (payload_off r i) (length d) = d"
proof -
  have "payload_off r i - body_off r \<le> length (fr_body r)" using slot_region [OF assms] by simp
  then show ?thesis
    unfolding bytes_at_def copy_bytes_simps by (simp add: copy_bytes_def Let_def)
qed

lemma bytes_at_other:
  assumes "shape_ok r" and "i < unat (fr_slot_count r)" and "length d \<le> unat (fr_slot_bytes r)"
    and "j < unat (fr_slot_count r)" and "n \<le> unat (fr_slot_bytes r)" and "i \<noteq> j"
  shows "bytes_at (copy_bytes (payload_off r i) d r) (payload_off r j) n = bytes_at r (payload_off r j) n"
proof -
  let ?w = "unat (fr_slot_bytes r)"
  have "j * ?w + n \<le> i * ?w \<or> i * ?w + length d \<le> j * ?w"
  proof (cases "j < i")
    case True
    then have "Suc j * ?w \<le> i * ?w" by (intro mult_right_mono) auto
    then show ?thesis using assms(5) by simp
  next
    case False
    then have "Suc i * ?w \<le> j * ?w" using assms(6) by (intro mult_right_mono) auto
    then show ?thesis using assms(3) by simp
  qed
  then have "payload_off r j - body_off r + n \<le> payload_off r i - body_off r \<or>
      payload_off r i - body_off r + length d \<le> payload_off r j - body_off r"
    by (simp add: payload_off_def)
  then show ?thesis
    unfolding bytes_at_def copy_bytes_simps
    using take_drop_splice_other [OF slot_region [OF assms(1-3)] _ slot_region [OF assms(1,4,5)]]
    by (simp add: copy_bytes_def Let_def)
qed

subsection \<open>Lemmas: choosing a slot\<close>

lemma choose_slot_spec:
  "(choose_slot ss k ch cs = ch \<and> (\<forall>s \<in> set ss. sl_refcnt s = 0 \<longrightarrow> cs \<le> sl_seq s)) \<or>
   (\<exists>j < length ss. choose_slot ss k ch cs = Some (k + j) \<and> sl_refcnt (ss ! j) = 0 \<and>
      sl_seq (ss ! j) < cs \<and> (\<forall>s \<in> set ss. sl_refcnt s = 0 \<longrightarrow> sl_seq (ss ! j) \<le> sl_seq s))"
proof (induction ss arbitrary: k ch cs)
  case Nil
  then show ?case by simp
next
  case (Cons s ss)
  consider (busy) "sl_refcnt s \<noteq> 0" | (zero) "sl_refcnt s = 0" "sl_seq s < cs" "sl_seq s = 0"
    | (take) "sl_refcnt s = 0" "sl_seq s < cs" "sl_seq s \<noteq> 0" | (skip) "sl_refcnt s = 0" "\<not> sl_seq s < cs"
    by blast
  then show ?case
  proof cases
    case busy
    then show ?thesis using Cons.IH [of "k + 1" ch cs] by force
  next
    case zero
    then show ?thesis by (intro disjI2 exI [of _ 0]) auto
  next
    case take
    from Cons.IH [of "k + 1" "Some k" "sl_seq s"] show ?thesis
    proof (elim disjE exE conjE)
      assume "choose_slot ss (k + 1) (Some k) (sl_seq s) = Some k"
        "\<forall>x \<in> set ss. sl_refcnt x = 0 \<longrightarrow> sl_seq s \<le> sl_seq x"
      then show ?thesis using take by (intro disjI2 exI [of _ 0]) auto
    next
      fix j assume "j < length ss" "choose_slot ss (k + 1) (Some k) (sl_seq s) = Some (k + 1 + j)"
        "sl_refcnt (ss ! j) = 0" "sl_seq (ss ! j) < sl_seq s"
        "\<forall>x \<in> set ss. sl_refcnt x = 0 \<longrightarrow> sl_seq (ss ! j) \<le> sl_seq x"
      then show ?thesis using take by (intro disjI2 exI [of _ "Suc j"]) auto
    qed
  next
    case skip
    from Cons.IH [of "k + 1" ch cs] show ?thesis
    proof (elim disjE exE conjE)
      assume "choose_slot ss (k + 1) ch cs = ch" "\<forall>x \<in> set ss. sl_refcnt x = 0 \<longrightarrow> cs \<le> sl_seq x"
      then show ?thesis using skip by auto
    next
      fix j assume "j < length ss" "choose_slot ss (k + 1) ch cs = Some (k + 1 + j)"
        "sl_refcnt (ss ! j) = 0" "sl_seq (ss ! j) < cs"
        "\<forall>x \<in> set ss. sl_refcnt x = 0 \<longrightarrow> sl_seq (ss ! j) \<le> sl_seq x"
      then show ?thesis using skip by (intro disjI2 exI [of _ "Suc j"]) auto
    qed
  qed
qed

lemma choose_slot_idle:
  "choose_slot (fr_slots r) 0 None q = Some i \<Longrightarrow>
     i < length (fr_slots r) \<and> sl_refcnt (fr_slots r ! i) = 0"
  using choose_slot_spec [of "fr_slots r" 0 None q] by auto

lemma find_slot_Some:
  "find_slot q ss k = Some i \<Longrightarrow> k \<le> i \<and> i < k + length ss \<and> sl_seq (ss ! (i - k)) = q"
proof (induction ss arbitrary: k)
  case (Cons s ss)
  then show ?case
    by (auto split: if_splits simp: nth_Cons' dest!: Cons.IH)
qed simp

lemma find_slot_at: "find_slot q ss 0 = Some i \<Longrightarrow> i < length ss \<and> sl_seq (ss ! i) = q"
  using find_slot_Some [of q ss 0 i] by simp

lemma find_slot_None: "find_slot q ss k = None \<longleftrightarrow> (\<forall>s \<in> set ss. sl_seq s \<noteq> q)"
  by (induction ss arbitrary: k) auto

subsection \<open>Lemmas: the invariant\<close>

lemma ring_invD:
  assumes "ring_inv st"
  shows "shape_ok (the_ring st)" "0 < hdr_next_seq (the_ring st)"
    "i < length (fr_slots (the_ring st)) \<Longrightarrow> unat (sl_refcnt (fr_slots (the_ring st) ! i)) = holders i (writers st) (readers st)"
    "g \<in> set (writers st) \<Longrightarrow> writer_ok (the_ring st) g"
    "distinct (map (slot_at \<circ> wg_slot_off) (writers st))"
    "h \<in> set (readers st) \<Longrightarrow> reader_ok (the_ring st) h"
    "i < length (fr_slots (the_ring st)) \<Longrightarrow> slot_ok (the_ring st) (published st) i"
    "slots_distinct (the_ring st)" "distinct (map wg_seq (writers st))"
    "q \<in> fst ` set (published st) \<Longrightarrow> q < hdr_next_seq (the_ring st)"
    "g \<in> set (writers st) \<Longrightarrow> wg_seq g \<notin> fst ` set (published st)"
  using assms by (auto simp: ring_inv_def Let_def)

lemma ring_invI:
  assumes "shape_ok r" and "0 < hdr_next_seq r"
    and "\<And>i. i < length (fr_slots r) \<Longrightarrow> unat (sl_refcnt (fr_slots r ! i)) = holders i ws rs"
    and "\<And>g. g \<in> set ws \<Longrightarrow> writer_ok r g"
    and "distinct (map (slot_at \<circ> wg_slot_off) ws)"
    and "\<And>h. h \<in> set rs \<Longrightarrow> reader_ok r h"
    and "\<And>i. i < length (fr_slots r) \<Longrightarrow> slot_ok r log i"
    and "slots_distinct r" and "distinct (map wg_seq ws)"
    and "\<And>q. q \<in> fst ` set log \<Longrightarrow> q < hdr_next_seq r"
    and "\<And>g. g \<in> set ws \<Longrightarrow> wg_seq g \<notin> fst ` set log"
  shows "ring_inv \<lparr> the_ring = r, writers = ws, readers = rs, published = log \<rparr>"
  unfolding ring_inv_def Let_def using assms by simp

lemma holders_zero:
  "holders i ws rs = 0 \<Longrightarrow>
     (\<forall>g \<in> set ws. slot_at (wg_slot_off g) \<noteq> i) \<and> (\<forall>h \<in> set rs. unat (rg_slot_index h) \<noteq> i)"
  by (auto simp: holders_def filter_empty_conv)

text \<open>A slot with a live writer publishes nothing, so it has no readers.\<close>

lemma writer_no_reader:
  assumes "ring_inv st" "g \<in> set (writers st)" "h \<in> set (readers st)"
  shows "unat (rg_slot_index h) \<noteq> slot_at (wg_slot_off g)"
  using ring_invD(4) [OF assms(1,2)] ring_invD(6) [OF assms(1,3)]
  by (auto simp: writer_ok_def reader_ok_def Let_def)

lemma set_remove_nth: "set (remove_nth k xs) \<subseteq> set xs"
  by (auto simp: remove_nth_def dest: in_set_takeD in_set_dropD)

lemma remove_nth_split:
  assumes "k < length xs"
  obtains ys zs where "xs = ys @ xs ! k # zs" "remove_nth k xs = ys @ zs"
  using id_take_nth_drop [OF assms] that by (auto simp: remove_nth_def)

text \<open>A store to a slot that nobody holds.\<close>

lemma acquire_inv:
  assumes inv: "ring_inv st" and en: "hdr_next_seq (the_ring st) \<noteq> - 1"
  shows "ring_inv (ring_step (AcquireWrite len ts) st)"
proof -
  let ?r = "the_ring st"
  obtain res r' where acq: "acquire_write len ts ?r = (res, r')" by fastforce
  show ?thesis
  proof (cases res)
    case (Inl e)
    with acq have "r' = ?r" by (auto simp: acquire_write_def Let_def split: if_splits option.splits)
    then show ?thesis using inv by (simp add: acq Inl)
  next
    case (Inr g)
    with acq obtain i where len: "len \<le> fr_slot_bytes ?r"
      and i: "choose_slot (fr_slots ?r) 0 None (- 1) = Some i"
      and r': "r' = update_slot i (\<lambda>s. s\<lparr> sl_seq := 0, sl_refcnt := 1, sl_ts_us := ts, sl_len := len \<rparr>)
                      (?r\<lparr> hdr_next_seq := hdr_next_seq ?r + 1 \<rparr>)"
      and g: "g = \<lparr> wg_slot_index = word_of_nat i, wg_payload_off = payload_off ?r i,
                    wg_slot_off = slot_off i, wg_len = len, wg_seq = hdr_next_seq ?r \<rparr>"
      by (auto simp: acquire_write_def Let_def split: if_splits option.splits)
    note idle = choose_slot_idle [OF i]
    then have h0: "holders i (writers st) (readers st) = 0" using ring_invD(3) [OF inv, of i] by simp
    note free = holders_zero [OF h0]
    have "hdr_next_seq ?r < - 1" using en word_order.not_eq_extremum by blast
    then have "unat (hdr_next_seq ?r + 1) = Suc (unat (hdr_next_seq ?r))" by (rule unat_Suc_less)
    then have lt: "hdr_next_seq ?r < hdr_next_seq ?r + 1" by (simp add: word_less_nat_alt)
    have st': "ring_step (AcquireWrite len ts) st =
        \<lparr> the_ring = r', writers = writers st @ [g], readers = readers st, published = published st \<rparr>"
      by (simp add: acq Inr)
    have w: "writer_ok r' x" if "x \<in> set (writers st)" for x
      using ring_invD(4) [OF inv that] free that lt by (auto simp: writer_ok_def Let_def r')
    have wg: "writer_ok r' g"
      using idle len lt ring_invD(2) [OF inv] by (simp add: writer_ok_def r' g)
    have rd: "reader_ok r' x" if "x \<in> set (readers st)" for x
      using ring_invD(6) [OF inv that] free that by (auto simp: reader_ok_def Let_def r')
    have sl: "slot_ok r' (published st) j" if "j < length (fr_slots r')" for j
      using ring_invD(7) [OF inv, of j] that lt by (auto simp: slot_ok_def Let_def r')
    have sd: "slots_distinct r'"
      using ring_invD(8) [OF inv] by (auto simp: slots_distinct_def r')
    have rc: "unat (sl_refcnt (fr_slots r' ! j)) = holders j (writers st @ [g]) (readers st)"
      if "j < length (fr_slots r')" for j
      using ring_invD(3) [OF inv, of j] that h0 by (auto simp: holders_def r' g)
    have ws: "x < hdr_next_seq ?r" if "x \<in> wg_seq ` set (writers st)" for x
      using ring_invD(4) [OF inv] that by (auto simp: writer_ok_def Let_def)
    have new: "hdr_next_seq ?r \<notin> wg_seq ` set (writers st)" "hdr_next_seq ?r \<notin> fst ` set (published st)"
      using ws ring_invD(10) [OF inv] by blast+
    show ?thesis
      unfolding st'
    proof (rule ring_invI)
      show "shape_ok r'" using ring_invD(1) [OF inv] by (simp add: r')
      show "0 < hdr_next_seq r'" using ring_invD(2) [OF inv] lt by (simp add: r')
      show "distinct (map (slot_at \<circ> wg_slot_off) (writers st @ [g]))"
        using ring_invD(5) [OF inv] free by (auto simp: g)
      show "distinct (map wg_seq (writers st @ [g]))"
        using ring_invD(9) [OF inv] new(1) by (auto simp: g)
      show "q < hdr_next_seq r'" if "q \<in> fst ` set (published st)" for q
        using ring_invD(10) [OF inv that] lt by (simp add: r')
      show "wg_seq x \<notin> fst ` set (published st)" if "x \<in> set (writers st @ [g])" for x
        using ring_invD(11) [OF inv, of x] that new(2) by (cases "x = g") (simp_all add: g)
      show "writer_ok r' x" if "x \<in> set (writers st @ [g])" for x
        using that w wg by auto
    qed (use rd sl sd rc in auto)
  qed
qed

lemma write_inv:
  assumes inv: "ring_inv st" and k: "k < length (writers st)"
  shows "ring_inv (ring_step (Write k data) st)"
proof -
  let ?r = "the_ring st" and ?g = "writers st ! k"
  let ?i = "slot_at (wg_slot_off ?g)" and ?r' = "copy_bytes (wg_payload_off ?g) data ?r"
  have gk: "?g \<in> set (writers st)" using k by simp
  note g = ring_invD(4) [OF inv gk, unfolded writer_ok_def Let_def]
  show ?thesis
  proof (cases "length data = unat (wg_len ?g)")
    case False
    then show ?thesis using inv by (simp add: guard_write_def)
  next
    case True
    have d: "length data \<le> unat (fr_slot_bytes ?r)"
      using g True by (simp add: word_le_nat_alt)
    have c: "unat (fr_slot_count ?r) = length (fr_slots ?r)"
      using ring_invD(1) [OF inv] by (simp add: shape_ok_def)
    have i: "?i < unat (fr_slot_count ?r)" using g by (simp add: c)
    have off: "wg_payload_off ?g = payload_off ?r ?i" using g by simp
    have sl: "slot_ok ?r' (published st) j" if "j < length (fr_slots ?r')" for j
    proof (cases "j = ?i")
      case True
      then show ?thesis using g by (simp add: slot_ok_def)
    next
      case False
      then show ?thesis
        using ring_invD(7) [OF inv, of j] that g
          bytes_at_other [OF ring_invD(1) [OF inv] i d, of j "unat (sl_len (fr_slots ?r ! j))"]
        by (auto simp: slot_ok_def Let_def off c word_le_nat_alt)
    qed
    have "ring_step (Write k data) st =
        \<lparr> the_ring = ?r', writers = writers st, readers = readers st, published = published st \<rparr>"
      by (simp add: guard_write_def True)
    moreover have "ring_inv \<dots>"
    proof (rule ring_invI)
      show "shape_ok ?r'" unfolding off by (rule copy_bytes_shape [OF ring_invD(1) [OF inv] i d])
    qed (use sl ring_invD [OF inv] in \<open>auto simp: writer_ok_def reader_ok_def slots_distinct_def\<close>)
    ultimately show ?thesis by simp
  qed
qed

text \<open>What is known about a live writer's slot, with the writer singled out.\<close>

lemma writer_slot:
  assumes inv: "ring_inv st" and k: "k < length (writers st)"
  obtains ys zs i where "writers st = ys @ writers st ! k # zs" "remove_nth k (writers st) = ys @ zs"
    "i = slot_at (wg_slot_off (writers st ! k))" "i < length (fr_slots (the_ring st))"
    "\<forall>g \<in> set (ys @ zs). slot_at (wg_slot_off g) \<noteq> i \<and> wg_seq g \<noteq> wg_seq (writers st ! k)"
    "\<forall>h \<in> set (readers st). unat (rg_slot_index h) \<noteq> i"
    "holders i (ys @ zs) (readers st) = 0"
    "\<And>j. j \<noteq> i \<Longrightarrow> holders j (ys @ zs) (readers st) = holders j (writers st) (readers st)"
proof -
  obtain ys zs where s: "writers st = ys @ writers st ! k # zs" "remove_nth k (writers st) = ys @ zs"
    by (rule remove_nth_split [OF k])
  define g where "g = writers st ! k"
  define i where "i = slot_at (wg_slot_off g)"
  have gk: "g \<in> set (writers st)" using k by (simp add: g_def)
  have sg: "writers st = ys @ g # zs" using s(1) by (simp add: g_def)
  have lt: "i < length (fr_slots (the_ring st))"
    using ring_invD(4) [OF inv gk] by (simp add: writer_ok_def Let_def i_def)
  have o: "\<forall>x \<in> set (ys @ zs). slot_at (wg_slot_off x) \<noteq> i \<and> wg_seq x \<noteq> wg_seq g"
    using ring_invD(5,9) [OF inv] unfolding sg i_def by (auto simp: image_iff)
  have r: "\<forall>h \<in> set (readers st). unat (rg_slot_index h) \<noteq> i"
    using writer_no_reader [OF inv gk] by (simp add: i_def)
  have "holders i (ys @ zs) (readers st) = 0"
    using o r by (simp add: holders_def filter_empty_conv)
  moreover have "holders j (ys @ zs) (readers st) = holders j (writers st) (readers st)" if "j \<noteq> i" for j
    using that unfolding sg by (simp add: holders_def i_def)
  ultimately show ?thesis using that [of ys zs i] s lt o r by (simp add: g_def i_def)
qed

lemma commit_inv:
  assumes inv: "ring_inv st" and k: "k < length (writers st)"
  shows "ring_inv (ring_step (Commit k) st)"
proof -
  define r where "r = the_ring st"
  define g where "g = writers st ! k"
  obtain ys zs i where ws: "writers st = ys @ g # zs" "remove_nth k (writers st) = ys @ zs"
    and i: "i = slot_at (wg_slot_off g)" "i < length (fr_slots r)"
    and o: "\<forall>x \<in> set (ys @ zs). slot_at (wg_slot_off x) \<noteq> i \<and> wg_seq x \<noteq> wg_seq g"
    and rd: "\<forall>h \<in> set (readers st). unat (rg_slot_index h) \<noteq> i"
    and h: "holders i (ys @ zs) (readers st) = 0"
      "\<And>j. j \<noteq> i \<Longrightarrow> holders j (ys @ zs) (readers st) = holders j (writers st) (readers st)"
    using writer_slot [OF inv k] unfolding g_def r_def by metis
  have gk: "g \<in> set (writers st)" by (simp add: ws)
  note D = ring_invD [OF inv, folded r_def]
  note wg = D(4) [OF gk, unfolded writer_ok_def Let_def, folded i(1)]
  define r' where "r' = update_slot i (\<lambda>s. s\<lparr> sl_seq := wg_seq g, sl_refcnt := 0 \<rparr>) r"
  define log where "log = (wg_seq g, bytes_at r (wg_payload_off g) (unat (wg_len g)), sl_ts_us (fr_slots r ! i))
      # published st"
  have "snd (commit g r) = r'"
    by (simp add: commit_def commit_refcnt_def commit_seq_def r'_def update_slot_def i(1) [symmetric] i(2))
  then have st': "ring_step (Commit k) st =
      \<lparr> the_ring = r', writers = ys @ zs, readers = readers st, published = log \<rparr>"
    by (simp add: Let_def g_def [symmetric] r_def [symmetric] ws(2) log_def i(1))
  have fresh: "sl_seq (fr_slots r ! j) \<noteq> wg_seq g" if "j < length (fr_slots r)" for j
    using D(7) [OF that] D(11) [OF gk] wg by (force simp: slot_ok_def Let_def dest: map_of_SomeD)
  show ?thesis
    unfolding st'
  proof (rule ring_invI)
    show "unat (sl_refcnt (fr_slots r' ! j)) = holders j (ys @ zs) (readers st)"
      if "j < length (fr_slots r')" for j
      using that h D(3) [of j] by (auto simp: r'_def)
    show "writer_ok r' x" if "x \<in> set (ys @ zs)" for x
      using D(4) [of x] that o by (auto simp: writer_ok_def Let_def r'_def ws)
    show "reader_ok r' x" if "x \<in> set (readers st)" for x
      using D(6) [OF that] that rd by (auto simp: reader_ok_def Let_def r'_def)
    show "slot_ok r' log j" if "j < length (fr_slots r')" for j
      using that D(7) [of j] wg fresh [of j] by (auto simp: slot_ok_def Let_def r'_def log_def)
    show "slots_distinct r'"
      using D(8) fresh i(2) unfolding slots_distinct_def r'_def by (simp, metis)
    show "q < hdr_next_seq r'" if "q \<in> fst ` set log" for q
      using that D(10) [of q] wg by (auto simp: log_def r'_def)
    show "wg_seq x \<notin> fst ` set log" if "x \<in> set (ys @ zs)" for x
      using that D(11) [of x] o by (auto simp: log_def ws)
  qed (use D(1,2,5,9) in \<open>auto simp: r'_def ws\<close>)
qed

lemma drop_write_inv:
  assumes inv: "ring_inv st" and k: "k < length (writers st)"
  shows "ring_inv (ring_step (DropWrite k) st)"
proof -
  define r where "r = the_ring st"
  define g where "g = writers st ! k"
  obtain ys zs i where ws: "writers st = ys @ g # zs" "remove_nth k (writers st) = ys @ zs"
    and i: "i = slot_at (wg_slot_off g)" "i < length (fr_slots r)"
    and o: "\<forall>x \<in> set (ys @ zs). slot_at (wg_slot_off x) \<noteq> i \<and> wg_seq x \<noteq> wg_seq g"
    and rd: "\<forall>h \<in> set (readers st). unat (rg_slot_index h) \<noteq> i"
    and h: "holders i (ys @ zs) (readers st) = 0"
      "\<And>j. j \<noteq> i \<Longrightarrow> holders j (ys @ zs) (readers st) = holders j (writers st) (readers st)"
    using writer_slot [OF inv k] unfolding g_def r_def by metis
  note D = ring_invD [OF inv, folded r_def]
  define r' where "r' = update_slot i (\<lambda>s. s\<lparr> sl_seq := 0, sl_len := 0, sl_ts_us := 0, sl_refcnt := 0 \<rparr>) r"
  have st': "ring_step (DropWrite k) st =
      \<lparr> the_ring = r', writers = ys @ zs, readers = readers st, published = published st \<rparr>"
    by (simp add: drop_write_def g_def [symmetric] r_def [symmetric] ws(2) r'_def i(1))
  show ?thesis
    unfolding st'
  proof (rule ring_invI)
    show "unat (sl_refcnt (fr_slots r' ! j)) = holders j (ys @ zs) (readers st)"
      if "j < length (fr_slots r')" for j
      using that h D(3) [of j] by (auto simp: r'_def)
    show "writer_ok r' x" if "x \<in> set (ys @ zs)" for x
      using D(4) [of x] that o by (auto simp: writer_ok_def Let_def r'_def ws)
    show "reader_ok r' x" if "x \<in> set (readers st)" for x
      using D(6) [OF that] that rd by (auto simp: reader_ok_def Let_def r'_def)
    show "slot_ok r' (published st) j" if "j < length (fr_slots r')" for j
      using that D(7) [of j] by (auto simp: slot_ok_def Let_def r'_def)
    show "slots_distinct r'" using D(8) by (auto simp: slots_distinct_def r'_def)
    show "wg_seq x \<notin> fst ` set (published st)" if "x \<in> set (ys @ zs)" for x
      using that D(11) [of x] by (auto simp: ws)
  qed (use D(1,2,5,9,10) in \<open>auto simp: r'_def ws\<close>)
qed

text \<open>A store that changes only the reader count of a slot.\<close>

lemma refcnt_only:
  assumes "\<And>s. \<exists>n. f s = s\<lparr> sl_refcnt := n \<rparr>"
  shows "writer_ok (update_slot i f r) g = writer_ok r g"
    and "reader_ok (update_slot i f r) h = reader_ok r h"
    and "j < length (fr_slots r) \<Longrightarrow> slot_ok (update_slot i f r) log j = slot_ok r log j"
    and "slots_distinct (update_slot i f r) = slots_distinct r"
proof -
  have f: "sl_seq (f s) = sl_seq s" "sl_len (f s) = sl_len s" "sl_ts_us (f s) = sl_ts_us s" for s
    using assms [of s] by auto
  have same: "sl_seq (fr_slots (update_slot i f r) ! j) = sl_seq (fr_slots r ! j)"
      "sl_len (fr_slots (update_slot i f r) ! j) = sl_len (fr_slots r ! j)"
      "sl_ts_us (fr_slots (update_slot i f r) ! j) = sl_ts_us (fr_slots r ! j)"
    if "j < length (fr_slots r)" for j
    using that by (simp_all add: f)
  show "writer_ok (update_slot i f r) g = writer_ok r g"
    by (auto simp: writer_ok_def Let_def same simp del: update_slot_nth)
  show "reader_ok (update_slot i f r) h = reader_ok r h"
    by (auto simp: reader_ok_def Let_def same simp del: update_slot_nth)
  show "j < length (fr_slots r) \<Longrightarrow> slot_ok (update_slot i f r) log j = slot_ok r log j"
    by (simp add: slot_ok_def Let_def same del: update_slot_nth)
  show "slots_distinct (update_slot i f r) = slots_distinct r"
    by (simp add: slots_distinct_def same del: update_slot_nth)
qed

lemma refcnt_inv:
  assumes inv: "ring_inv st" and f: "\<And>s. \<exists>n. f s = s\<lparr> sl_refcnt := n \<rparr>"
    and rs: "\<And>h. h \<in> set rs \<Longrightarrow> reader_ok (the_ring st) h"
    and rc: "\<And>j. j < length (fr_slots (the_ring st)) \<Longrightarrow>
      unat (sl_refcnt (fr_slots (update_slot i f (the_ring st)) ! j)) = holders j (writers st) rs"
  shows "ring_inv \<lparr> the_ring = update_slot i f (the_ring st), writers = writers st, readers = rs,
    published = published st \<rparr>"
  using rs rc ring_invD [OF inv]
  by (intro ring_invI) (simp_all add: refcnt_only [OF f] del: update_slot_nth)

lemma read_inv:
  assumes inv: "ring_inv st" and q: "q \<noteq> 0" and room: "length (readers st) < 2 ^ 32 - 1"
  shows "ring_inv (ring_step (Read q) st)"
proof (cases "find_slot q (fr_slots (the_ring st)) 0")
  case None
  then show ?thesis using inv by (simp add: ring_read_def)
next
  case (Some i)
  define r where "r = the_ring st"
  note D = ring_invD [OF inv, folded r_def]
  have i: "i < length (fr_slots r)" "sl_seq (fr_slots r ! i) = q"
    using find_slot_at [OF Some] by (auto simp: r_def)
  have "unat (fr_slot_count r) < 2 ^ 32" using unsigned_less [of "fr_slot_count r"] by simp
  then have idx: "unat (word_of_nat i :: u32) = i"
    using i(1) D(1) by (simp add: unat_of_nat shape_ok_def)
  let ?f = "\<lambda>s. s\<lparr> sl_refcnt := sl_refcnt s + 1 \<rparr>"
  define g where "g = \<lparr> rg_slot_index = word_of_nat i, rg_payload_off = payload_off r i,
     rg_len = sl_len (fr_slots r ! i), rg_seq = q, rg_ts_us = sl_ts_us (fr_slots r ! i) \<rparr>"
  have st': "ring_step (Read q) st = \<lparr> the_ring = update_slot i ?f r, writers = writers st,
      readers = readers st @ [g], published = published st \<rparr>"
    using i by (simp add: ring_read_def Some [folded r_def] Let_def g_def r_def [symmetric])
  have now: "filter (\<lambda>x. slot_at (wg_slot_off x) = i) (writers st) = []"
    using D(4) i q by (auto simp: filter_empty_conv writer_ok_def Let_def)
  have "holders i (writers st) (readers st) \<le> length (readers st)" by (simp add: holders_def now)
  then have "unat (sl_refcnt (fr_slots r ! i)) < 2 ^ 32 - 1" using D(3) [OF i(1)] room by simp
  then have up: "unat (sl_refcnt (fr_slots r ! i) + 1) = Suc (unat (sl_refcnt (fr_slots r ! i)))"
    by (intro unat_Suc_less [of _ "- 1"]) (simp add: word_less_nat_alt unsigned_minus_1_eq_mask mask_eq_exp_minus_1)
  show ?thesis
    unfolding st' r_def
  proof (rule refcnt_inv [OF inv])
    show "reader_ok (the_ring st) h" if "h \<in> set (readers st @ [g])" for h
      using that D(6) i q idx by (auto simp: reader_ok_def Let_def g_def r_def)
    show "unat (sl_refcnt (fr_slots (update_slot i ?f (the_ring st)) ! j)) = holders j (writers st) (readers st @ [g])"
      if "j < length (fr_slots (the_ring st))" for j
      using that D(3) [of j] up idx by (auto simp: holders_def g_def r_def)
  qed auto
qed

lemma drop_read_inv:
  assumes inv: "ring_inv st" and k: "k < length (readers st)"
  shows "ring_inv (ring_step (DropRead k) st)"
proof -
  define r where "r = the_ring st"
  define g where "g = readers st ! k"
  define i where "i = unat (rg_slot_index g)"
  obtain ys zs where rs: "readers st = ys @ g # zs" "remove_nth k (readers st) = ys @ zs"
    using remove_nth_split [OF k] unfolding g_def by metis
  note D = ring_invD [OF inv, folded r_def]
  have i: "i < length (fr_slots r)"
    using D(6) [of g] by (simp add: rs reader_ok_def Let_def i_def)
  let ?f = "\<lambda>s. s\<lparr> sl_refcnt := sl_refcnt s - 1 \<rparr>"
  have st': "ring_step (DropRead k) st = \<lparr> the_ring = update_slot i ?f r, writers = writers st,
      readers = ys @ zs, published = published st \<rparr>"
    by (simp add: drop_read_def g_def [symmetric] r_def [symmetric] rs(2) i_def)
  have pos: "unat (sl_refcnt (fr_slots r ! i)) = Suc (holders i (writers st) (ys @ zs))"
    using D(3) [OF i] by (simp add: rs holders_def i_def)
  then have down: "unat (sl_refcnt (fr_slots r ! i) - 1) = holders i (writers st) (ys @ zs)"
    by (simp add: unat_sub_if')
  show ?thesis
    unfolding st' r_def
  proof (rule refcnt_inv [OF inv])
    show "reader_ok (the_ring st) h" if "h \<in> set (ys @ zs)" for h
      using that D(6) [of h] by (auto simp: rs r_def)
    show "unat (sl_refcnt (fr_slots (update_slot i ?f (the_ring st)) ! j)) = holders j (writers st) (ys @ zs)"
      if "j < length (fr_slots (the_ring st))" for j
      using that D(3) [of j] down by (auto simp: holders_def rs i_def r_def)
  qed auto
qed

lemma create_inv:
  assumes "ring_create path sb sc = Inr r"
  shows "ring_inv \<lparr> the_ring = r, writers = [], readers = [], published = [] \<rparr>"
  using assms
  by (intro ring_invI)
    (auto simp: ring_create_def shape_ok_def holders_def slot_ok_def slots_distinct_def empty_slot_def
      split: if_splits)

lemma ring_inv_reach: "ring_reach st \<Longrightarrow> ring_inv st"
proof (induction rule: ring_reach.induct)
  case (created path sb sc r)
  then show ?case by (rule create_inv)
next
  case (step st op)
  then show ?case
    by (cases op) (auto intro: acquire_inv write_inv commit_inv drop_write_inv read_inv drop_read_inv
        simp del: ring_step.simps)
qed

lemma reader_sees_published:
  assumes "ring_inv st" and "h \<in> set (readers st)"
  shows "map_of (published st) (rg_seq h) = Some (to_vec h (the_ring st), rg_ts_us h)"
proof -
  have r: "reader_ok (the_ring st) h" by (rule ring_invD(6) [OF assms])
  then have "slot_ok (the_ring st) (published st) (unat (rg_slot_index h))"
    by (intro ring_invD(7) [OF assms(1)]) (simp add: reader_ok_def Let_def)
  with r show ?thesis by (auto simp: reader_ok_def slot_ok_def Let_def to_vec_def)
qed

lemma demo_ring_reach: "n \<noteq> 0 \<Longrightarrow> ring_reach (demo_ring n)"
  unfolding demo_ring_def
  by (rule ring_reach.created [of "''ring''" 64 n]) (simp add: ring_create_def)

lemma enabled_read: "readers st = [] \<Longrightarrow> q \<noteq> 0 \<Longrightarrow> ring_enabled (Read q) st"
  by simp

lemma reach_run:
  "ring_reach st \<Longrightarrow> ring_enabled a st \<Longrightarrow> ring_enabled b (ring_step a st) \<Longrightarrow>
   ring_enabled c (ring_step b (ring_step a st)) \<Longrightarrow>
   ring_enabled d (ring_step c (ring_step b (ring_step a st))) \<Longrightarrow>
   ring_reach (ring_step d (ring_step c (ring_step b (ring_step a st))))"
  by (intro ring_reach.step)

text \<open>The state a publisher leaves behind: acquire, write, commit.\<close>

lemma publish_published:
  assumes inv: "ring_inv st" and acq: "acquire_write len ts (the_ring st) = (Inr g, r1)"
    and d: "length data = unat len"
  defines "st3 \<equiv> ring_step (Commit (length (writers st)))
      (ring_step (Write (length (writers st)) data) (ring_step (AcquireWrite len ts) st))"
  assumes en: "hdr_next_seq (the_ring st) \<noteq> - 1"
  shows "the_ring st3 = snd (commit g (snd (guard_write g data r1)))"
    and "published st3 = (wg_seq g, data, ts) # published st"
    and "ring_inv st3" and "readers st3 = readers st"
proof -
  define k where "k = length (writers st)"
  define st1 where "st1 = ring_step (AcquireWrite len ts) st"
  define st2 where "st2 = ring_step (Write k data) st1"
  have st1: "st1 = st\<lparr> the_ring := r1, writers := writers st @ [g] \<rparr>" by (simp add: st1_def acq)
  have i1: "ring_inv st1" unfolding st1_def by (rule acquire_inv [OF inv en])
  have k1: "k < length (writers st1)" "writers st1 ! k = g" by (simp_all add: st1 k_def)
  have i2: "ring_inv st2" unfolding st2_def by (rule write_inv [OF i1 k1(1)])
  have g: "wg_len g = len" "sl_ts_us (fr_slots r1 ! slot_at (wg_slot_off g)) = ts"
    using acq choose_slot_idle [of "the_ring st" "- 1"]
    by (auto simp: acquire_write_def Let_def update_slot_def split: if_splits option.splits)
  let ?r2 = "copy_bytes (wg_payload_off g) data r1"
  have st2: "st2 = st1\<lparr> the_ring := ?r2 \<rparr>"
    by (simp add: st2_def k1 guard_write_def g d st1 k_def)
  have st3: "st3 = ring_step (Commit k) st2" by (simp add: st3_def st2_def st1_def k_def)
  have k2: "k < length (writers st2)" "writers st2 ! k = g" "writers st1 ! k = g"
    using k1 by (simp_all add: st2)
  show "the_ring st3 = snd (commit g (snd (guard_write g data r1)))"
    by (simp add: st3 Let_def k2 st2 guard_write_def g d)
  show "ring_inv st3" unfolding st3 by (rule commit_inv [OF i2 k2(1)])
  show "readers st3 = readers st" by (simp add: st3 Let_def st2 st1)
  have w: "writer_ok r1 g" using ring_invD(4) [OF i1, of g] k1 by (simp add: st1)
  have sh: "shape_ok r1" using ring_invD(1) [OF i1] by (simp add: st1)
  have "bytes_at ?r2 (wg_payload_off g) (length data) = data"
    using bytes_at_same [OF sh, of "slot_at (wg_slot_off g)" data] w sh g d
    by (simp add: writer_ok_def Let_def shape_ok_def word_le_nat_alt)
  then show "published st3 = (wg_seq g, data, ts) # published st"
    by (simp add: st3 Let_def k2 st2 st1 g d k_def)
qed

subsection \<open>Properties\<close>



text \<open>
  The producer's choice: in every reachable state, for a payload that fits, acquiring a slot
  fails exactly when every slot is held by a reader or writer; otherwise the slot taken is held by
  nobody and is an empty one or, if none is empty, the one with the oldest published frame.
\<close>
theorem acquire_takes_oldest_idle:
  assumes "ring_reach st" and "len \<le> fr_slot_bytes (the_ring st)"
  shows "case fst (acquire_write len ts (the_ring st)) of
      Inl e \<Rightarrow> e = RingExhausted \<and> list_all (\<lambda>s. sl_refcnt s \<noteq> 0) (fr_slots (the_ring st))
    | Inr g \<Rightarrow>
        (let i = slot_at (wg_slot_off g); ss = fr_slots (the_ring st)
         in i < length ss \<and> holders i (writers st) (readers st) = 0 \<and>
            list_all (\<lambda>s. sl_refcnt s = 0 \<longrightarrow> sl_seq (ss ! i) \<le> sl_seq s) ss)"
proof -
  let ?ss = "fr_slots (the_ring st)"
  have inv: "ring_inv st" by (rule ring_inv_reach [OF assms(1)])
  have top: "sl_seq s \<noteq> - 1" if s: "s \<in> set ?ss" for s
  proof -
    obtain i where "i < length ?ss" "s = ?ss ! i" using s by (auto simp: in_set_conv_nth)
    then have "sl_seq s = 0 \<or> sl_seq s < hdr_next_seq (the_ring st)"
      using ring_invD(7) [OF inv, of i] by (auto simp: slot_ok_def Let_def)
    then show ?thesis using word_order.extremum_strict by fastforce
  qed
  from choose_slot_spec [of ?ss 0 None "- 1"] show ?thesis
  proof (elim disjE exE conjE)
    assume "choose_slot ?ss 0 None (- 1) = None" "\<forall>s \<in> set ?ss. sl_refcnt s = 0 \<longrightarrow> - 1 \<le> sl_seq s"
    then show ?thesis using assms(2) top
      by (auto simp: acquire_write_def list_all_iff word_order.extremum_unique)
  next
    fix j assume j: "j < length ?ss" "choose_slot ?ss 0 None (- 1) = Some (0 + j)" "sl_refcnt (?ss ! j) = 0"
      "\<forall>s \<in> set ?ss. sl_refcnt s = 0 \<longrightarrow> sl_seq (?ss ! j) \<le> sl_seq s"
    then have "holders j (writers st) (readers st) = 0" using ring_invD(3) [OF inv j(1)] by simp
    with j assms(2) show ?thesis
      by (auto simp: acquire_write_def Let_def list_all_iff)
  qed
qed

theorem acquire_takes_oldest_idle_witness:
  "case fst (acquire_write 2 50 (the_ring (demo_ring 2))) of
      Inl e \<Rightarrow> False | Inr g \<Rightarrow> slot_at (wg_slot_off g) < 2"
  using acquire_takes_oldest_idle [OF demo_ring_reach, of 2 2 50]
  by (auto simp: demo_ring_def ring_create_def empty_slot_def list_all_iff Let_def split: sum.splits)

text \<open>
  Publishing round trip: when a slot was acquired for \<open>len\<close> bytes, writing \<open>len\<close> bytes and
  committing makes the frame readable under the returned sequence number, and the reader gets
  exactly the bytes and the time stamp that were published.
\<close>
theorem publish_then_read:
  assumes "ring_reach st" and "hdr_next_seq (the_ring st) \<noteq> - 1"
    and "acquire_write len ts (the_ring st) = (Inr g, r1)" and "length data = unat len"
    and "length (readers st) < 2 ^ 32 - 1"
  shows "\<exists>r2 r3 h r4. guard_write g data r1 = (Inr (), r2) \<and> commit g r2 = (wg_seq g, r3) \<and>
    ring_read (wg_seq g) r3 = (Some h, r4) \<and> to_vec h r4 = data \<and> rg_ts_us h = ts"
proof -
  define r2 where "r2 = snd (guard_write g data r1)"
  define r3 where "r3 = snd (commit g r2)"
  define st3 where "st3 = ring_step (Commit (length (writers st)))
      (ring_step (Write (length (writers st)) data) (ring_step (AcquireWrite len ts) st))"
  have inv: "ring_inv st" by (rule ring_inv_reach [OF assms(1)])
  note pub = publish_published [OF inv assms(3,4,2), folded st3_def r2_def, folded r3_def]
  have i: "slot_at (wg_slot_off g) < length (fr_slots r1)" "wg_len g = len" "wg_seq g = hdr_next_seq (the_ring st)"
    using assms(3) choose_slot_idle [of "the_ring st" "- 1"]
    by (auto simp: acquire_write_def Let_def split: if_splits option.splits)
  have w: "guard_write g data r1 = (Inr (), r2)" using assms(4) i(2) by (simp add: r2_def guard_write_def)
  have sl: "slot_at (wg_slot_off g) < length (fr_slots r3)"
      "sl_seq (fr_slots r3 ! slot_at (wg_slot_off g)) = wg_seq g"
    using i w by (auto simp: r3_def r2_def guard_write_def commit_def commit_seq_def commit_refcnt_def split: if_splits)
  then have "find_slot (wg_seq g) (fr_slots r3) 0 \<noteq> None"
    using nth_mem [OF sl(1)] by (auto simp: find_slot_None)
  then obtain h r4 where rd: "ring_read (wg_seq g) r3 = (Some h, r4)"
    by (auto simp: ring_read_def Let_def)
  define st4 where "st4 = ring_step (Read (wg_seq g)) st3"
  have "wg_seq g \<noteq> 0" using ring_invD(2) [OF inv] i(3) by simp
  then have i4: "ring_inv st4" unfolding st4_def
    using read_inv [OF pub(3)] pub(4) assms(5) by simp
  have st4: "st4 = st3\<lparr> the_ring := r4, readers := readers st3 @ [h] \<rparr>"
    using rd by (simp add: st4_def pub(1))
  have q: "rg_seq h = wg_seq g" using rd by (auto simp: ring_read_def Let_def split: option.splits)
  have "map_of (published st4) (rg_seq h) = Some (to_vec h (the_ring st4), rg_ts_us h)"
    by (rule reader_sees_published [OF i4]) (simp add: st4)
  then have "to_vec h r4 = data" "rg_ts_us h = ts" using pub(2) by (simp_all add: st4 q)
  with w rd show ?thesis by (auto simp: r3_def commit_def)
qed

theorem publish_then_read_witness:
  "\<exists>g r1 r2 r3 h r4. acquire_write 2 42 (the_ring (demo_ring 1)) = (Inr g, r1) \<and>
     guard_write g [7, 9] r1 = (Inr (), r2) \<and> commit g r2 = (wg_seq g, r3) \<and>
     ring_read (wg_seq g) r3 = (Some h, r4) \<and> to_vec h r4 = [7, 9] \<and> rg_ts_us h = 42"
proof -
  have "\<not> isl (fst (acquire_write 2 42 (the_ring (demo_ring 1))))" by code_simp
  then obtain g r1 where a: "acquire_write 2 42 (the_ring (demo_ring 1)) = (Inr g, r1)"
    by (cases "acquire_write 2 42 (the_ring (demo_ring 1))"; cases "fst (acquire_write 2 42 (the_ring (demo_ring 1)))") auto
  have "hdr_next_seq (the_ring (demo_ring 1)) \<noteq> - 1" by code_simp
  from publish_then_read [OF demo_ring_reach this a, of "[7, 9]"] a show ?thesis
    by (auto simp: demo_ring_def)
qed

text \<open>
  The commit is not atomic for readers. It stores the sequence number and then sets the reader
  count to zero, both under the shared lock, so a read that runs between the two stores is
  counted and then forgotten: the guard is alive, the slot counts as idle and may be recycled
  under the reader, and dropping the guard later wraps the count around to \<open>2 ^ 32 - 1\<close>.
\<close>
theorem commit_forgets_reader:
  assumes "ring_reach st" and "g \<in> set (writers st)"
  shows "\<exists>h r2. ring_read (wg_seq g) (commit_seq g (the_ring st)) = (Some h, r2) \<and>
    (let i = unat (rg_slot_index h); r3 = commit_refcnt g r2
     in sl_seq (fr_slots r3 ! i) = rg_seq h \<and> sl_refcnt (fr_slots r3 ! i) = 0 \<and>
        sl_refcnt (fr_slots (drop_read h r3) ! i) = - 1)"
proof -
  have inv: "ring_inv st" by (rule ring_inv_reach [OF assms(1)])
  define r where "r = the_ring st"
  define i where "i = slot_at (wg_slot_off g)"
  note D = ring_invD [OF inv, folded r_def]
  note w = D(4) [OF assms(2), unfolded writer_ok_def Let_def, folded i_def]
  have only: "find_slot (wg_seq g) (fr_slots (commit_seq g r)) 0 = Some i"
  proof -
    have other: "sl_seq (fr_slots r ! j) \<noteq> wg_seq g" if "j < length (fr_slots r)" for j
      using D(7) [OF that] D(11) [OF assms(2)] w by (force simp: slot_ok_def Let_def dest: map_of_SomeD)
    have "sl_seq (fr_slots (commit_seq g r) ! i) = wg_seq g"
      using w by (simp add: commit_seq_def i_def)
    then have "find_slot (wg_seq g) (fr_slots (commit_seq g r)) 0 \<noteq> None"
      using w nth_mem [of i "fr_slots (commit_seq g r)"] by (auto simp: find_slot_None commit_seq_def)
    then obtain j where j: "find_slot (wg_seq g) (fr_slots (commit_seq g r)) 0 = Some j" by auto
    from find_slot_at [OF j] other [of j] have "j = i"
      by (auto simp: commit_seq_def i_def split: if_splits)
    with j show ?thesis by simp
  qed
  have "i < unat (fr_slot_count r)" using w D(1) by (simp add: shape_ok_def)
  moreover have "unat (fr_slot_count r) < 2 ^ 32" using unsigned_less [of "fr_slot_count r"] by simp
  ultimately have idx: "unat (word_of_nat i :: u32) = i" by (simp add: unat_of_nat)
  show ?thesis
    using only w unfolding r_def [symmetric]
    by (auto simp: ring_read_def Let_def idx commit_refcnt_def commit_seq_def drop_read_def i_def [symmetric])
qed

theorem commit_forgets_reader_witness:
  "let st = ring_step (AcquireWrite 2 42) (demo_ring 1); g = writers st ! 0
   in \<exists>h r2. ring_read (wg_seq g) (commit_seq g (the_ring st)) = (Some h, r2)"
proof -
  let ?st = "ring_step (AcquireWrite 2 42) (demo_ring 1)"
  have "ring_reach ?st" by (rule ring_reach.step [OF demo_ring_reach]) (simp, code_simp)
  moreover have "writers ?st ! 0 \<in> set (writers ?st)" by code_simp
  ultimately show ?thesis using commit_forgets_reader [of ?st "writers ?st ! 0"] by (auto simp: Let_def)
qed

end
