(* ===== verification/Broker_Wire.thy ===== *)
theory Broker_Wire
  imports Json
begin

text \<open>
  The wire between the broker and its MCP client: the envelopes and error codes of the broker
  (\<^verbatim>\<open>broker/src/protocol.rs\<close>), its binary topic framing, and the client's reader with its demultiplexer
  (\<^verbatim>\<open>mcp-server/src/broker_client.rs\<close>, \<^verbatim>\<open>error.rs\<close>). The bincode codec and the JSON parser are arguments.
\<close>

subsection \<open>Envelopes and error codes (protocol.rs)\<close>

record json_rpc_request =
  rq_jsonrpc :: string
  rq_id :: "json option"
  rq_method :: string
  rq_params :: "json option"

record json_rpc_error =
  je_code :: int
  je_message :: string
  je_data :: "json option"

record json_rpc_response =
  rs_jsonrpc :: string
  rs_id :: json
  rs_result :: "json option"
  rs_error :: "json_rpc_error option"

record server_event =
  se_jsonrpc :: string
  se_method :: string
  se_params :: json

datatype error_code =
    ParseError | InvalidRequest | MethodNotFound | InvalidParams | InternalError | SessionNotFound
  | TabNotFound | ContextNotFound | ElementStale | ElementNotActionable | NavigationFailed
  | TimeoutCode | ChromiumLaunchFailed | PermissionDenied | ProtocolErrorCode | BrokerUnavailableCode
  | SessionLimitExceeded

fun error_code_i64 :: "error_code \<Rightarrow> int" where
  "error_code_i64 ParseError = - 32700"
| "error_code_i64 InvalidRequest = - 32600"
| "error_code_i64 MethodNotFound = - 32601"
| "error_code_i64 InvalidParams = - 32602"
| "error_code_i64 InternalError = - 32603"
| "error_code_i64 SessionNotFound = - 32001"
| "error_code_i64 TabNotFound = - 32002"
| "error_code_i64 ContextNotFound = - 32003"
| "error_code_i64 ElementStale = - 32004"
| "error_code_i64 ElementNotActionable = - 32005"
| "error_code_i64 NavigationFailed = - 32006"
| "error_code_i64 TimeoutCode = - 32007"
| "error_code_i64 ChromiumLaunchFailed = - 32008"
| "error_code_i64 PermissionDenied = - 32009"
| "error_code_i64 ProtocolErrorCode = - 32010"
| "error_code_i64 BrokerUnavailableCode = - 32011"
| "error_code_i64 SessionLimitExceeded = - 32012"

definition response_ok :: "json \<Rightarrow> json \<Rightarrow> json_rpc_response" where
  "response_ok i result =
     \<lparr> rs_jsonrpc = ''2.0'', rs_id = i, rs_result = Some result, rs_error = None \<rparr>"

definition response_err :: "json \<Rightarrow> error_code \<Rightarrow> string \<Rightarrow> json option \<Rightarrow> json_rpc_response" where
  "response_err i code message data =
     \<lparr> rs_jsonrpc = ''2.0'', rs_id = i, rs_result = None,
       rs_error = Some \<lparr> je_code = error_code_i64 code, je_message = message, je_data = data \<rparr> \<rparr>"

subsection \<open>The binary topic (protocol.rs)\<close>

type_synonym f32 = "32 word"

record wire_frame_handle =
  wf_ring_path :: string
  wf_slot :: u32
  wf_slot_seq :: u64
  wf_offset :: u64
  wf_len :: u32
  wf_ts_us :: u64

record viewport =
  vp_offset_top :: f64
  vp_page_scale_factor :: f64
  vp_device_width :: f64
  vp_device_height :: f64
  vp_scroll_offset_x :: f64
  vp_scroll_offset_y :: f64
  vp_timestamp :: f64

record tile_rect =
  tr_tile_x :: u32
  tr_tile_y :: u32
  tr_x :: u32
  tr_y :: u32
  tr_w :: u32
  tr_h :: u32
  tr_prev_hash :: u64
  tr_next_hash :: u64

record ocr_entry =
  oe_x :: u32
  oe_y :: u32
  oe_w :: u32
  oe_h :: u32
  oe_text :: string
  oe_confidence :: f32

record vision_frame_event =
  vf_session_id :: string
  vf_tab_id :: string
  vf_ts_ms :: u64
  vf_frame_seq :: u64
  vf_captured_us :: u64
  vf_frame_handle :: wire_frame_handle
  vf_viewport :: viewport
  vf_changed_tiles :: "tile_rect list"
  vf_ocr_delta :: "ocr_entry list"
  vf_stability :: "f32 option"
  vf_state :: "string option"

definition BINARY_TOPIC_MAGIC :: u8 where "BINARY_TOPIC_MAGIC = 1"

datatype wire_frame = WireJson json_rpc_request | WireVisionFrame vision_frame_event

datatype wire_error = WireEmpty | MalformedBinary string | Bincode string | WireJsonError string

definition u32_to_le_bytes :: "u32 \<Rightarrow> u8 list" where
  "u32_to_le_bytes w =
     [word_of_nat (unat w mod 256), word_of_nat (unat w div 256 mod 256),
      word_of_nat (unat w div 65536 mod 256), word_of_nat (unat w div 16777216 mod 256)]"

definition u32_from_le_bytes :: "u8 \<Rightarrow> u8 \<Rightarrow> u8 \<Rightarrow> u8 \<Rightarrow> u32" where
  "u32_from_le_bytes b0 b1 b2 b3 =
     word_of_nat (unat b0 + 256 * unat b1 + 65536 * unat b2 + 16777216 * unat b3)"

text \<open>
  \<open>from_json\<close> parses a request, \<open>decode\<close> is bincode's decoder; both give an error message or a value.
\<close>

definition decode_line ::
  "(u8 list \<Rightarrow> string + json_rpc_request) \<Rightarrow> (u8 list \<Rightarrow> string + vision_frame_event) \<Rightarrow> u8 list
   \<Rightarrow> wire_error + wire_frame" where
  "decode_line from_json decode bytes =
     (case bytes of
        [] \<Rightarrow> Inl WireEmpty
      | first # _ \<Rightarrow>
          (if first = BINARY_TOPIC_MAGIC then
             (if length bytes < 5 then Inl (MalformedBinary ''line shorter than header'')
              else
                let len = unat (u32_from_le_bytes (bytes ! 1) (bytes ! 2) (bytes ! 3) (bytes ! 4))
                in if length bytes \<noteq> 5 + len then Inl (MalformedBinary ''declared length mismatch'')
                   else
                     (case decode (take len (drop 5 bytes)) of
                        Inl e \<Rightarrow> Inl (Bincode e)
                      | Inr ev \<Rightarrow> Inr (WireVisionFrame ev)))
           else
             (case from_json bytes of
                Inl e \<Rightarrow> Inl (WireJsonError e)
              | Inr req \<Rightarrow> Inr (WireJson req))))"

text \<open>
  \<open>encode\<close> is bincode's encoder: an optional error and the bytes written so far. The length is
  written into its slot after the payload.
\<close>

definition encode_vision_frame_into ::
  "(vision_frame_event \<Rightarrow> string option \<times> u8 list) \<Rightarrow> u8 list \<Rightarrow> vision_frame_event
   \<Rightarrow> wire_error option \<times> u8 list" where
  "encode_vision_frame_into encode scratch ev =
     (let scratch = scratch @ [BINARY_TOPIC_MAGIC];
          len_pos = length scratch;
          scratch = scratch @ [0, 0, 0, 0];
          payload_start = length scratch
      in case encode ev of
           (Some e, w) \<Rightarrow> (Some (Bincode e), scratch @ w)
         | (None, w) \<Rightarrow>
             (let scratch = scratch @ w;
                  payload_len = length scratch - payload_start;
                  len_bytes = u32_to_le_bytes (word_of_nat payload_len);
                  scratch = take len_pos scratch @ len_bytes @ drop (len_pos + 4) scratch
              in (None, scratch @ [10])))"

subsection \<open>The client's view of a frame (broker\_client.rs)\<close>

text \<open>A finite double as a JSON number; the library prints the others as null.\<close>

definition json_f64 :: "f64 \<Rightarrow> json" where
  "json_f64 b = (if f64_is_finite b then JFloat b else JNull)"

text \<open>The exact widening of a single to a double.\<close>

definition f32_to_f64 :: "f32 \<Rightarrow> f64" where
  "f32_to_f64 b =
     (let n = unat b; sign = n div 2 ^ 31; ex = n div 2 ^ 23 mod 256; m = n mod 2 ^ 23;
          body = (if ex = 255 then 2047 * 2 ^ 52 + m * 2 ^ 29
                  else if ex \<noteq> 0 then (ex + 896) * 2 ^ 52 + m * 2 ^ 29
                  else if m = 0 then 0
                  else let e = floor_log2 m in (e + 874) * 2 ^ 52 + (m - 2 ^ e) * 2 ^ (52 - e))
      in word_of_nat (sign * 2 ^ 63 + body))"

definition json_f32 :: "f32 \<Rightarrow> json" where
  "json_f32 b = json_f64 (f32_to_f64 b)"

definition json_u32 :: "u32 \<Rightarrow> json" where
  "json_u32 w = JPos (ucast w)"

definition tile_to_json :: "tile_rect \<Rightarrow> json" where
  "tile_to_json t =
     JObject [(''tile_x'', json_u32 (tr_tile_x t)), (''tile_y'', json_u32 (tr_tile_y t)),
       (''bbox'', JObject [(''x'', json_u32 (tr_x t)), (''y'', json_u32 (tr_y t)),
                           (''w'', json_u32 (tr_w t)), (''h'', json_u32 (tr_h t))]),
       (''prev_hash'', JPos (tr_prev_hash t)), (''next_hash'', JPos (tr_next_hash t))]"

definition ocr_to_json :: "ocr_entry \<Rightarrow> json" where
  "ocr_to_json e =
     JObject [(''bbox'', JObject [(''x'', json_u32 (oe_x e)), (''y'', json_u32 (oe_y e)),
                                  (''w'', json_u32 (oe_w e)), (''h'', json_u32 (oe_h e))]),
       (''text'', JString (oe_text e)), (''confidence'', json_f32 (oe_confidence e))]"

definition broker_vision_frame_to_json :: "vision_frame_event \<Rightarrow> json" where
  "broker_vision_frame_to_json ev =
     (let v = vf_viewport ev; f = vf_frame_handle ev
      in JObject
        ([(''topic'', JString ''vision.frame''),
          (''session_id'', JString (vf_session_id ev)),
          (''tab_id'', JString (vf_tab_id ev)),
          (''seq'', JPos (vf_frame_seq ev)),
          (''captured_us'', JPos (vf_captured_us ev)),
          (''viewport'', JObject
             [(''offset_top'', json_f64 (vp_offset_top v)),
              (''page_scale_factor'', json_f64 (vp_page_scale_factor v)),
              (''device_width'', json_f64 (vp_device_width v)),
              (''device_height'', json_f64 (vp_device_height v)),
              (''scroll_offset_x'', json_f64 (vp_scroll_offset_x v)),
              (''scroll_offset_y'', json_f64 (vp_scroll_offset_y v)),
              (''timestamp'', json_f64 (vp_timestamp v))]),
          (''frame'', JObject
             [(''shm_path'', JString (wf_ring_path f)), (''slot_seq'', JPos (wf_slot_seq f)),
              (''slot_index'', json_u32 (wf_slot f)), (''offset'', JPos (wf_offset f)),
              (''len'', json_u32 (wf_len f)), (''ts_us'', JPos (wf_ts_us f))]),
          (''changed_tiles'', JArray (map tile_to_json (vf_changed_tiles ev))),
          (''ocr_delta'', JArray (map ocr_to_json (vf_ocr_delta ev)))]
         @ (case vf_stability ev of None \<Rightarrow> [] | Some s \<Rightarrow> [(''stability'', json_f32 s)])
         @ (case vf_state ev of None \<Rightarrow> [] | Some s \<Rightarrow> [(''state'', JString s)])))"

datatype bridge_error =
    BrokerUnavailable string
  | BrokerError int string "json option"
  | Cancelled
  | BridgeTimeout nat
  | BridgeInvalidParams string string
  | Protocol string
  | BridgeInternal string

definition decode_binary_vision_frame ::
  "(u8 list \<Rightarrow> string + vision_frame_event) \<Rightarrow> u8 list \<Rightarrow> bridge_error + json" where
  "decode_binary_vision_frame decode line =
     (case line of
        [] \<Rightarrow> Inl (Protocol ''empty broker frame'')
      | first # _ \<Rightarrow>
          (if first \<noteq> 1 then Inl (Protocol ''not a binary broker frame'')
           else if length line < 5 then Inl (Protocol ''binary broker frame shorter than header'')
           else
             let len = unat (u32_from_le_bytes (line ! 1) (line ! 2) (line ! 3) (line ! 4))
             in if length line \<noteq> 5 + len then Inl (Protocol ''binary broker frame length mismatch'')
                else
                  (case decode (drop 5 line) of
                     Inl e \<Rightarrow> Inl (Protocol (''binary vision.frame decode: '' @ e))
                   | Inr ev \<Rightarrow> Inr (broker_vision_frame_to_json ev))))"

subsection \<open>The client's reader\<close>

record json_rpc_error_body =
  jb_code :: int
  jb_message :: string
  jb_data :: "json option"

record json_rpc_frame =
  jf_id :: "u64 option"
  jf_result :: "json option"
  jf_error :: "json_rpc_error_body option"
  jf_method :: "string option"
  jf_params :: "json option"

text \<open>In-flight calls by request id, what they were completed with, and the notifications sent on.\<close>

record client_state =
  inflight :: "(u64 \<times> nat) list"
  completed :: "(nat \<times> (bridge_error + json)) list"
  notifications :: "(string \<times> json) list"

definition MAX_LINE_BYTES :: nat where "MAX_LINE_BYTES = 16 * 1024 * 1024"

definition dispatch_json_message :: "json_rpc_frame \<Rightarrow> client_state \<Rightarrow> client_state" where
  "dispatch_json_message msg s =
     (case (jf_id msg, jf_method msg) of
        (Some i, _) \<Rightarrow>
          (case map_of (inflight s) i of
             None \<Rightarrow> s
           | Some t \<Rightarrow>
               (let result = (case jf_error msg of
                                Some e \<Rightarrow> Inl (BrokerError (jb_code e) (jb_message e) (jb_data e))
                              | None \<Rightarrow> Inr (case jf_result msg of None \<Rightarrow> JNull | Some v \<Rightarrow> v))
                in s\<lparr> inflight := AList.delete i (inflight s), completed := completed s @ [(t, result)] \<rparr>))
      | (None, Some m) \<Rightarrow>
          s\<lparr> notifications := notifications s
               @ [(m, case jf_params msg of None \<Rightarrow> JNull | Some p \<Rightarrow> p)] \<rparr>
      | (None, None) \<Rightarrow> s)"

definition dispatch_binary_message ::
  "(u8 list \<Rightarrow> string + vision_frame_event) \<Rightarrow> u8 list \<Rightarrow> client_state \<Rightarrow> client_state" where
  "dispatch_binary_message decode line s =
     (case decode_binary_vision_frame decode line of
        Inl e \<Rightarrow> s
      | Inr payload \<Rightarrow> s\<lparr> notifications := notifications s @ [(''event/notify'', payload)] \<rparr>)"

definition pop_byte :: "u8 \<Rightarrow> u8 list \<Rightarrow> u8 list" where
  "pop_byte b buf = (if buf \<noteq> [] \<and> last buf = b then butlast buf else buf)"

text \<open>
  One buffer that \<^verbatim>\<open>read_until\<close> filled. \<open>from_str\<close> is the UTF-8 check followed by the parser.
\<close>

definition client_line ::
  "(u8 list \<Rightarrow> json_rpc_frame option) \<Rightarrow> (u8 list \<Rightarrow> string + vision_frame_event) \<Rightarrow> u8 list
   \<Rightarrow> client_state \<Rightarrow> client_state" where
  "client_line from_str decode buf s =
     (if length buf > MAX_LINE_BYTES then s
      else
        let buf = pop_byte 13 (pop_byte 10 buf)
        in if buf = [] then s
           else if buf ! 0 = 1 then dispatch_binary_message decode buf s
           else (case from_str buf of None \<Rightarrow> s | Some msg \<Rightarrow> dispatch_json_message msg s))"

text \<open>\<^verbatim>\<open>read_until(b'\n')\<close>: the bytes up to and including the newline, or all of them.\<close>

fun read_until :: "u8 \<Rightarrow> u8 list \<Rightarrow> u8 list \<times> u8 list" where
  "read_until d [] = ([], [])"
| "read_until d (b # bs) =
     (if b = d then ([b], bs) else let (l, r) = read_until d bs in (b # l, r))"

lemma read_until_append: "fst (read_until d bs) @ snd (read_until d bs) = bs"
  by (induction d bs rule: read_until.induct) (auto split: prod.splits)

lemma read_until_length:
  assumes "(l, r) = read_until d bs" and "l \<noteq> []"
  shows "length r < length bs"
proof -
  have "l @ r = bs" using read_until_append [of d bs] assms(1) by (metis fst_conv snd_conv)
  with assms(2) show ?thesis by auto
qed

text \<open>The reader task on everything the socket delivers until it is closed, then the drain.\<close>

function client_loop ::
  "(u8 list \<Rightarrow> json_rpc_frame option) \<Rightarrow> (u8 list \<Rightarrow> string + vision_frame_event) \<Rightarrow> u8 list
   \<Rightarrow> client_state \<Rightarrow> client_state" where
  "client_loop from_str decode bs s =
     (case read_until 10 bs of
        (l, r) \<Rightarrow> (if l = [] then s else client_loop from_str decode r (client_line from_str decode l s)))"
  by pat_completeness auto
termination
  by (relation "measure (\<lambda>(f, d, bs, s). length bs)") (auto simp: read_until_length)

declare client_loop.simps [simp del]

definition client_drain :: "client_state \<Rightarrow> client_state" where
  "client_drain s =
     s\<lparr> inflight := [],
        completed := completed s @ map (\<lambda>(i, t). (t, Inl (BrokerUnavailable ''socket closed''))) (inflight s) \<rparr>"

definition to_jsonrpc_error :: "(nat \<Rightarrow> string) \<Rightarrow> bridge_error \<Rightarrow> json_rpc_error" where
  "to_jsonrpc_error debug_duration e =
     (case e of
        BrokerUnavailable msg \<Rightarrow>
          \<lparr> je_code = - 32011, je_message = ''BrokerUnavailable: '' @ msg, je_data = None \<rparr>
      | BrokerError code message data \<Rightarrow> \<lparr> je_code = code, je_message = message, je_data = data \<rparr>
      | Cancelled \<Rightarrow> \<lparr> je_code = - 32800, je_message = ''request cancelled'', je_data = None \<rparr>
      | BridgeTimeout ms \<Rightarrow>
          \<lparr> je_code = - 32007, je_message = ''Timeout after '' @ debug_duration ms,
            je_data = Some (JObject [(''millis'', JPos (word_of_nat ms))]) \<rparr>
      | BridgeInvalidParams m reason \<Rightarrow>
          \<lparr> je_code = - 32602, je_message = ''invalid params for '' @ m @ '': '' @ reason,
            je_data = Some (JObject [(''method'', JString m)]) \<rparr>
      | Protocol msg \<Rightarrow> \<lparr> je_code = - 32010, je_message = ''ProtocolError: '' @ msg, je_data = None \<rparr>
      | BridgeInternal msg \<Rightarrow> \<lparr> je_code = - 32603, je_message = msg, je_data = None \<rparr>)"

text \<open>An event for the concrete runs below.\<close>

definition sample_event :: vision_frame_event where
  "sample_event =
     \<lparr> vf_session_id = ''s'', vf_tab_id = ''t'', vf_ts_ms = 1, vf_frame_seq = 2, vf_captured_us = 3,
       vf_frame_handle = \<lparr> wf_ring_path = ''p'', wf_slot = 0, wf_slot_seq = 2, wf_offset = 4,
                           wf_len = 5, wf_ts_us = 6 \<rparr>,
       vf_viewport = \<lparr> vp_offset_top = 0, vp_page_scale_factor = 0, vp_device_width = 0,
                       vp_device_height = 0, vp_scroll_offset_x = 0, vp_scroll_offset_y = 0,
                       vp_timestamp = 0 \<rparr>,
       vf_changed_tiles = [], vf_ocr_delta = [], vf_stability = None, vf_state = None \<rparr>"

subsection \<open>Lemmas\<close>

lemma unat_byte: "n < 256 \<Longrightarrow> unat (word_of_nat n :: u8) = n"
  by (simp add: unat_of_nat)

lemma le_bytes_roundtrip:
  "u32_from_le_bytes (u32_to_le_bytes w ! 0) (u32_to_le_bytes w ! 1) (u32_to_le_bytes w ! 2)
     (u32_to_le_bytes w ! 3) = w"
proof -
  let ?n = "unat w"
  have lt: "?n < 4294967296" using unsigned_less [of w] by simp
  define a where "a = ?n div 256"
  define b where "b = ?n div 65536"
  define c where "c = ?n div 16777216"
  have "?n = 256 * a + ?n mod 256" by (simp add: a_def)
  moreover have "b = a div 256" by (simp add: a_def b_def flip: div_mult2_eq)
  then have "a = 256 * b + a mod 256" by simp
  moreover have "c = b div 256" by (simp add: c_def b_def flip: div_mult2_eq)
  then have "b = 256 * c + b mod 256" by simp
  moreover have "c < 256" using lt by (simp add: c_def less_mult_imp_div_less)
  ultimately have "?n mod 256 + 256 * (a mod 256) + 65536 * (b mod 256) + 16777216 * c = ?n"
    by simp
  then have "word_of_nat (?n mod 256 + 256 * (a mod 256) + 65536 * (b mod 256) + 16777216 * c) = w"
    by simp
  then show ?thesis
    using \<open>c < 256\<close>
    by (simp add: u32_from_le_bytes_def u32_to_le_bytes_def unat_byte a_def b_def c_def numeral_3_eq_3
        numeral_2_eq_2 del: of_nat_add of_nat_mult)
qed

lemma length_le_bytes [simp]: "length (u32_to_le_bytes w) = 4"
  by (simp add: u32_to_le_bytes_def)

text \<open>The bytes of a frame, header and payload, before the newline.\<close>

lemma encode_vision_frame_bytes:
  assumes "encode ev = (None, w)"
  shows "encode_vision_frame_into encode scratch ev =
    (None, scratch @ [1] @ u32_to_le_bytes (word_of_nat (length w)) @ w @ [10])"
  by (simp add: encode_vision_frame_into_def assms Let_def BINARY_TOPIC_MAGIC_def)

lemma header_len:
  assumes "length w < 2 ^ 32"
  defines "l \<equiv> [1] @ u32_to_le_bytes (word_of_nat (length w)) @ w"
  shows "unat (u32_from_le_bytes (l ! 1) (l ! 2) (l ! 3) (l ! 4)) = length w"
proof -
  have "l ! 1 = u32_to_le_bytes (word_of_nat (length w)) ! 0" "l ! 2 = u32_to_le_bytes (word_of_nat (length w)) ! 1"
    "l ! 3 = u32_to_le_bytes (word_of_nat (length w)) ! 2" "l ! 4 = u32_to_le_bytes (word_of_nat (length w)) ! 3"
    by (simp_all add: l_def u32_to_le_bytes_def)
  then show ?thesis using assms(1) by (simp only: le_bytes_roundtrip) (simp add: unat_of_nat)
qed

lemma decode_binary_whole:
  assumes "length w < 2 ^ 32"
  shows "decode_binary_vision_frame decode ([1] @ u32_to_le_bytes (word_of_nat (length w)) @ w) =
    (case decode w of
       Inl e \<Rightarrow> Inl (Protocol (''binary vision.frame decode: '' @ e))
     | Inr ev \<Rightarrow> Inr (broker_vision_frame_to_json ev))"
  using header_len [OF assms]
  by (simp add: decode_binary_vision_frame_def Let_def u32_to_le_bytes_def del: One_nat_def)

text \<open>A proper prefix of a frame is refused: too short for the header, or shorter than it declares.\<close>

lemma decode_binary_prefix:
  assumes "length w < 2 ^ 32"
    and "[1] @ u32_to_le_bytes (word_of_nat (length w)) @ w = l @ r" and "l \<noteq> []" and "r \<noteq> []"
  shows "isl (decode_binary_vision_frame decode l)"
proof (cases "length l < 5")
  case True
  then show ?thesis using assms(3) by (auto simp: decode_binary_vision_frame_def split: list.split)
next
  case False
  let ?f = "[1] @ u32_to_le_bytes (word_of_nat (length w)) @ w"
  have n: "l ! k = ?f ! k" if "k < 5" for k
    using False that unfolding assms(2) by (simp add: nth_append)
  have "length ?f = length l + length r" by (simp only: assms(2) length_append)
  then have "length l \<noteq> 5 + length w" using assms(4) by auto
  moreover have "unat (u32_from_le_bytes (l ! 1) (l ! 2) (l ! 3) (l ! 4)) = length w"
    using header_len [OF assms(1)] by (simp only: n) 
  ultimately show ?thesis
    by (auto simp: decode_binary_vision_frame_def Let_def split: list.split)
qed

lemma read_until_hit: "d \<notin> set xs \<Longrightarrow> read_until d (xs @ d # ys) = (xs @ [d], ys)"
  by (induction xs) auto

lemma pop_byte_snoc [simp]: "pop_byte b (xs @ [b]) = xs"
  by (simp add: pop_byte_def)

lemma pop_byte_other: "xs \<noteq> [] \<Longrightarrow> last xs \<noteq> b \<Longrightarrow> pop_byte b xs = xs"
  by (simp add: pop_byte_def)

lemma client_line_binary:
  assumes "length (l @ [10]) \<le> MAX_LINE_BYTES" and "hd l = 1" and "l \<noteq> []"
  shows "client_line from_str decode (l @ [10]) s = dispatch_binary_message decode (pop_byte 13 l) s"
proof -
  have "pop_byte 13 l \<noteq> []" "hd (pop_byte 13 l) = 1"
    using assms(2,3) by (cases l; auto simp: pop_byte_def)+
  then have "pop_byte 13 l ! 0 = 1" by (simp add: hd_conv_nth)
  with assms(1) \<open>pop_byte 13 l \<noteq> []\<close> show ?thesis by (simp add: client_line_def Let_def)
qed

lemma dispatch_binary_isl:
  "isl (decode_binary_vision_frame decode l) \<Longrightarrow> dispatch_binary_message decode l s = s"
  by (cases "decode_binary_vision_frame decode l") (simp_all add: dispatch_binary_message_def)

subsection \<open>Properties\<close>

text \<open>
  C10. Binary frames against a line reader. The broker writes a frame event as a length-prefixed
  binary record followed by a newline, and the client cuts its input at newlines and strips a
  trailing carriage return. The frame therefore reaches the subscribers exactly when neither the
  four length bytes nor the payload contain a newline byte and the payload does not end in a
  carriage return; otherwise what the client takes for the frame is refused and dropped.
\<close>
theorem client_binary_delivery:
  assumes "encode ev = (None, w)" and "decode w = Inr ev" and "length w + 6 \<le> MAX_LINE_BYTES"
  shows "notifications (client_line from_str decode
             (fst (read_until 10 (snd (encode_vision_frame_into encode [] ev)))) s) =
    notifications s @
      (if 10 \<in> set (u32_to_le_bytes (word_of_nat (length w)) @ w) \<or> w \<noteq> [] \<and> last w = 13 then []
       else [(''event/notify'', broker_vision_frame_to_json ev)])"
proof -
  let ?f = "[1] @ u32_to_le_bytes (word_of_nat (length w)) @ w"
  have small: "length w < 2 ^ 32" using assms(3) by (simp add: MAX_LINE_BYTES_def)
  have enc: "snd (encode_vision_frame_into encode [] ev) = ?f @ [10]"
    by (simp add: encode_vision_frame_bytes [of encode ev w, OF assms(1)])
  show ?thesis
  proof (cases "10 \<in> set (u32_to_le_bytes (word_of_nat (length w)) @ w)")
    case True
    then obtain p q where pq: "u32_to_le_bytes (word_of_nat (length w)) @ w = p @ 10 # q" "10 \<notin> set p"
      by (meson split_list_first)
    have "read_until 10 (?f @ [10]) = (([1] @ p) @ [10], q @ [10])"
      using read_until_hit [of 10 "[1] @ p" "q @ [10]"] pq(2) by (simp add: pq(1))
    moreover have len: "length (([1] @ p) @ [10]) \<le> MAX_LINE_BYTES"
      using arg_cong [OF pq(1), of length] assms(3) by simp
    moreover have "isl (decode_binary_vision_frame decode (pop_byte 13 ([1] @ p)))"
    proof (cases "p \<noteq> [] \<and> last p = 13")
      case True
      then have "p = butlast p @ [13]" by (metis append_butlast_last_id)
      then have "?f = ([1] @ butlast p) @ ([13] @ 10 # q)" by (simp add: pq(1))
      then have "isl (decode_binary_vision_frame decode ([1] @ butlast p))"
        by (rule decode_binary_prefix [OF small]) simp_all
      then show ?thesis using True by (simp add: pop_byte_def)
    next
      case False
      then have "pop_byte 13 ([1] @ p) = [1] @ p" by (auto simp: pop_byte_def)
      then show ?thesis
        using decode_binary_prefix [OF small, of "[1] @ p" "10 # q" decode] by (simp add: pq(1))
    qed
    ultimately show ?thesis
      using True client_line_binary [OF len] by (simp add: enc dispatch_binary_isl)
  next
    case False
    then have ru: "fst (read_until 10 (?f @ [10])) = ?f @ [10]"
      using read_until_hit [of 10 ?f "[]"] by simp
    have len: "length (?f @ [10]) \<le> MAX_LINE_BYTES" using assms(3) by simp
    note cl = client_line_binary [OF len, simplified]
    show ?thesis
    proof (cases "w \<noteq> [] \<and> last w = 13")
      case True
      then have w: "w = butlast w @ [13]" by (metis append_butlast_last_id)
      then have "?f = ([1] @ u32_to_le_bytes (word_of_nat (length w)) @ butlast w) @ [13]" by simp
      then have "isl (decode_binary_vision_frame decode
          ([1] @ u32_to_le_bytes (word_of_nat (length w)) @ butlast w))"
        by (rule decode_binary_prefix [OF small]) simp_all
      moreover have "pop_byte 13 ?f = [1] @ u32_to_le_bytes (word_of_nat (length w)) @ butlast w"
        using True by (simp add: pop_byte_def butlast_append)
      ultimately show ?thesis using True ru cl by (simp add: enc dispatch_binary_isl)
    next
      case ncr: False
      have "last ?f \<noteq> 13"
        using ncr by (cases "w = []") (simp_all add: u32_to_le_bytes_def)
      then have "pop_byte 13 ?f = ?f" by (intro pop_byte_other) simp_all
      then show ?thesis
        using False ncr ru cl decode_binary_whole [OF small, of decode] assms(2)
        by (auto simp: enc dispatch_binary_message_def)
    qed
  qed
qed

text \<open>At a codec that encodes the sample event as ten bytes, so that the length byte is a newline.\<close>

theorem client_binary_delivery_witness:
  "notifications (client_line (\<lambda>_. None) (\<lambda>_. Inr sample_event)
     (fst (read_until 10 (snd (encode_vision_frame_into (\<lambda>_. (None, replicate 10 7)) [] sample_event))))
     \<lparr> inflight = [], completed = [], notifications = [] \<rparr>) = []"
  using client_binary_delivery [where encode = "\<lambda>_. (None, replicate 10 7)" and ev = sample_event
      and w = "replicate 10 7" and decode = "\<lambda>_. Inr sample_event" and from_str = "\<lambda>_. None"
      and s = "\<lparr> inflight = [], completed = [], notifications = [] \<rparr>"]
  by (simp add: MAX_LINE_BYTES_def u32_to_le_bytes_def)

text \<open>
  Round trip of the binary topic on the broker's side: the line the encoder appends, without its
  newline, is decoded to the event that was encoded, whatever the scratch buffer held before, newline
  bytes in the payload included.
\<close>
theorem vision_frame_roundtrip:
  assumes "encode ev = (None, w)" and "decode w = Inr ev" and "length w < 2 ^ 32"
  shows "\<exists>line. encode_vision_frame_into encode scratch ev = (None, scratch @ line @ [10]) \<and>
      decode_line from_json decode line = Inr (WireVisionFrame ev)"
proof -
  let ?f = "[1] @ u32_to_le_bytes (word_of_nat (length w)) @ w"
  have "encode_vision_frame_into encode scratch ev = (None, scratch @ ?f @ [10])"
    by (simp add: encode_vision_frame_bytes [of encode ev w, OF assms(1)])
  moreover have "decode_line from_json decode ?f = Inr (WireVisionFrame ev)"
    using header_len [OF assms(3)] assms(2)
    by (simp add: decode_line_def Let_def BINARY_TOPIC_MAGIC_def u32_to_le_bytes_def del: One_nat_def)
  ultimately show ?thesis by blast
qed

theorem vision_frame_roundtrip_witness:
  "\<exists>line. encode_vision_frame_into (\<lambda>_. (None, [7, 8, 10])) [9] sample_event = (None, [9] @ line @ [10]) \<and>
     decode_line (\<lambda>_. Inl []) (\<lambda>_. Inr sample_event) line = Inr (WireVisionFrame sample_event)"
  by (rule vision_frame_roundtrip [where w = "[7, 8, 10]"]) simp_all

end
