(* ===== verification/Terminal_State.thy ===== *)
theory Terminal_State
  imports Prelude
begin

text \<open>
  Crate \<^verbatim>\<open>terminal-control\<close>: the raw output ring, the exit state, the attribute runs and the scrollback
  paging of \<^verbatim>\<open>state.rs\<close>, and the mouse encoder and the signal parser of \<^verbatim>\<open>controller.rs\<close>. The terminal
  emulator (\<^verbatim>\<open>vt100\<close>) is a parameter: its cells, its scrollback length and its windows are arguments.
  A Rust string is a list of characters below 256 here, which is all these functions produce;
  \<open>utf8_bytes\<close> is what \<^verbatim>\<open>as_bytes\<close> sends to the terminal.
\<close>

subsection \<open>Types (types.rs)\<close>

datatype term_error =
    SessionNotFound string
  | InvalidSize u16 u16
  | MouseTrackingDisabled
  | MouseOutOfBounds u16 u16 u16 u16
  | UnsupportedSignal string
  | TermInternal string

record term_read_chunk =
  tc_data :: "u8 list"
  tc_eof :: bool
  tc_dropped_bytes :: u64

datatype term_color = ColorDefault | Indexed u8 | Rgb u8 u8 u8

record term_style =
  ts_fg :: term_color
  ts_bg :: term_color
  ts_bold :: bool
  ts_dim :: bool
  ts_italic :: bool
  ts_underline :: bool
  ts_inverse :: bool

record term_attr_run =
  ar_start_col :: u16
  ar_end_col :: u16
  ar_style :: term_style

record term_scrollback_line =
  sb_index :: nat
  sb_text :: string
  sb_wrapped :: bool

datatype term_mouse_mode = ModeNone | Press | PressRelease | ButtonMotion | AnyMotion

datatype term_mouse_encoding = EncDefault | EncUtf8 | EncSgr

record term_exit_state =
  ex_exited :: bool
  ex_exit_code :: "u32 option"
  ex_signal :: "string option"

datatype mouse_event_kind = EvPress | EvRelease | EvMove | EvScrollUp | EvScrollDown

datatype mouse_button = BtnLeft | BtnMiddle | BtnRight | BtnNone

record mouse_event_request =
  me_row :: u16
  me_col :: u16
  me_kind :: mouse_event_kind
  me_button :: "mouse_button option"
  me_shift :: bool
  me_alt :: bool
  me_ctrl :: bool

subsection \<open>The output ring (state.rs)\<close>

record byte_ring =
  br_max_bytes :: nat
  br_bytes :: "u8 list"
  br_dropped_since_read :: u64

definition byte_ring_new :: "nat \<Rightarrow> byte_ring" where
  "byte_ring_new mx = \<lparr> br_max_bytes = mx, br_bytes = [], br_dropped_since_read = 0 \<rparr>"

text \<open>The loop of \<^verbatim>\<open>push\<close> over the data: the queue and the number of bytes dropped.\<close>

fun push_loop :: "nat \<Rightarrow> u8 list \<Rightarrow> u8 list \<Rightarrow> u64 \<Rightarrow> u8 list \<times> u64" where
  "push_loop mx q [] dropped = (q, dropped)"
| "push_loop mx q (b # bs) dropped =
     (if length q \<ge> mx then
        (case q of
           [] \<Rightarrow> push_loop mx [b] bs dropped
         | x # q' \<Rightarrow> push_loop mx (q' @ [b]) bs (sat_add dropped 1))
      else push_loop mx (q @ [b]) bs dropped)"

definition byte_ring_push :: "u8 list \<Rightarrow> byte_ring \<Rightarrow> u64 \<times> byte_ring" where
  "byte_ring_push data r =
     (let (q, dropped) = push_loop (br_max_bytes r) (br_bytes r) data 0
      in (dropped, r\<lparr> br_bytes := q, br_dropped_since_read := sat_add (br_dropped_since_read r) dropped \<rparr>))"

definition byte_ring_take :: "nat \<Rightarrow> bool \<Rightarrow> byte_ring \<Rightarrow> term_read_chunk \<times> byte_ring" where
  "byte_ring_take max_bytes eof r =
     (let n = min max_bytes (length (br_bytes r))
      in (\<lparr> tc_data = take n (br_bytes r), tc_eof = eof, tc_dropped_bytes = br_dropped_since_read r \<rparr>,
          r\<lparr> br_bytes := drop n (br_bytes r), br_dropped_since_read := 0 \<rparr>))"

subsection \<open>The shared state (state.rs)\<close>

record shared_state =
  ss_output :: byte_ring
  ss_exit :: term_exit_state
  ss_output_seq :: u64

definition shared_new :: "nat \<Rightarrow> shared_state" where
  "shared_new raw_output_bytes =
     \<lparr> ss_output = byte_ring_new raw_output_bytes,
       ss_exit = \<lparr> ex_exited = False, ex_exit_code = None, ex_signal = None \<rparr>, ss_output_seq = 0 \<rparr>"

definition process_output :: "u8 list \<Rightarrow> shared_state \<Rightarrow> u64 \<times> shared_state" where
  "process_output data s =
     (let (dropped, r) = byte_ring_push data (ss_output s) in (dropped, s\<lparr> ss_output := r \<rparr>))"

definition next_output_seq :: "shared_state \<Rightarrow> u64 \<times> shared_state" where
  "next_output_seq s = (ss_output_seq s + 1, s\<lparr> ss_output_seq := ss_output_seq s + 1 \<rparr>)"

definition read_output :: "nat \<Rightarrow> shared_state \<Rightarrow> term_read_chunk \<times> shared_state" where
  "read_output max_bytes s =
     (let (c, r) = byte_ring_take max_bytes (ex_exited (ss_exit s)) (ss_output s)
      in (c, s\<lparr> ss_output := r \<rparr>))"

definition mark_exit :: "u32 option \<Rightarrow> string option \<Rightarrow> shared_state \<Rightarrow> shared_state" where
  "mark_exit code sig s =
     s\<lparr> ss_exit := \<lparr> ex_exited = True, ex_exit_code = code, ex_signal = sig \<rparr> \<rparr>"

subsection \<open>Attribute runs (state.rs)\<close>

definition default_style :: term_style where
  "default_style = \<lparr> ts_fg = ColorDefault, ts_bg = ColorDefault, ts_bold = False, ts_dim = False,
     ts_italic = False, ts_underline = False, ts_inverse = False \<rparr>"

text \<open>What \<^verbatim>\<open>row_attr_runs\<close> reads of a cell: its style, whether it has contents, whether it continues one.\<close>

record term_cell =
  tcl_style :: term_style
  tcl_has_contents :: bool
  tcl_wide_continuation :: bool

definition interesting :: "term_cell \<Rightarrow> bool" where
  "interesting c \<longleftrightarrow> tcl_has_contents c \<or> tcl_style c \<noteq> default_style \<or> tcl_wide_continuation c"

definition interesting_end :: "(u16 \<Rightarrow> term_cell option) \<Rightarrow> u16 \<Rightarrow> u16" where
  "interesting_end cell cols =
     fold (\<lambda>col e. case cell (word_of_nat col) of
                     None \<Rightarrow> e
                   | Some c \<Rightarrow> if interesting c then sat_add (word_of_nat col) 1 else e)
       [0..<unat cols] 0"

definition style_at :: "(u16 \<Rightarrow> term_cell option) \<Rightarrow> u16 \<Rightarrow> term_style" where
  "style_at cell col = (case cell col of None \<Rightarrow> default_style | Some c \<Rightarrow> tcl_style c)"

text \<open>The second loop: \<open>st\<close> is \<^verbatim>\<open>None\<close> until seeded, then the start and style of the open run.\<close>

fun runs_loop ::
  "(u16 \<Rightarrow> term_cell option) \<Rightarrow> nat list \<Rightarrow> (u16 \<times> term_style) option \<Rightarrow> term_attr_run list
   \<Rightarrow> (u16 \<times> term_style) option \<times> term_attr_run list" where
  "runs_loop cell [] st runs = (st, runs)"
| "runs_loop cell (k # ks) st runs =
     (let col = word_of_nat k; style = style_at cell col
      in case st of
           None \<Rightarrow> runs_loop cell ks (Some (col, style)) runs
         | Some (start, current) \<Rightarrow>
             (if style \<noteq> current
              then runs_loop cell ks (Some (col, style))
                     (runs @ [\<lparr> ar_start_col = start, ar_end_col = col, ar_style = current \<rparr>])
              else runs_loop cell ks st runs))"

definition row_attr_runs :: "(u16 \<Rightarrow> term_cell option) \<Rightarrow> u16 \<Rightarrow> term_attr_run list" where
  "row_attr_runs cell cols =
     (let e = interesting_end cell cols
      in if e = 0 then []
         else
           (case runs_loop cell [0..<unat e] None [] of
              (None, runs) \<Rightarrow> runs
            | (Some (start, current), runs) \<Rightarrow>
                runs @ [\<lparr> ar_start_col = start, ar_end_col = e, ar_style = current \<rparr>]))"

subsection \<open>Scrollback paging (state.rs)\<close>

text \<open>
  \<open>window offset\<close> is what the emulator shows when scrolled back by \<open>offset\<close> lines: the lines of its
  contents and whether each row wraps. \<open>tot\<close> is the length of the scrollback.
\<close>

function scrollback_loop ::
  "(nat \<Rightarrow> string list \<times> (u16 \<Rightarrow> bool)) \<Rightarrow> nat \<Rightarrow> u16 \<Rightarrow> nat \<Rightarrow> term_scrollback_line list
   \<Rightarrow> term_scrollback_line list" where
  "scrollback_loop window tot rows current lines =
     (if current < tot then
        let offset = tot - current;
            (texts, wrapped) = window offset;
            take_count = min (min offset (unat rows)) (tot - current);
            lines = lines @ map (\<lambda>(idx, text).
                      \<lparr> sb_index = current + idx, sb_text = text,
                        sb_wrapped = wrapped (if idx < 65536 then word_of_nat idx else 0) \<rparr>)
                    (enumerate 0 (take take_count texts))
        in if take_count = 0 then lines
           else scrollback_loop window tot rows (current + take_count) lines
      else lines)"
  by pat_completeness auto
termination
  by (relation "measure (\<lambda>(w, tot, r, current, l). tot - current)") auto

declare scrollback_loop.simps [simp del]

definition scrollback_lines ::
  "(nat \<Rightarrow> string list \<times> (u16 \<Rightarrow> bool)) \<Rightarrow> nat \<Rightarrow> u16 \<Rightarrow> nat \<Rightarrow> term_scrollback_line list" where
  "scrollback_lines window tot rows n_lines =
     scrollback_loop window tot rows (tot - n_lines) []"

subsection \<open>Mouse events and signals (controller.rs)\<close>

definition validate_size :: "u16 \<Rightarrow> u16 \<Rightarrow> term_error + unit" where
  "validate_size rows cols = (if rows = 0 \<or> cols = 0 then Inl (InvalidSize rows cols) else Inr ())"

definition modifier_bits :: "bool \<Rightarrow> bool \<Rightarrow> bool \<Rightarrow> u8" where
  "modifier_bits shift alt ctrl =
     (let bits = 0;
          bits = (if shift then sat_add bits 4 else bits);
          bits = (if alt then sat_add bits 8 else bits);
          bits = (if ctrl then sat_add bits 16 else bits)
      in bits)"

fun button_code :: "mouse_button \<Rightarrow> term_error + u8" where
  "button_code BtnLeft = Inr 0"
| "button_code BtnMiddle = Inr 1"
| "button_code BtnRight = Inr 2"
| "button_code BtnNone = Inl (TermInternal ''buttonless press is invalid'')"

fun motion_button_code :: "mouse_button \<Rightarrow> term_error + u8" where
  "motion_button_code BtnLeft = Inr 0"
| "motion_button_code BtnMiddle = Inr 1"
| "motion_button_code BtnRight = Inr 2"
| "motion_button_code BtnNone = Inr 3"

definition mouse_code :: "mouse_event_request \<Rightarrow> term_error + u8" where
  "mouse_code rq =
     (let code = modifier_bits (me_shift rq) (me_alt rq) (me_ctrl rq)
      in case me_kind rq of
           EvPress \<Rightarrow>
             map_sum id (sat_add code)
               (button_code (case me_button rq of None \<Rightarrow> BtnLeft | Some b \<Rightarrow> b))
         | EvRelease \<Rightarrow> Inr (sat_add code 3)
         | EvMove \<Rightarrow>
             map_sum id (sat_add (sat_add code 32))
               (motion_button_code (case me_button rq of None \<Rightarrow> BtnNone | Some b \<Rightarrow> b))
         | EvScrollUp \<Rightarrow> Inr (sat_add code 64)
         | EvScrollDown \<Rightarrow> Inr (sat_add code 65))"

definition ESC :: char where "ESC = char_of (27 :: nat)"

definition encode_mouse_event ::
  "term_mouse_mode \<Rightarrow> term_mouse_encoding \<Rightarrow> mouse_event_request \<Rightarrow> term_error + string" where
  "encode_mouse_event mode enc rq =
     (if mode = ModeNone then Inl MouseTrackingDisabled
      else
        (case mouse_code rq of
           Inl e \<Rightarrow> Inl e
         | Inr code \<Rightarrow>
             (let x = sat_add (me_col rq) 1; y = sat_add (me_row rq) 1
              in if enc = EncSgr
                 then Inr ([ESC] @ ''[<'' @ nat_to_dec (unat code) @ '';'' @ nat_to_dec (unat x) @ '';''
                           @ nat_to_dec (unat y) @ (if me_kind rq = EvRelease then ''m'' else ''M''))
                 else
                   let c1 = sat_add x 32; c2 = sat_add y 32
                   in if c1 > 255 \<or> c2 > 255
                      then Inl (MouseOutOfBounds y x (me_row rq) (me_col rq))
                      else Inr ([ESC] @ ''[M''
                                @ [char_of (unat (sat_add code 32)), char_of (unat c1), char_of (unat c2)]))))"

datatype signal = SIGHUP | SIGINT | SIGQUIT | SIGTERM | SIGKILL | SIGUSR1 | SIGUSR2 | SIGTSTP | SIGCONT

definition ascii_upper :: "char \<Rightarrow> char" where
  "ascii_upper c = (let n = of_char c :: nat in if 97 \<le> n \<and> n \<le> 122 then char_of (n - 32) else c)"

definition signal_names :: "(string \<times> signal) list" where
  "signal_names = [(''HUP'', SIGHUP), (''INT'', SIGINT), (''QUIT'', SIGQUIT), (''TERM'', SIGTERM),
     (''KILL'', SIGKILL), (''USR1'', SIGUSR1), (''USR2'', SIGUSR2), (''TSTP'', SIGTSTP), (''CONT'', SIGCONT)]"

definition parse_signal :: "string \<Rightarrow> term_error + signal" where
  "parse_signal name =
     (let upper = map ascii_upper (trim name);
          normalized = (if take 3 upper = ''SIG'' then drop 3 upper else upper)
      in case map_of signal_names normalized of
           Some s \<Rightarrow> Inr s
         | None \<Rightarrow> Inl (UnsupportedSignal normalized))"

subsection \<open>Runs of the output ring\<close>

text \<open>
  A run pushes output and reads chunks; \<open>stream\<close> is everything that was pushed and \<open>reads\<close> what the
  reader got, each read as the number of bytes reported lost before it and its data.
\<close>

datatype term_op = PushOutput "u8 list" | ReadOutput nat

record term_run =
  tr_state :: shared_state
  tr_stream :: "u8 list"
  tr_reads :: "(nat \<times> u8 list) list"

fun term_step :: "term_op \<Rightarrow> term_run \<Rightarrow> term_run" where
  "term_step (PushOutput data) r =
     r\<lparr> tr_state := snd (process_output data (tr_state r)), tr_stream := tr_stream r @ data \<rparr>"
| "term_step (ReadOutput n) r =
     (let (c, s) = read_output n (tr_state r)
      in r\<lparr> tr_state := s, tr_reads := tr_reads r @ [(unat (tc_dropped_bytes c), tc_data c)] \<rparr>)"

definition term_run_new :: "nat \<Rightarrow> term_run" where
  "term_run_new mx = \<lparr> tr_state = shared_new mx, tr_stream = [], tr_reads = [] \<rparr>"

definition run_term :: "nat \<Rightarrow> term_op list \<Rightarrow> term_run" where
  "run_term mx ops = fold term_step ops (term_run_new mx)"

text \<open>
  The reads account for the stream: each skips the bytes it reports as lost and delivers the bytes
  that follow them; \<open>rest\<close> is what is left after the last read.
\<close>

fun delivers :: "u8 list \<Rightarrow> (nat \<times> u8 list) list \<Rightarrow> u8 list \<Rightarrow> bool" where
  "delivers stream [] rest \<longleftrightarrow> rest = stream"
| "delivers stream ((lost, data) # rs) rest \<longleftrightarrow>
     (\<exists>gap stream'. stream = gap @ data @ stream' \<and> length gap = lost \<and> delivers stream' rs rest)"

definition ring_cap :: "nat \<Rightarrow> nat" where
  "ring_cap mx = max 1 mx"

definition term_inv :: "nat \<Rightarrow> term_run \<Rightarrow> bool" where
  "term_inv mx r \<longleftrightarrow>
     (let o' = ss_output (tr_state r)
      in br_max_bytes o' = mx \<and> length (br_bytes o') \<le> ring_cap mx \<and>
         (\<exists>gap. length gap = unat (br_dropped_since_read o') \<and>
            delivers (tr_stream r) (tr_reads r) (gap @ br_bytes o')))"

text \<open>The columns a list of runs covers, one style per column.\<close>

definition expand_runs :: "term_attr_run list \<Rightarrow> term_style list" where
  "expand_runs runs =
     concat (map (\<lambda>r. replicate (unat (ar_end_col r) - unat (ar_start_col r)) (ar_style r)) runs)"

definition runs_separated :: "term_attr_run list \<Rightarrow> bool" where
  "runs_separated runs \<longleftrightarrow>
     (\<forall>k. Suc k < length runs \<longrightarrow>
        ar_end_col (runs ! k) = ar_start_col (runs ! Suc k) \<and> ar_style (runs ! k) \<noteq> ar_style (runs ! Suc k))"

definition pushed_bytes :: "term_op list \<Rightarrow> nat" where
  "pushed_bytes ops = sum_list (map (\<lambda>op. case op of PushOutput d \<Rightarrow> length d | ReadOutput n \<Rightarrow> 0) ops)"

text \<open>The invariant of the second loop: the closed runs and the open one cover the columns so far.\<close>

definition runs_cover ::
  "(u16 \<Rightarrow> term_cell option) \<Rightarrow> nat \<Rightarrow> (u16 \<times> term_style) option \<Rightarrow> term_attr_run list \<Rightarrow> bool" where
  "runs_cover cell n st runs \<longleftrightarrow>
     (case st of
        None \<Rightarrow> n = 0 \<and> runs = []
      | Some (start, current) \<Rightarrow>
          unat start < n \<and> runs_separated runs \<and>
          expand_runs runs @ replicate (n - unat start) current = map (\<lambda>k. style_at cell (word_of_nat k)) [0..<n] \<and>
          list_all (\<lambda>r. ar_start_col r < ar_end_col r) runs \<and>
          (runs \<noteq> [] \<longrightarrow> ar_end_col (last runs) = start \<and> ar_style (last runs) \<noteq> current))"

subsection \<open>Lemmas: the ring\<close>

lemma delivers_extend: "delivers stream rs rest \<Longrightarrow> delivers (stream @ xs) rs (rest @ xs)"
  by (induction stream rs rest rule: delivers.induct) (auto, metis append.assoc)

lemma delivers_read:
  "delivers stream rs (gap @ data @ rest) \<Longrightarrow> delivers stream (rs @ [(length gap, data)]) rest"
proof (induction rs arbitrary: stream)
  case (Cons r rs)
  obtain lost d where r: "r = (lost, d)" by fastforce
  from Cons.prems obtain g s' where "stream = g @ d @ s'" "length g = lost" "delivers s' rs (gap @ data @ rest)"
    by (auto simp: r)
  then show ?case using Cons.IH [of s'] by (auto simp: r)
qed auto

lemma delivers_length: "delivers stream rs rest \<Longrightarrow> length rest \<le> length stream"
proof (induction rs arbitrary: stream)
  case (Cons r rs)
  obtain lost d where r: "r = (lost, d)" by fastforce
  from Cons.prems obtain g s' where "stream = g @ d @ s'" "delivers s' rs rest" by (auto simp: r)
  then show ?case using Cons.IH [of s'] by simp
qed simp

text \<open>What a push does to a ring within its capacity: the oldest bytes go, and they are counted.\<close>

lemma push_loop_spec:
  assumes "length q \<le> ring_cap mx"
  shows "fst (push_loop mx q data d) = last_n (ring_cap mx) (q @ data) \<and>
    unat (snd (push_loop mx q data d)) = min (unat d + (length q + length data - ring_cap mx)) (2 ^ 64 - 1)"
  using assms
proof (induction mx q data d rule: push_loop.induct)
  case (1 mx q d)
  have "unat d < 2 ^ 64" using unsigned_less [of d] by simp
  with 1 show ?case by simp
next
  case (2 mx q b bs d)
  show ?case
  proof (cases "length q \<ge> mx")
    case False
    with 2 show ?thesis by (simp add: ring_cap_def)
  next
    case True
    show ?thesis
    proof (cases q)
      case Nil
      with True 2 show ?thesis by (simp add: ring_cap_def)
    next
      case (Cons x q')
      with True 2(4) have len: "Suc (length q') = ring_cap mx" by (simp add: ring_cap_def)
      then have "fst (push_loop mx (q' @ [b]) bs (sat_add d 1)) = last_n (ring_cap mx) ((q' @ [b]) @ bs) \<and>
          unat (snd (push_loop mx (q' @ [b]) bs (sat_add d 1))) =
            min (unat (sat_add d 1) + (length (q' @ [b]) + length bs - ring_cap mx)) (2 ^ 64 - 1)"
        using True Cons by (intro 2(2)) simp_all
      moreover have "last_n (ring_cap mx) (x # q' @ b # bs) = last_n (ring_cap mx) (q' @ b # bs)"
        using len by (intro last_n_Cons) simp
      ultimately show ?thesis using True Cons len by (simp add: unat_sat_add)
    qed
  qed
qed

interpretation output_log: capped_log "\<lambda>b r. snd (byte_ring_push [b] r)" br_bytes "ring_cap mx"
    "\<lambda>r. br_max_bytes r = mx \<and> length (br_bytes r) \<le> ring_cap mx"
proof
  fix r :: byte_ring and b
  assume ok: "br_max_bytes r = mx \<and> length (br_bytes r) \<le> ring_cap mx"
  then show "br_bytes (snd (byte_ring_push [b] r)) = last_n (ring_cap mx) (br_bytes r @ [b])"
    using push_loop_spec [of "br_bytes r" mx "[b]" 0] by (simp add: byte_ring_push_def split_beta)
  with ok show "br_max_bytes (snd (byte_ring_push [b] r)) = mx \<and>
      length (br_bytes (snd (byte_ring_push [b] r))) \<le> ring_cap mx"
    by (simp add: byte_ring_push_def split_beta)
qed

lemma last_n_drop: "last_n k xs = drop (length xs - k) xs"
  by (simp add: last_n_def)

lemma term_inv_push:
  assumes "term_inv mx r" and "length (tr_stream r) + length data < 2 ^ 64"
  shows "term_inv mx (term_step (PushOutput data) r)"
proof -
  define o' where "o' = ss_output (tr_state r)"
  obtain gap where m: "br_max_bytes o' = mx" and len: "length (br_bytes o') \<le> ring_cap mx"
    and gap: "length gap = unat (br_dropped_since_read o')"
    and del: "delivers (tr_stream r) (tr_reads r) (gap @ br_bytes o')"
    using assms(1) by (auto simp: term_inv_def Let_def o'_def)
  define n where "n = length (br_bytes o') + length data - ring_cap mx"
  define q where "q = fst (push_loop mx (br_bytes o') data 0)"
  define d where "d = snd (push_loop mx (br_bytes o') data 0)"
  have room: "length gap + length (br_bytes o') + length data < 2 ^ 64"
    using delivers_length [OF del] assms(2) by simp
  have q: "q = drop n (br_bytes o' @ data)" and d: "unat d = n"
    using push_loop_spec [OF len, of data 0] room by (auto simp: q_def d_def n_def last_n_drop)
  have n: "n \<le> length (br_bytes o' @ data)" by (simp add: n_def)
  have sum: "unat (sat_add (br_dropped_since_read o') d) = length gap + n"
    using room n by (simp add: unat_sat_add d gap [symmetric])
  have "delivers (tr_stream r @ data) (tr_reads r) ((gap @ take n (br_bytes o' @ data)) @ q)"
  proof -
    have "(gap @ take n (br_bytes o' @ data)) @ q = (gap @ br_bytes o') @ data"
      unfolding q by (metis append.assoc append_take_drop_id)
    then show ?thesis using delivers_extend [OF del, of data] by simp
  qed
  moreover have "length (gap @ take n (br_bytes o' @ data)) = unat (sat_add (br_dropped_since_read o') d)"
    using n sum by (auto simp: min_def)
  moreover have "length q \<le> ring_cap mx" using q by (simp add: n_def)
  moreover have "ss_output (tr_state (term_step (PushOutput data) r)) =
      o'\<lparr> br_bytes := q, br_dropped_since_read := sat_add (br_dropped_since_read o') d \<rparr>"
    by (simp add: process_output_def byte_ring_push_def split_beta q_def d_def m o'_def [symmetric])
  ultimately show ?thesis using m unfolding term_inv_def Let_def
    by (intro conjI exI [of _ "gap @ take n (br_bytes o' @ data)"]) simp_all
qed

lemma term_inv_read:
  assumes "term_inv mx r"
  shows "term_inv mx (term_step (ReadOutput k) r)"
proof -
  define o' where "o' = ss_output (tr_state r)"
  obtain gap where m: "br_max_bytes o' = mx" and len: "length (br_bytes o') \<le> ring_cap mx"
    and gap: "length gap = unat (br_dropped_since_read o')"
    and del: "delivers (tr_stream r) (tr_reads r) (gap @ br_bytes o')"
    using assms(1) by (auto simp: term_inv_def Let_def o'_def)
  let ?n = "min k (length (br_bytes o'))"
  have "delivers (tr_stream r) (tr_reads r) (gap @ take ?n (br_bytes o') @ drop ?n (br_bytes o'))"
    using del by simp
  from delivers_read [OF this]
  have "delivers (tr_stream r) (tr_reads r @ [(unat (br_dropped_since_read o'), take ?n (br_bytes o'))])
      (drop ?n (br_bytes o'))" by (simp add: gap)
  then show ?thesis using m len
    by (simp add: term_inv_def Let_def read_output_def byte_ring_take_def o'_def [symmetric])
qed

lemma term_inv_fold:
  "term_inv mx r \<Longrightarrow> length (tr_stream r) + pushed_bytes ops < 2 ^ 64 \<Longrightarrow> term_inv mx (fold term_step ops r)"
proof (induction ops arbitrary: r)
  case (Cons op ops)
  show ?case
  proof (cases op)
    case (PushOutput d)
    then show ?thesis
      using Cons.prems Cons.IH [OF term_inv_push [OF Cons.prems(1), of d]] by (simp add: pushed_bytes_def)
  next
    case (ReadOutput n)
    then show ?thesis
      using Cons.prems Cons.IH [OF term_inv_read [OF Cons.prems(1), of n]]
      by (simp add: pushed_bytes_def split_beta)
  qed
qed simp

lemma term_inv_new: "term_inv mx (term_run_new mx)"
  by (simp add: term_inv_def term_run_new_def shared_new_def byte_ring_new_def Let_def)

subsection \<open>Lemmas: attribute runs\<close>

lemma interesting_end_fold:
  assumes "n \<le> unat (cols :: u16)"
  shows "let e = fold (\<lambda>col e. case cell (word_of_nat col :: u16) of
                     None \<Rightarrow> e
                   | Some c \<Rightarrow> if interesting c then sat_add (word_of_nat col) 1 else e) [0..<n] (0 :: u16)
    in unat e \<le> n \<and> (\<forall>k. unat e \<le> k \<longrightarrow> k < n \<longrightarrow>
         (case cell (word_of_nat k) of None \<Rightarrow> True | Some c \<Rightarrow> \<not> interesting c))"
  using assms
proof (induction n)
  case (Suc n)
  have "unat cols < 65536" by (rule unat_u16)
  then have w: "unat (word_of_nat n :: u16) = n" using Suc.prems by (simp add: unat_of_nat)
  have s: "unat (sat_add (word_of_nat n :: u16) 1) = Suc n"
    using \<open>unat cols < 65536\<close> Suc.prems by (simp add: unat_sat_add w)
  from Suc show ?case
    by (auto simp: Let_def s less_Suc_eq split: option.splits)
qed simp

lemma interesting_end_le: "interesting_end cell cols \<le> cols"
  using interesting_end_fold [of "unat cols" cols cell]
  by (simp add: interesting_end_def Let_def word_le_nat_alt)

lemma interesting_end_rest:
  assumes "unat (interesting_end cell cols) \<le> k" and "k < unat cols"
  shows "case cell (word_of_nat k) of None \<Rightarrow> True | Some c \<Rightarrow> \<not> interesting c"
  using interesting_end_fold [of "unat cols" cols cell] assms
  by (auto simp: interesting_end_def Let_def)

lemma runs_separated_snoc:
  "runs_separated (runs @ [r]) \<longleftrightarrow>
     runs_separated runs \<and> (runs \<noteq> [] \<longrightarrow> ar_end_col (last runs) = ar_start_col r \<and> ar_style (last runs) \<noteq> ar_style r)"
proof (cases runs rule: rev_cases)
  case Nil
  then show ?thesis by (simp add: runs_separated_def)
next
  case (snoc ys y)
  have "runs_separated ((ys @ [y]) @ [r]) \<longleftrightarrow>
      runs_separated (ys @ [y]) \<and> ar_end_col y = ar_start_col r \<and> ar_style y \<noteq> ar_style r"
    unfolding runs_separated_def
    by (auto simp: nth_append less_Suc_eq)
  then show ?thesis by (simp add: snoc)
qed

lemma runs_loop_cover:
  assumes "runs_cover cell n st runs" and "n \<le> m" and "m \<le> 65536"
  shows "case runs_loop cell [n..<m] st runs of (st', runs') \<Rightarrow> runs_cover cell m st' runs'"
  using assms
proof (induction "m - n" arbitrary: n st runs)
  case 0
  then show ?case by simp
next
  case (Suc d)
  then have lt: "n < m" by simp
  then have w: "unat (word_of_nat n :: u16) = n" using Suc.prems(3) by (simp add: unat_of_nat)
  let ?s = "style_at cell (word_of_nat n)"
  have up: "[n..<m] = n # [Suc n..<m]" using lt by (rule upt_conv_Cons)
  show ?case
  proof (cases st)
    case None
    with Suc.prems have "runs_cover cell (Suc n) (Some (word_of_nat n, ?s)) runs"
      using w by (simp add: runs_cover_def runs_separated_def expand_runs_def)
    from Suc.hyps(1) [OF _ this] Suc.hyps(2) Suc.prems(3) lt show ?thesis
      by (simp add: up None Let_def)
  next
    case (Some sc)
    then obtain start current where st: "st = Some (start, current)" by (cases sc) auto
    note cov = Suc.prems(1) [unfolded runs_cover_def st, simplified]
    show ?thesis
    proof (cases "?s = current")
      case True
      have "runs_cover cell (Suc n) st runs"
        using cov True by (simp add: runs_cover_def st Suc_diff_le replicate_append_same [symmetric])
      from Suc.hyps(1) [OF _ this] Suc.hyps(2) Suc.prems(3) lt True show ?thesis
        by (simp add: up st Let_def)
    next
      case False
      let ?r = "\<lparr> ar_start_col = start, ar_end_col = word_of_nat n, ar_style = current \<rparr>"
      have "runs_cover cell (Suc n) (Some (word_of_nat n, ?s)) (runs @ [?r])"
        using cov False w
        by (auto simp: runs_cover_def runs_separated_snoc expand_runs_def word_less_nat_alt)
      from Suc.hyps(1) [OF _ this] Suc.hyps(2) Suc.prems(3) lt False show ?thesis
        by (simp add: up st Let_def)
    qed
  qed
qed

lemma row_attr_runs_cover:
  assumes "row_attr_runs cell cols \<noteq> []"
  shows "let e = interesting_end cell cols; runs = row_attr_runs cell cols
    in 0 < e \<and> expand_runs runs = map (\<lambda>k. style_at cell (word_of_nat k)) [0..<unat e] \<and> runs_separated runs"
proof -
  define e where "e = interesting_end cell cols"
  have e0: "e \<noteq> 0" using assms by (auto simp: row_attr_runs_def e_def)
  then have pos: "0 < unat e" by (simp add: unat_gt_0)
  have init: "runs_cover cell 0 None []" by (simp add: runs_cover_def)
  have "unat e \<le> 65536" using unat_u16 [of e] by simp
  from runs_loop_cover [OF init _ this] obtain st runs
    where loop: "runs_loop cell [0..<unat e] None [] = (st, runs)" and cov: "runs_cover cell (unat e) st runs"
    by (cases "runs_loop cell [0..<unat e] None []") auto
  from cov pos obtain start current where st: "st = Some (start, current)"
    by (auto simp: runs_cover_def split: option.splits)
  let ?r = "\<lparr> ar_start_col = start, ar_end_col = e, ar_style = current \<rparr>"
  have "row_attr_runs cell cols = runs @ [?r]"
    using e0 loop by (simp add: row_attr_runs_def e_def [symmetric] st)
  moreover have "expand_runs (runs @ [?r]) = map (\<lambda>k. style_at cell (word_of_nat k)) [0..<unat e]"
    using cov by (simp add: runs_cover_def st expand_runs_def)
  moreover have "runs_separated (runs @ [?r])"
    using cov by (simp add: runs_cover_def st runs_separated_snoc)
  ultimately show ?thesis using e0 by (simp add: e_def [symmetric] word_neq_0_conv)
qed

lemma row_attr_runs_empty: "row_attr_runs cell cols = [] \<Longrightarrow> interesting_end cell cols = 0"
proof (rule ccontr)
  assume "row_attr_runs cell cols = []" and nz: "interesting_end cell cols \<noteq> 0"
  define e where "e = interesting_end cell cols"
  have "runs_cover cell 0 None []" by (simp add: runs_cover_def)
  moreover have "unat e \<le> 65536" using unat_u16 [of e] by simp
  ultimately have "case runs_loop cell [0..<unat e] None [] of (st, runs) \<Rightarrow> runs_cover cell (unat e) st runs"
    by (intro runs_loop_cover) simp_all
  moreover have "0 < unat e" using nz by (simp add: e_def unat_gt_0)
  ultimately show False
    using \<open>row_attr_runs cell cols = []\<close> nz
    by (auto simp: row_attr_runs_def e_def [symmetric] runs_cover_def split: prod.splits option.splits)
qed

lemma modifier_bits_small: "unat (modifier_bits a b c) \<le> 28"
  by (cases a; cases b; cases c) (simp_all add: modifier_bits_def unat_sat_add)

lemma mouse_code_small: "mouse_code rq = Inr code \<Longrightarrow> unat code \<le> 93"
  using modifier_bits_small [of "me_shift rq" "me_alt rq" "me_ctrl rq"]
  by (cases "me_kind rq"; cases "me_button rq"; cases "the (me_button rq)")
    (auto simp: mouse_code_def Let_def unat_sat_add min_def split: if_splits)

subsection \<open>Properties\<close>

text \<open>
  C11. The output ring loses bytes only from the front and accounts for every one of them. For any
  sequence of pushes and reads of fewer than \<open>2 ^ 64\<close> bytes, the reads deliver the output stream in
  order, each read skipping exactly the number of bytes it reports as dropped, and the bytes still
  held are the end of the stream, at most \<open>max 1 max_bytes\<close> of them.
\<close>
theorem output_accounting:
  assumes "pushed_bytes ops < 2 ^ 64"
  shows "let r = run_term mx ops; q = ss_output (tr_state r)
    in (\<exists>gap. length gap = unat (br_dropped_since_read q) \<and>
          delivers (tr_stream r) (tr_reads r) (gap @ br_bytes q)) \<and>
       length (br_bytes q) \<le> max 1 mx"
proof -
  have "term_inv mx (run_term mx ops)"
    unfolding run_term_def
    by (rule term_inv_fold [OF term_inv_new]) (use assms(1) in \<open>simp add: term_run_new_def\<close>)
  then show ?thesis by (auto simp: term_inv_def Let_def ring_cap_def)
qed

theorem output_accounting_witness:
  "let r = run_term 2 [PushOutput [1, 2, 3], ReadOutput 1, PushOutput [4, 5]]
   in length (br_bytes (ss_output (tr_state r))) \<le> 2"
  using output_accounting [of "[PushOutput [1, 2, 3], ReadOutput 1, PushOutput [4, 5]]" 2]
  by (simp add: pushed_bytes_def Let_def)


text \<open>
  In the default (X10) mouse encoding the report is three header bytes and three values, but the
  values are sent as characters of a Rust string, that is in UTF-8: a column or row from 95 on
  takes two bytes, so the report has six bytes only while both are below 95.
\<close>
theorem default_mouse_report_length:
  assumes "encode_mouse_event mode EncDefault rq = Inr s"
  shows "length (utf8_bytes s) =
    6 + (if 95 \<le> unat (me_col rq) then 1 else 0) + (if 95 \<le> unat (me_row rq) then 1 else 0)"
proof -
  let ?c1 = "sat_add (sat_add (me_col rq) 1) 32" and ?c2 = "sat_add (sat_add (me_row rq) 1) 32"
  obtain code where code: "mouse_code rq = Inr code" and c: "?c1 \<le> 255" "?c2 \<le> 255"
    and s: "s = [ESC] @ ''[M'' @ [char_of (unat (sat_add code 32)), char_of (unat ?c1), char_of (unat ?c2)]"
    using assms by (auto simp: encode_mouse_event_def Let_def not_less split: if_splits sum.splits)
  have b: "unat (sat_add code 32) < 128" using mouse_code_small [OF code] by (simp add: unat_sat_add)
  have xy: "unat ?c1 = unat (me_col rq) + 33" "unat ?c2 = unat (me_row rq) + 33" "unat ?c1 < 256" "unat ?c2 < 256"
    using c by (auto simp: word_le_nat_alt unat_sat_add min_def split: if_splits)
  show ?thesis
    using b xy by (simp add: s utf8_bytes_def utf8_char_def Let_def ESC_def)
qed

theorem default_mouse_report_length_witness:
  "length (utf8_bytes (projr (encode_mouse_event Press EncDefault
     \<lparr> me_row = 0, me_col = 100, me_kind = EvPress, me_button = None, me_shift = False, me_alt = False,
       me_ctrl = False \<rparr>))) = 7"
proof -
  let ?rq = "\<lparr> me_row = 0, me_col = 100, me_kind = EvPress, me_button = None, me_shift = False,
    me_alt = False, me_ctrl = False \<rparr>"
  have "\<not> isl (encode_mouse_event Press EncDefault ?rq)" by code_simp
  then have "encode_mouse_event Press EncDefault ?rq = Inr (projr (encode_mouse_event Press EncDefault ?rq))"
    by (cases "encode_mouse_event Press EncDefault ?rq") simp_all
  from default_mouse_report_length [OF this] show ?thesis by simp
qed

end
