(* ===== verification/Broker_Registry.thy ===== *)
theory Broker_Registry
  imports Broker_Wire
begin

text \<open>
  The broker's session table (\<^verbatim>\<open>broker/src/registry.rs\<close>): the per-session entry with its activity
  clock, its outbound queue to the bound client and its durable subscriptions, and the registry
  of entries. An \<^verbatim>\<open>Instant\<close> is a number of nanoseconds. Handles of other subsystems (browser, tasks,
  watches, connections) are their numbers. What the bounded channel answers to \<^verbatim>\<open>try_send\<close> is an
  argument: the theorems hold for every answer.
\<close>

subsection \<open>Entries\<close>

record durable_network_observe =
  dno_subscription_id :: string
  dno_tab_id :: string
  dno_filter :: "string option"

record session_entry =
  en_session_id :: string
  en_browser :: nat
  en_created_at :: nat
  en_created_at_unix_ms :: u64
  en_last_activity_ms :: u64
  en_conn_tx :: "nat option"
  en_last_outbound_drop_warn_at :: "nat option"
  en_trace_enabled :: bool
  en_trace_drivers :: "nat list"
  en_forwarder_handles :: "nat list"
  en_durable_network_observe :: "durable_network_observe list"
  en_lifecycle :: "nat option"
  en_system_watches :: "nat list"
  en_context_label :: "string option"
  en_persist_context :: bool
  en_capabilities :: "string set"

definition entry_new :: "nat \<Rightarrow> u64 \<Rightarrow> string \<Rightarrow> nat \<Rightarrow> session_entry" where
  "entry_new now unix_ms session_id browser =
     \<lparr> en_session_id = session_id, en_browser = browser, en_created_at = now,
       en_created_at_unix_ms = unix_ms, en_last_activity_ms = 0, en_conn_tx = None,
       en_last_outbound_drop_warn_at = None, en_trace_enabled = False, en_trace_drivers = [],
       en_forwarder_handles = [], en_durable_network_observe = [], en_lifecycle = None,
       en_system_watches = [], en_context_label = None, en_persist_context = True,
       en_capabilities = {} \<rparr>"

definition has_capability :: "string \<Rightarrow> session_entry \<Rightarrow> bool" where
  "has_capability name e \<longleftrightarrow> name \<in> en_capabilities e"

definition has_native_capability :: "session_entry \<Rightarrow> bool" where
  "has_native_capability e \<longleftrightarrow> ''native'' \<in> en_capabilities e"

definition set_capabilities :: "string list \<Rightarrow> session_entry \<Rightarrow> session_entry" where
  "set_capabilities caps e = e\<lparr> en_capabilities := fold insert caps {} \<rparr>"

definition as_millis :: "nat \<Rightarrow> nat" where
  "as_millis ns = ns div 1000000"

definition touch :: "nat \<Rightarrow> session_entry \<Rightarrow> session_entry" where
  "touch now e = e\<lparr> en_last_activity_ms := word_of_nat (as_millis (now - en_created_at e)) \<rparr>"

definition last_activity_age_ms :: "nat \<Rightarrow> session_entry \<Rightarrow> u64" where
  "last_activity_age_ms now e =
     word_of_nat (as_millis (now - en_created_at e) - unat (en_last_activity_ms e))"

definition bind_conn :: "nat \<Rightarrow> session_entry \<Rightarrow> session_entry" where
  "bind_conn tx e = e\<lparr> en_conn_tx := Some tx \<rparr>"

definition unbind_conn :: "session_entry \<Rightarrow> session_entry" where
  "unbind_conn e = e\<lparr> en_conn_tx := None \<rparr>"

subsection \<open>Outbound events\<close>

definition OUTBOUND_DROP_WARN_INTERVAL :: nat where
  "OUTBOUND_DROP_WARN_INTERVAL = 5 * 1000000000"

datatype send_result = SendOk | SendFull | SendClosed

text \<open>The flag says whether the warning was logged.\<close>

definition warn_outbound_drop :: "nat \<Rightarrow> session_entry \<Rightarrow> session_entry \<times> bool" where
  "warn_outbound_drop now e =
     (let should_warn = (case en_last_outbound_drop_warn_at e of
            Some last_warn \<Rightarrow> now - last_warn \<ge> OUTBOUND_DROP_WARN_INTERVAL
          | None \<Rightarrow> True)
      in if should_warn then (e\<lparr> en_last_outbound_drop_warn_at := Some now \<rparr>, True) else (e, False))"

text \<open>
  The session, the session's \<^verbatim>\<open>outbound_drop_count\<close>, the times at which the warning was logged, and
  what the channels hold.
\<close>

record 'ev outbound =
  ob_entry :: session_entry
  ob_drop_count :: u64
  ob_warnings :: "nat list"
  ob_sent :: "(nat \<times> 'ev) list"

definition count_drop :: "nat \<Rightarrow> 'ev outbound \<Rightarrow> 'ev outbound" where
  "count_drop now s =
     (let (e, warned) = warn_outbound_drop now (ob_entry s)
      in s\<lparr> ob_entry := e, ob_drop_count := ob_drop_count s + 1,
            ob_warnings := ob_warnings s @ (if warned then [now] else []) \<rparr>)"

definition try_push_client_event ::
  "nat \<Rightarrow> send_result \<Rightarrow> 'ev \<Rightarrow> 'ev outbound \<Rightarrow> 'ev outbound \<times> bool" where
  "try_push_client_event now answer event s =
     (case en_conn_tx (ob_entry s) of
        None \<Rightarrow> (s, False)
      | Some tx \<Rightarrow>
          (case answer of
             SendOk \<Rightarrow> (s\<lparr> ob_sent := ob_sent s @ [(tx, event)] \<rparr>, True)
           | SendFull \<Rightarrow> (count_drop now s, False)
           | SendClosed \<Rightarrow> (count_drop now s, False)))"

fun push_all :: "(nat \<times> send_result \<times> 'ev) list \<Rightarrow> 'ev outbound \<Rightarrow> 'ev outbound" where
  "push_all [] s = s"
| "push_all ((now, answer, ev) # ps) s = push_all ps (fst (try_push_client_event now answer ev s))"

definition outbound_start :: "session_entry \<Rightarrow> 'ev outbound" where
  "outbound_start e = \<lparr> ob_entry = e, ob_drop_count = 0, ob_warnings = [], ob_sent = [] \<rparr>"

subsection \<open>Durable subscriptions and task handles\<close>

fun upsert_observe ::
  "durable_network_observe \<Rightarrow> durable_network_observe list \<Rightarrow> durable_network_observe list" where
  "upsert_observe ob [] = [ob]"
| "upsert_observe ob (x # xs) =
     (if dno_subscription_id x = dno_subscription_id ob then ob # xs else x # upsert_observe ob xs)"

definition upsert_durable_network_observe ::
  "durable_network_observe \<Rightarrow> session_entry \<Rightarrow> session_entry" where
  "upsert_durable_network_observe ob e =
     e\<lparr> en_durable_network_observe := upsert_observe ob (en_durable_network_observe e) \<rparr>"

definition clear_durable_network_observe :: "session_entry \<Rightarrow> session_entry" where
  "clear_durable_network_observe e = e\<lparr> en_durable_network_observe := [] \<rparr>"

definition push_trace_driver :: "nat \<Rightarrow> session_entry \<Rightarrow> session_entry" where
  "push_trace_driver h e = e\<lparr> en_trace_drivers := en_trace_drivers e @ [h] \<rparr>"

definition push_forwarder :: "nat \<Rightarrow> session_entry \<Rightarrow> session_entry" where
  "push_forwarder h e = e\<lparr> en_forwarder_handles := en_forwarder_handles e @ [h] \<rparr>"

text \<open>The second component is the list of tasks that are aborted.\<close>

definition abort_forwarders :: "session_entry \<Rightarrow> session_entry \<times> nat list" where
  "abort_forwarders e = (e\<lparr> en_forwarder_handles := [] \<rparr>, en_forwarder_handles e)"

definition abort_trace_drivers :: "session_entry \<Rightarrow> session_entry \<times> nat list" where
  "abort_trace_drivers e = (e\<lparr> en_trace_drivers := [] \<rparr>, en_trace_drivers e)"

definition register_system_watch :: "nat \<Rightarrow> session_entry \<Rightarrow> session_entry" where
  "register_system_watch h e = e\<lparr> en_system_watches := en_system_watches e @ [h] \<rparr>"

definition shutdown_system_watches :: "session_entry \<Rightarrow> session_entry" where
  "shutdown_system_watches e = e\<lparr> en_system_watches := [] \<rparr>"

subsection \<open>The registry\<close>

type_synonym session_registry = "(string \<times> session_entry) list"

definition registry_insert :: "session_entry \<Rightarrow> session_registry \<Rightarrow> session_registry" where
  "registry_insert e reg = AList.update (en_session_id e) e reg"

definition registry_get :: "session_registry \<Rightarrow> string \<Rightarrow> session_entry option" where
  "registry_get reg sid = map_of reg sid"

definition registry_remove :: "string \<Rightarrow> session_registry \<Rightarrow> session_registry" where
  "registry_remove sid reg = AList.delete sid reg"

definition registry_len :: "session_registry \<Rightarrow> nat" where
  "registry_len reg = length reg"

definition registry_ok :: "session_registry \<Rightarrow> bool" where
  "registry_ok reg \<longleftrightarrow> keyed_by en_session_id reg"

definition observe_get ::
  "durable_network_observe list \<Rightarrow> string \<Rightarrow> durable_network_observe option" where
  "observe_get obs sid = find (\<lambda>ob. dno_subscription_id ob = sid) obs"

definition observe_ok :: "durable_network_observe list \<Rightarrow> bool" where
  "observe_ok obs \<longleftrightarrow> distinct (map dno_subscription_id obs)"

subsection \<open>Specifications\<close>

text \<open>The events the channel took, and the times of the ones it refused.\<close>

definition pushed_ok :: "(nat \<times> send_result \<times> 'ev) list \<Rightarrow> 'ev list" where
  "pushed_ok ps = [ev. (now, answer, ev) \<leftarrow> ps, answer = SendOk]"

definition dropped_at :: "(nat \<times> send_result \<times> 'ev) list \<Rightarrow> nat list" where
  "dropped_at ps = [now. (now, answer, ev) \<leftarrow> ps, answer \<noteq> SendOk]"

text \<open>What the throttle has logged after the drops at \<open>ds\<close>, as a recursion on the drops alone.\<close>

fun throttle :: "nat option \<Rightarrow> nat list \<Rightarrow> nat list" where
  "throttle prev [] = []"
| "throttle prev (d # ds) =
     (if (case prev of None \<Rightarrow> True | Some w \<Rightarrow> d - w \<ge> OUTBOUND_DROP_WARN_INTERVAL)
      then d # throttle (Some d) ds else throttle prev ds)"

subsection \<open>The registry is a keyed store\<close>

lemma registry_get_map_of: "registry_get reg = map_of reg"
  by (simp add: registry_get_def fun_eq_iff)

interpretation sessions: keyed_store en_session_id registry_insert registry_get registry_len
  registry_ok registry_remove
  by unfold_locales
    (auto simp: registry_insert_def registry_get_map_of registry_len_def registry_ok_def
      registry_remove_def update_conv' delete_conv' keyed_by_update keyed_by_delete
      keyed_by_length finite_dom_map_of fun_eq_iff)

lemma observe_get_map_of:
  "observe_get obs = map_of (map (\<lambda>ob. (dno_subscription_id ob, ob)) obs)"
  by (induction obs) (auto simp: observe_get_def fun_eq_iff)

lemma ids_upsert_observe:
  "map dno_subscription_id (upsert_observe ob obs) =
     (if dno_subscription_id ob \<in> dno_subscription_id ` set obs then map dno_subscription_id obs
      else map dno_subscription_id obs @ [dno_subscription_id ob])"
  by (induction ob obs rule: upsert_observe.induct) auto

interpretation observes: keyed_upsert dno_subscription_id upsert_observe observe_get length observe_ok
proof unfold_locales
  fix obs v
  show "observe_get (upsert_observe v obs) = (observe_get obs)(dno_subscription_id v \<mapsto> v)"
    by (induction v obs rule: upsert_observe.induct) (auto simp: observe_get_def fun_eq_iff)
next
  fix obs v assume "observe_ok obs"
  then show "observe_ok (upsert_observe v obs)"
    by (auto simp: observe_ok_def ids_upsert_observe)
next
  fix obs
  show "finite (dom (observe_get obs))" by (simp add: observe_get_map_of finite_dom_map_of)
next
  fix obs assume "observe_ok obs"
  then show "length obs = card (dom (observe_get obs))"
    by (simp add: observe_ok_def observe_get_map_of dom_map_of_conv_image_fst image_comp comp_def)
      (metis distinct_card length_map list.set_map)
qed


subsection \<open>Outbound drops\<close>

lemma try_push_entry:
  "en_conn_tx (ob_entry (fst (try_push_client_event now answer ev s))) = en_conn_tx (ob_entry s)"
  by (auto simp: try_push_client_event_def count_drop_def warn_outbound_drop_def Let_def
      split: option.split send_result.split)

lemma push_all_effect:
  assumes "en_conn_tx (ob_entry s) = Some tx"
  shows "ob_sent (push_all ps s) = ob_sent s @ map (Pair tx) (pushed_ok ps) \<and>
     ob_drop_count (push_all ps s) = ob_drop_count s + of_nat (length (dropped_at ps)) \<and>
     ob_warnings (push_all ps s) =
       ob_warnings s @ throttle (en_last_outbound_drop_warn_at (ob_entry s)) (dropped_at ps)"
  using assms
proof (induction ps s rule: push_all.induct)
  case (2 now answer ev ps s)
  let ?s = "fst (try_push_client_event now answer ev s)"
  have "en_conn_tx (ob_entry ?s) = Some tx" using 2 by (simp add: try_push_entry)
  from 2(1) [OF this] 2(2) show ?case
    by (cases answer)
      (simp_all add: try_push_client_event_def pushed_ok_def dropped_at_def count_drop_def
        warn_outbound_drop_def Let_def split: option.splits)
qed (simp add: pushed_ok_def dropped_at_def)

lemma throttle_spacing:
  assumes "sorted ds" and "\<And>w. prev = Some w \<Longrightarrow> \<forall>d \<in> set ds. w \<le> d"
  shows "sorted_wrt (\<lambda>a b. a + OUTBOUND_DROP_WARN_INTERVAL \<le> b)
    ((case prev of None \<Rightarrow> [] | Some w \<Rightarrow> [w]) @ throttle prev ds)"
  using assms
proof (induction prev ds rule: throttle.induct)
  case (2 prev d ds)
  show ?case
  proof (cases "case prev of None \<Rightarrow> True | Some w \<Rightarrow> d - w \<ge> OUTBOUND_DROP_WARN_INTERVAL")
    case True
    then have "sorted_wrt (\<lambda>a b. a + OUTBOUND_DROP_WARN_INTERVAL \<le> b) ([d] @ throttle (Some d) ds)"
      using 2 by auto
    then show ?thesis
      using True 2(4) by (fastforce simp: OUTBOUND_DROP_WARN_INTERVAL_def split: option.splits)
  next
    case False
    then show ?thesis using 2 by (auto split: option.splits)
  qed
qed (auto split: option.split)

lemma throttle_covers:
  assumes "sorted ds" and "\<And>w. prev = Some w \<Longrightarrow> \<forall>d \<in> set ds. w \<le> d" and "d \<in> set ds"
  shows "\<exists>w \<in> set (case prev of None \<Rightarrow> [] | Some w \<Rightarrow> [w]) \<union> set (throttle prev ds).
    w \<le> d \<and> d < w + OUTBOUND_DROP_WARN_INTERVAL"
  using assms
proof (induction prev ds rule: throttle.induct)
  case (2 prev d' ds)
  show ?case
  proof (cases "case prev of None \<Rightarrow> True | Some w \<Rightarrow> d' - w \<ge> OUTBOUND_DROP_WARN_INTERVAL")
    case True
    have "d = d' \<or> d \<in> set ds" using 2 by simp
    then show ?thesis
    proof
      assume "d = d'"
      with True show ?thesis by (auto simp: OUTBOUND_DROP_WARN_INTERVAL_def)
    next
      assume "d \<in> set ds"
      with 2 True show ?thesis by fastforce
    qed
  next
    case False
    have "d = d' \<or> d \<in> set ds" using 2 by simp
    then show ?thesis
    proof
      assume "d = d'"
      with False 2(4) show ?thesis by (auto split: option.splits)
    next
      assume "d \<in> set ds"
      with 2 False show ?thesis by fastforce
    qed
  qed
qed simp

lemma throttle_subset: "set (throttle prev ds) \<subseteq> set ds"
  by (induction prev ds rule: throttle.induct) auto

lemma sorted_dropped_at: "sorted (map fst ps) \<Longrightarrow> sorted (dropped_at ps)"
  by (induction ps) (fastforce simp: dropped_at_def split: if_splits)+



text \<open>
  Durable subscriptions. After any sequence of \<^verbatim>\<open>upsert_durable_network_observe\<close> calls on a new
  session, every subscription id occurs once, a lookup finds the filter of the last call with that
  id, and the number of subscriptions is the number of different ids.
\<close>

theorem durable_observe_latest:
  "let obs = en_durable_network_observe
       (fold upsert_durable_network_observe vs (entry_new now unix_ms sid browser)) in
    distinct (map dno_subscription_id obs) \<and>
    observe_get obs = map_of (rev (map (\<lambda>v. (dno_subscription_id v, v)) vs)) \<and>
    length obs = card (dno_subscription_id ` set vs)"
proof -
  have eq: "en_durable_network_observe (fold upsert_durable_network_observe vs e) =
      fold upsert_observe vs (en_durable_network_observe e)" for e
    by (induction vs arbitrary: e) (simp_all add: upsert_durable_network_observe_def)
  have ok: "observe_ok []" by (simp add: observe_ok_def)
  let ?obs = "fold upsert_observe vs []"
  have get: "observe_get ?obs = map_of (rev (map (\<lambda>v. (dno_subscription_id v, v)) vs))"
    using observes.get_fold_put [OF ok, of vs] by (simp add: observe_get_map_of)
  moreover have "length ?obs = card (dno_subscription_id ` set vs)"
    using observes.count_get [OF observes.ok_fold_put [OF ok, of vs]] get
    by (simp add: dom_map_of_conv_image_fst image_comp comp_def)
  ultimately show ?thesis
    using observes.ok_fold_put [OF ok, of vs] by (simp add: eq entry_new_def observe_ok_def)
qed

end
