(* ===== verification/Broker_Recovery.thy ===== *)
theory Broker_Recovery
  imports Broker_Registry
begin

text \<open>
  Crash recovery of a session (\<^verbatim>\<open>broker/src/recovery.rs\<close>) with the rebinding of its network
  subscriptions (\<^verbatim>\<open>broker/src/router/net.rs\<close>). A launched browser is its number; the receiver of its
  exit signal can be taken once (\<^verbatim>\<open>Browser::wait_for_exit\<close>). What the launch and the reattachment
  return is an argument, and so is the regular-expression compiler.
\<close>

subsection \<open>Window and events\<close>

definition RESPAWN_ACTIVITY_WINDOW_MS :: u64 where "RESPAWN_ACTIVITY_WINDOW_MS = 30000"

definition MAX_RESPAWN_ATTEMPTS :: u32 where "MAX_RESPAWN_ATTEMPTS = 3"

definition is_within_respawn_window :: "u64 \<Rightarrow> bool" where
  "is_within_respawn_window last_activity_ms \<longleftrightarrow>
     last_activity_ms \<noteq> 0 \<and> last_activity_ms < RESPAWN_ACTIVITY_WINDOW_MS"

definition build_recovered_event :: "string \<Rightarrow> string list \<Rightarrow> string list \<Rightarrow> server_event" where
  "build_recovered_event session_id previous_tab_ids new_tab_ids =
     \<lparr> se_jsonrpc = ''2.0'', se_method = ''event/notify'',
       se_params = JObject [(''topic'', JString ''session.recovered''),
         (''session_id'', JString session_id),
         (''previous_tab_ids'', JArray (map JString previous_tab_ids)),
         (''new_tab_ids'', JArray (map JString new_tab_ids)),
         (''payload'', JObject [])] \<rparr>"

definition build_recovery_failed_event :: "string \<Rightarrow> u32 \<Rightarrow> string \<Rightarrow> server_event" where
  "build_recovery_failed_event session_id attempts last_error =
     \<lparr> se_jsonrpc = ''2.0'', se_method = ''event/notify'',
       se_params = JObject [(''topic'', JString ''session.recovery_failed''),
         (''session_id'', JString session_id),
         (''attempts'', JPos (ucast attempts)),
         (''last_error'', JString last_error),
         (''payload'', JObject [])] \<rparr>"

subsection \<open>Rebinding of network subscriptions (router/net.rs)\<close>

record page_identity =
  pi_tab_id :: string
  pi_target_id :: string
  pi_url :: string
  pi_title :: string

definition match_observe_restored_page ::
  "durable_network_observe \<Rightarrow> page_identity list \<Rightarrow> page_identity list \<Rightarrow> page_identity option" where
  "match_observe_restored_page ob restored_pages previous_pages =
     (case find (\<lambda>p. pi_tab_id p = dno_tab_id ob) previous_pages of
        None \<Rightarrow> None
      | Some previous \<Rightarrow>
          (case find (\<lambda>p. pi_target_id p = pi_target_id previous) restored_pages of
             Some page \<Rightarrow> Some page
           | None \<Rightarrow>
               (let same_url = filter (\<lambda>p. pi_url p = pi_url previous) restored_pages
                in if length same_url = 1 then Some (hd same_url)
                   else
                     let same_url_and_title =
                       filter (\<lambda>p. pi_url p = pi_url previous \<and> pi_title p = pi_title previous)
                         restored_pages
                     in if length same_url_and_title = 1 then Some (hd same_url_and_title)
                        else None)))"

text \<open>The second component numbers the spawned tasks.\<close>

definition replay_observe ::
  "(string \<Rightarrow> bool) \<Rightarrow> page_identity list \<Rightarrow> page_identity list \<Rightarrow> durable_network_observe \<Rightarrow>
   session_entry \<times> nat \<Rightarrow> session_entry \<times> nat" where
  "replay_observe compiles restored_pages previous_pages ob s =
     (case s of (e, task) \<Rightarrow>
        if (case dno_filter ob of None \<Rightarrow> False | Some expr \<Rightarrow> \<not> compiles expr) then (e, task)
        else case match_observe_restored_page ob restored_pages previous_pages of
          None \<Rightarrow> (e, task)
        | Some restored \<Rightarrow>
            (push_forwarder task
               (upsert_durable_network_observe
                  \<lparr> dno_subscription_id = dno_subscription_id ob, dno_tab_id = pi_tab_id restored,
                    dno_filter = dno_filter ob \<rparr> e),
             Suc task))"

definition replay_network_observe_subscriptions ::
  "(string \<Rightarrow> bool) \<Rightarrow> page_identity list \<Rightarrow> page_identity list \<Rightarrow>
   session_entry \<times> nat \<Rightarrow> session_entry \<times> nat" where
  "replay_network_observe_subscriptions compiles restored_pages previous_pages s =
     fold (replay_observe compiles restored_pages previous_pages)
       (en_durable_network_observe (fst s)) s"

subsection \<open>Respawn\<close>

text \<open>The console and the exception forwarder of one restored page.\<close>

definition push_page_forwarders :: "page_identity \<Rightarrow> session_entry \<times> nat \<Rightarrow> session_entry \<times> nat" where
  "push_page_forwarders page s =
     (case s of (e, task) \<Rightarrow> (push_forwarder (Suc task) (push_forwarder task e), Suc (Suc task)))"

text \<open>What one attempt finds: the tabs of the dying browser, the binary, and what the launch and the
  reattachment answer.\<close>

record respawn_env =
  rv_previous_pages :: "page_identity list"
  rv_binary :: "string option"
  rv_launch :: "string + nat"
  rv_reattach :: "string + page_identity list"

definition respawn_and_swap ::
  "(string \<Rightarrow> bool) \<Rightarrow> respawn_env \<Rightarrow> session_entry \<times> nat \<Rightarrow>
   (string + string list \<times> string list) \<times> session_entry \<times> nat" where
  "respawn_and_swap compiles env s =
     (case rv_binary env of
        None \<Rightarrow> (Inl ''chromium binary not yet resolved'', s)
      | Some binary \<Rightarrow>
          (case rv_launch env of
             Inl err \<Rightarrow> (Inl (''respawn Browser::launch: '' @ err), s)
           | Inr new_browser \<Rightarrow>
               (case rv_reattach env of
                  Inl err \<Rightarrow> (Inl (''reattach_existing_targets: '' @ err), s)
                | Inr restored_pages \<Rightarrow>
                    (let s = fold push_page_forwarders restored_pages s;
                         (e, task) = replay_network_observe_subscriptions compiles restored_pages
                           (rv_previous_pages env) s
                     in (Inr (map pi_tab_id (rv_previous_pages env), map pi_tab_id restored_pages),
                         e\<lparr> en_browser := new_browser \<rparr>, task)))))"

subsection \<open>The watcher\<close>

record watcher =
  wt_entry :: session_entry
  wt_next_task :: nat
  wt_taken :: "nat set"
  wt_recovery_count :: u64
  wt_recovery_failed_count :: u64
  wt_pushed :: "server_event list"

datatype watcher_end = Watching | ExitChannelUnavailable | OutsideWindow | GaveUp

definition wait_for_exit :: "watcher \<Rightarrow> watcher option" where
  "wait_for_exit w =
     (if en_browser (wt_entry w) \<in> wt_taken w then None
      else Some (w\<lparr> wt_taken := insert (en_browser (wt_entry w)) (wt_taken w) \<rparr>))"

text \<open>
  One pass of the loop per exit signal; with the signal come the value of the session's activity
  clock when it arrives and what the attempt finds. The loop ends in \<open>Watching\<close> when it waits for a
  signal that has not come.
\<close>

fun recovery_loop ::
  "(string \<Rightarrow> bool) \<Rightarrow> (u64 \<times> respawn_env) list \<Rightarrow> u32 \<Rightarrow> watcher \<Rightarrow> watcher \<times> watcher_end" where
  "recovery_loop compiles crashes consecutive_failures w =
     (case wait_for_exit w of
        None \<Rightarrow> (w, ExitChannelUnavailable)
      | Some w \<Rightarrow>
          (case crashes of
             [] \<Rightarrow> (w, Watching)
           | (last_activity, env) # rest \<Rightarrow>
               if \<not> is_within_respawn_window last_activity then (w, OutsideWindow)
               else
                 case respawn_and_swap compiles env (wt_entry w, wt_next_task w) of
                   (Inr (previous_tab_ids, new_tab_ids), e, task) \<Rightarrow>
                     recovery_loop compiles rest 0
                       (w\<lparr> wt_entry := e, wt_next_task := task,
                           wt_recovery_count := wt_recovery_count w + 1,
                           wt_pushed := wt_pushed w @
                             [build_recovered_event (en_session_id (wt_entry w)) previous_tab_ids
                                new_tab_ids] \<rparr>)
                 | (Inl last_error, e, task) \<Rightarrow>
                     (let consecutive_failures = sat_add consecutive_failures 1;
                          w = w\<lparr> wt_entry := e, wt_next_task := task,
                                 wt_recovery_failed_count := wt_recovery_failed_count w + 1 \<rparr>
                      in if consecutive_failures \<ge> MAX_RESPAWN_ATTEMPTS
                         then (w\<lparr> wt_pushed := wt_pushed w @
                                 [build_recovery_failed_event (en_session_id (wt_entry w))
                                    consecutive_failures last_error] \<rparr>, GaveUp)
                         else recovery_loop compiles rest consecutive_failures w)))"

declare recovery_loop.simps [simp del]

definition watcher_start :: "session_entry \<Rightarrow> nat \<Rightarrow> watcher" where
  "watcher_start e task =
     \<lparr> wt_entry = e, wt_next_task = task, wt_taken = {}, wt_recovery_count = 0,
       wt_recovery_failed_count = 0, wt_pushed = [] \<rparr>"

subsection \<open>Specifications\<close>

text \<open>An exit the watcher recovers from, and the browsers the attempts launch.\<close>

definition recovers :: "u64 \<times> respawn_env \<Rightarrow> bool" where
  "recovers crash \<longleftrightarrow>
     is_within_respawn_window (fst crash) \<and> rv_binary (snd crash) \<noteq> None \<and>
     isl (rv_launch (snd crash)) = False \<and> isl (rv_reattach (snd crash)) = False"

definition launched :: "(u64 \<times> respawn_env) list \<Rightarrow> nat list" where
  "launched crashes =
     concat (map (\<lambda>(_, env). case rv_launch env of Inl _ \<Rightarrow> [] | Inr b \<Rightarrow> [b]) crashes)"

definition recovered_event_of :: "string \<Rightarrow> u64 \<times> respawn_env \<Rightarrow> server_event" where
  "recovered_event_of sid crash =
     build_recovered_event sid (map pi_tab_id (rv_previous_pages (snd crash)))
       (case rv_reattach (snd crash) of Inr pages \<Rightarrow> map pi_tab_id pages | Inl _ \<Rightarrow> [])"

definition rebind ::
  "(string \<Rightarrow> bool) \<Rightarrow> page_identity list \<Rightarrow> page_identity list \<Rightarrow> durable_network_observe \<Rightarrow>
   durable_network_observe" where
  "rebind compiles restored previous ob =
     (if (case dno_filter ob of None \<Rightarrow> False | Some expr \<Rightarrow> \<not> compiles expr) then ob
      else case match_observe_restored_page ob restored previous of
        None \<Rightarrow> ob
      | Some p \<Rightarrow> ob\<lparr> dno_tab_id := pi_tab_id p \<rparr>)"

text \<open>Example values.\<close>

definition sample_page :: page_identity where
  "sample_page = \<lparr> pi_tab_id = ''t_1'', pi_target_id = ''T1'', pi_url = ''https://a'', pi_title = ''A'' \<rparr>"

definition sample_env :: "nat \<Rightarrow> respawn_env" where
  "sample_env b = \<lparr> rv_previous_pages = [sample_page], rv_binary = Some ''chrome'', rv_launch = Inr b,
     rv_reattach = Inr [sample_page\<lparr> pi_tab_id := ''t_2'' \<rparr>] \<rparr>"

subsection \<open>Rebinding\<close>

lemma rebind_id [simp]: "dno_subscription_id (rebind compiles restored previous ob) = dno_subscription_id ob"
  by (simp add: rebind_def split: option.split)

lemma upsert_observe_middle:
  "dno_subscription_id ob' = dno_subscription_id ob \<Longrightarrow>
   dno_subscription_id ob \<notin> dno_subscription_id ` set xs \<Longrightarrow>
   upsert_observe ob' (xs @ ob # ys) = xs @ ob' # ys"
  by (induction xs) auto

lemma replay_observe_durable:
  assumes "en_durable_network_observe e = xs @ ob # ys"
    and "dno_subscription_id ob \<notin> dno_subscription_id ` set xs"
  shows "en_durable_network_observe (fst (replay_observe compiles restored previous ob (e, task))) =
    xs @ rebind compiles restored previous ob # ys"
  using assms
  by (cases ob) (simp add: replay_observe_def rebind_def push_forwarder_def
      upsert_durable_network_observe_def upsert_observe_middle split: option.split)

lemma replay_fold_durable:
  assumes "en_durable_network_observe (fst s) = xs @ obs"
    and "distinct (map dno_subscription_id (xs @ obs))"
  shows "en_durable_network_observe (fst (fold (replay_observe compiles restored previous) obs s)) =
    xs @ map (rebind compiles restored previous) obs"
  using assms
proof (induction obs arbitrary: xs s)
  case (Cons ob obs)
  obtain e task where s: "s = (e, task)" by (cases s)
  have "en_durable_network_observe (fst (replay_observe compiles restored previous ob s)) =
      (xs @ [rebind compiles restored previous ob]) @ obs"
    using Cons.prems replay_observe_durable [of e xs ob obs] by (simp add: s)
  from Cons.IH [OF this] Cons.prems(2) show ?case by simp
qed simp

lemma push_page_forwarders_frame:
  "en_durable_network_observe (fst (fold push_page_forwarders pages s)) =
     en_durable_network_observe (fst s)"
  "en_session_id (fst (fold push_page_forwarders pages s)) = en_session_id (fst s)"
  by (induction pages arbitrary: s)
    (auto simp: push_page_forwarders_def push_forwarder_def split: prod.split)

lemma upt_two: "t # Suc t # [Suc (Suc t)..<Suc (Suc t) + n] = [t..<t + (2 + n)]"
  by (simp add: upt_conv_Cons del: upt_Suc)

lemma push_page_forwarders_handles:
  "en_forwarder_handles (fst (fold push_page_forwarders pages s)) =
     en_forwarder_handles (fst s) @ [snd s..<snd s + 2 * length pages] \<and>
   snd (fold push_page_forwarders pages s) = snd s + 2 * length pages"
proof (induction pages arbitrary: s)
  case (Cons page pages)
  obtain e t where s: "s = (e, t)" by (cases s)
  show ?case
    using Cons [of "push_page_forwarders page s"] upt_two [of t "2 * length pages"]
    by (simp add: s push_page_forwarders_def push_forwarder_def del: upt_Suc)
qed simp

lemma replay_frame:
  "en_session_id (fst (fold (replay_observe compiles restored previous) obs s)) = en_session_id (fst s)"
  by (induction obs arbitrary: s)
    (auto simp: replay_observe_def push_forwarder_def upsert_durable_network_observe_def
      split: prod.split option.split)

lemma respawn_cases:
  "recovers (a, env) \<Longrightarrow> \<exists>b pages e t. rv_launch env = Inr b \<and> rv_reattach env = Inr pages \<and>
     respawn_and_swap compiles env s = (Inr (map pi_tab_id (rv_previous_pages env), map pi_tab_id pages), e, t) \<and>
     en_browser e = b \<and> en_session_id e = en_session_id (fst s)"
  "is_within_respawn_window a \<Longrightarrow> \<not> recovers (a, env) \<Longrightarrow>
     \<exists>err. respawn_and_swap compiles env s = (Inl err, s)"
proof -
  assume "recovers (a, env)"
  then obtain b pages binary where env: "rv_launch env = Inr b" "rv_reattach env = Inr pages"
      "rv_binary env = Some binary"
    by (cases "rv_launch env"; cases "rv_reattach env") (auto simp: recovers_def)
  obtain e t where "replay_network_observe_subscriptions compiles pages (rv_previous_pages env)
      (fold push_page_forwarders pages s) = (e, t)" by fastforce
  moreover from this have "en_session_id e = en_session_id (fst s)"
    using replay_frame [of compiles pages "rv_previous_pages env" _ "fold push_page_forwarders pages s"]
    by (metis fst_conv push_page_forwarders_frame(2) replay_network_observe_subscriptions_def)
  ultimately show "\<exists>b pages e t. rv_launch env = Inr b \<and> rv_reattach env = Inr pages \<and>
     respawn_and_swap compiles env s = (Inr (map pi_tab_id (rv_previous_pages env), map pi_tab_id pages), e, t) \<and>
     en_browser e = b \<and> en_session_id e = en_session_id (fst s)"
    by (simp add: respawn_and_swap_def env)
next
  assume "is_within_respawn_window a" "\<not> recovers (a, env)"
  then show "\<exists>err. respawn_and_swap compiles env s = (Inl err, s)"
    by (auto simp: recovers_def respawn_and_swap_def split: option.split sum.split)
qed

lemma replay_handles:
  "en_forwarder_handles (fst (fold (replay_observe compiles restored previous) obs s)) =
     en_forwarder_handles (fst s) @
       [snd s..<snd (fold (replay_observe compiles restored previous) obs s)] \<and>
   snd s \<le> snd (fold (replay_observe compiles restored previous) obs s)"
proof (induction obs arbitrary: s)
  case (Cons ob obs)
  obtain e t where s: "s = (e, t)" by (cases s)
  let ?s = "replay_observe compiles restored previous ob s"
  have "(en_forwarder_handles (fst ?s) = en_forwarder_handles e \<and> snd ?s = t) \<or>
      (en_forwarder_handles (fst ?s) = en_forwarder_handles e @ [t] \<and> snd ?s = Suc t)"
    by (auto simp: s replay_observe_def push_forwarder_def upsert_durable_network_observe_def
        split: option.split)
  with Cons [of ?s] show ?case by (auto simp: s upt_conv_Cons)
qed simp

subsection \<open>The watcher's run\<close>

lemma watcher_start_simps [simp]:
  "wt_entry (watcher_start e task) = e" "wt_taken (watcher_start e task) = {}"
  "wt_recovery_count (watcher_start e task) = 0" "wt_pushed (watcher_start e task) = []"
  "wt_recovery_failed_count (watcher_start e task) = 0"
  by (simp_all add: watcher_start_def)

lemma recovery_loop_failed_stops:
  "en_browser (wt_entry w) \<in> wt_taken w \<Longrightarrow>
   recovery_loop compiles crashes n w = (w, ExitChannelUnavailable)"
  by (subst recovery_loop.simps) (simp add: wait_for_exit_def)

lemma first_failure_low: "\<not> MAX_RESPAWN_ATTEMPTS \<le> sat_add 0 1"
  by (simp add: MAX_RESPAWN_ATTEMPTS_def sat_add_def word_le_nat_alt)

lemma recovery_loop_outcome:
  assumes "en_browser (wt_entry w) \<notin> wt_taken w"
    and "distinct (en_browser (wt_entry w) # launched crashes)"
    and "set (launched crashes) \<inter> wt_taken w = {}"
  shows "case recovery_loop compiles crashes 0 w of (w', end') \<Rightarrow>
    wt_pushed w' = wt_pushed w @
      map (recovered_event_of (en_session_id (wt_entry w))) (takeWhile recovers crashes) \<and>
    wt_recovery_count w' = wt_recovery_count w + of_nat (length (takeWhile recovers crashes)) \<and>
    (case dropWhile recovers crashes of
       [] \<Rightarrow> end' = Watching \<and> wt_recovery_failed_count w' = wt_recovery_failed_count w
     | crash # _ \<Rightarrow>
         if is_within_respawn_window (fst crash)
         then end' = ExitChannelUnavailable \<and>
              wt_recovery_failed_count w' = wt_recovery_failed_count w + 1
         else end' = OutsideWindow \<and> wt_recovery_failed_count w' = wt_recovery_failed_count w)"
  using assms
proof (induction crashes arbitrary: w)
  case Nil
  then show ?case by (simp add: recovery_loop.simps wait_for_exit_def)
next
  case (Cons crash rest)
  obtain a env where crash: "crash = (a, env)" by (cases crash)
  let ?w = "w\<lparr> wt_taken := insert (en_browser (wt_entry w)) (wt_taken w) \<rparr>"
  have wait: "wait_for_exit w = Some ?w" using Cons.prems by (simp add: wait_for_exit_def)
  note unfold = recovery_loop.simps [of compiles "crash # rest" 0 w]
  show ?case
  proof (cases "recovers crash")
    case True
    then have win: "is_within_respawn_window a" by (simp add: crash recovers_def)
    from respawn_cases(1) [OF True [unfolded crash], of compiles "(wt_entry w, wt_next_task w)"]
    obtain b pages e t where b: "rv_launch env = Inr b" and pages: "rv_reattach env = Inr pages"
      and res: "respawn_and_swap compiles env (wt_entry w, wt_next_task w) =
        (Inr (map pi_tab_id (rv_previous_pages env), map pi_tab_id pages), e, t)"
      and e: "en_browser e = b" "en_session_id e = en_session_id (wt_entry w)"
      by auto
    let ?w' = "?w\<lparr> wt_entry := e, wt_next_task := t, wt_recovery_count := wt_recovery_count w + 1,
      wt_pushed := wt_pushed w @ [recovered_event_of (en_session_id (wt_entry w)) crash] \<rparr>"
    have step: "recovery_loop compiles (crash # rest) 0 w = recovery_loop compiles rest 0 ?w'"
      unfolding unfold by (simp add: wait crash win res recovered_event_of_def pages)
    have "b \<notin> set (launched rest)" "b \<noteq> en_browser (wt_entry w)" "b \<notin> wt_taken w"
      "distinct (launched rest)" "en_browser (wt_entry w) \<notin> set (launched rest)"
      "set (launched rest) \<inter> wt_taken w = {}"
      using Cons.prems(2,3) by (auto simp: launched_def crash b)
    with Cons.IH [of ?w'] show ?thesis
      unfolding step by (simp add: e True) (auto split: list.splits prod.splits)
  next
    case False
    show ?thesis
    proof (cases "is_within_respawn_window a")
      case True
      with respawn_cases(2) [OF True, of env compiles "(wt_entry w, wt_next_task w)"] False
      obtain err where "respawn_and_swap compiles env (wt_entry w, wt_next_task w) =
          (Inl err, wt_entry w, wt_next_task w)"
        by (auto simp: crash)
      then show ?thesis
        unfolding unfold using True False
        by (simp add: wait crash Let_def recovery_loop_failed_stops first_failure_low)
    next
      case win: False
      with False show ?thesis unfolding unfold by (simp add: wait crash)
    qed
  qed
qed

lemma recovery_loop_no_give_up:
  "snd (recovery_loop compiles crashes 0 w) \<noteq> GaveUp \<and>
   (\<forall>ev \<in> set (wt_pushed (fst (recovery_loop compiles crashes 0 w))).
     ev \<in> set (wt_pushed w) \<or>
     (\<exists>old new. ev = build_recovered_event (en_session_id (wt_entry w)) old new))"
proof (induction crashes arbitrary: w)
  case Nil
  then show ?case by (simp add: recovery_loop.simps wait_for_exit_def)
next
  case (Cons crash rest)
  obtain a env where crash: "crash = (a, env)" by (cases crash)
  let ?w = "w\<lparr> wt_taken := insert (en_browser (wt_entry w)) (wt_taken w) \<rparr>"
  note unfold = recovery_loop.simps [of compiles "crash # rest" 0 w]
  show ?case
  proof (cases "recovers crash")
    case True
    then have win: "is_within_respawn_window a" by (simp add: crash recovers_def)
    from respawn_cases(1) [OF True [unfolded crash], of compiles "(wt_entry w, wt_next_task w)"]
    obtain old new e t where "respawn_and_swap compiles env (wt_entry w, wt_next_task w) =
        (Inr (old, new), e, t)" and "en_session_id e = en_session_id (wt_entry w)" by auto
    then show ?thesis
      unfolding unfold using Cons.IH [of "?w\<lparr> wt_entry := e, wt_next_task := t,
        wt_recovery_count := wt_recovery_count w + 1,
        wt_pushed := wt_pushed w @ [build_recovered_event (en_session_id (wt_entry w)) old new] \<rparr>"]
      by (auto simp: wait_for_exit_def crash win)
  next
    case False
    then show ?thesis
      unfolding unfold using respawn_cases(2) [of a env compiles "(wt_entry w, wt_next_task w)"]
      by (auto simp: wait_for_exit_def crash first_failure_low Let_def recovery_loop_failed_stops)
  qed
qed



text \<open>
  The watcher never reports that it gave up. Whatever the exits and the attempts, the loop does
  not reach the branch that pushes \<^verbatim>\<open>session.recovery_failed\<close>, and every event it pushes is a
  \<^verbatim>\<open>session.recovered\<close> event.
\<close>

theorem recovery_failure_never_reported:
  "snd (recovery_loop compiles crashes 0 (watcher_start e task)) \<noteq> GaveUp \<and>
   list_all (\<lambda>ev. \<exists>old new. ev = build_recovered_event (en_session_id e) old new)
     (wt_pushed (fst (recovery_loop compiles crashes 0 (watcher_start e task))))"
  using recovery_loop_no_give_up [of compiles crashes "watcher_start e task"]
  by (simp add: list_all_iff)

text \<open>
  What the respawn window measures. For a session whose last request came at time \<open>t\<close>, the
  watcher respawns exactly when \<open>t\<close> lies between 1 ms and 30 s after the session was created,
  whatever the time \<open>now\<close> of the crash and so whatever the age of the activity then.
\<close>

theorem respawn_window_is_session_age:
  assumes "en_created_at e \<le> t" and "t \<le> now" and "as_millis (now - en_created_at e) < 2 ^ 64"
  shows "(is_within_respawn_window (en_last_activity_ms (touch t e)) \<longleftrightarrow>
      en_created_at e + 1000000 \<le> t \<and> t < en_created_at e + 30000 * 1000000) \<and>
    unat (last_activity_age_ms now (touch t e)) =
      as_millis (now - en_created_at e) - as_millis (t - en_created_at e)"
proof -
  define d where "d = as_millis (t - en_created_at e)"
  have "d \<le> as_millis (now - en_created_at e)"
    using assms(2) by (auto simp: d_def as_millis_def intro: div_le_mono)
  with assms(3) have small: "d < 2 ^ 64" by linarith
  then have u: "unat (word_of_nat d :: u64) = d"
    by (simp add: unat_of_nat)
  have "0 < d \<longleftrightarrow> en_created_at e + 1000000 \<le> t" "d < 30000 \<longleftrightarrow> t < en_created_at e + 30000 * 1000000"
    using assms(1) by (auto simp: d_def as_millis_def div_greater_zero_iff less_mult_imp_div_less div_less_iff_less_mult)
  moreover have "is_within_respawn_window (word_of_nat d) \<longleftrightarrow> 0 < d \<and> d < 30000"
    using u by (cases "d = 0") (auto simp: is_within_respawn_window_def RESPAWN_ACTIVITY_WINDOW_MS_def
        word_less_nat_alt)
  moreover have "unat (word_of_nat (as_millis (now - en_created_at e) - d) :: u64) =
      as_millis (now - en_created_at e) - d"
    using assms(3) by (simp add: unat_of_nat)
  ultimately show ?thesis
    using u by (simp add: touch_def last_activity_age_ms_def d_def)
qed

theorem respawn_window_is_session_age_witness:
  "let e = entry_new 0 0 ''s_1'' 0; busy = 40000 * 1000000 in
     \<not> is_within_respawn_window (en_last_activity_ms (touch busy e)) \<and>
     unat (last_activity_age_ms busy (touch busy e)) = 0"
  using respawn_window_is_session_age [of "entry_new 0 0 ''s_1'' 0" "40000 * 1000000" "40000 * 1000000"]
  by (simp add: entry_new_def as_millis_def)



end
