(* ===== verification/Broker_Server.thy ===== *)
theory Broker_Server
  imports Broker_Recovery
begin

text \<open>
  Connections, registration and the idle lifecycle of sessions (\<^verbatim>\<open>broker/src/server.rs\<close>,
  \<^verbatim>\<open>router/session.rs\<close>, \<^verbatim>\<open>lifecycle.rs\<close>, \<^verbatim>\<open>lib.rs\<close>) as one machine. An entry is shared by the registry,
  the connections and its lifecycle task, so entries live in a store under their id and the registry
  is the list of registered ids. Connections and lifecycle tasks are their positions in a list. One
  operation is what a task does between two suspension points. Counters that count messages and
  sessions of one process (\<^verbatim>\<open>usize\<close> and \<^verbatim>\<open>AtomicU64\<close>) are natural numbers.
\<close>

subsection \<open>The lifecycle task (lifecycle.rs)\<close>

datatype lifecycle_message = Connected | Disconnected | Shutdown

datatype task_phase = Running | Exiting | Exited

record lifecycle_task =
  lt_session :: string
  lt_connected_count :: nat
  lt_drain_deadline :: "nat option"
  lt_phase :: task_phase
  lt_inbox :: "lifecycle_message list"

definition default_drain_after :: nat where
  "default_drain_after = 300 * 1000000000"

definition lifecycle_spawn :: "string \<Rightarrow> lifecycle_task" where
  "lifecycle_spawn sid =
     \<lparr> lt_session = sid, lt_connected_count = 0, lt_drain_deadline = None, lt_phase = Running,
       lt_inbox = [] \<rparr>"

text \<open>One message; the flag says that the loop is left.\<close>

fun lifecycle_message_step ::
  "nat \<Rightarrow> nat \<Rightarrow> lifecycle_message \<Rightarrow> lifecycle_task \<Rightarrow> lifecycle_task \<times> bool" where
  "lifecycle_message_step drain_after now Connected l =
     (l\<lparr> lt_connected_count := lt_connected_count l + 1, lt_drain_deadline := None \<rparr>, False)"
| "lifecycle_message_step drain_after now Disconnected l =
     (let l = l\<lparr> lt_connected_count := lt_connected_count l - 1 \<rparr>
      in if lt_connected_count l = 0
         then (l\<lparr> lt_drain_deadline := Some (now + drain_after) \<rparr>, False) else (l, False))"
| "lifecycle_message_step drain_after now Shutdown l = (l, True)"

definition lifecycle_elapsed :: "nat \<Rightarrow> lifecycle_task \<Rightarrow> bool" where
  "lifecycle_elapsed now l \<longleftrightarrow>
     (case lt_drain_deadline l of None \<Rightarrow> False | Some d \<Rightarrow> d \<le> now)"

subsection \<open>The broker\<close>

datatype conn_busy = Reading | Launching string | Closing string

record connection =
  cn_open :: bool
  cn_busy :: conn_busy
  cn_bound_session :: "string option"
  cn_bound_lifecycle :: "nat option"

record broker =
  bk_now :: nat
  bk_drain_after :: nat
  bk_max_sessions :: nat
  bk_entries :: session_registry
  bk_registry :: "string list"
  bk_rejected_cap :: nat
  bk_next_session :: nat
  bk_conns :: "connection list"
  bk_tasks :: "lifecycle_task list"

definition broker_new :: "nat \<Rightarrow> nat \<Rightarrow> broker" where
  "broker_new drain_after max_sessions =
     \<lparr> bk_now = 0, bk_drain_after = drain_after, bk_max_sessions = max max_sessions 1,
       bk_entries = [], bk_registry = [], bk_rejected_cap = 0, bk_next_session = 1, bk_conns = [],
       bk_tasks = [] \<rparr>"

definition accept_conn :: "broker \<Rightarrow> broker" where
  "accept_conn b =
     b\<lparr> bk_conns := bk_conns b @ [\<lparr> cn_open = True, cn_busy = Reading, cn_bound_session = None,
          cn_bound_lifecycle = None \<rparr>] \<rparr>"

definition reading :: "nat \<Rightarrow> broker \<Rightarrow> bool" where
  "reading c b \<longleftrightarrow> c < length (bk_conns b) \<and> cn_open (bk_conns b ! c) \<and> cn_busy (bk_conns b ! c) = Reading"

definition set_conn :: "nat \<Rightarrow> connection \<Rightarrow> broker \<Rightarrow> broker" where
  "set_conn c cn b = b\<lparr> bk_conns := (bk_conns b)[c := cn] \<rparr>"

definition set_task :: "nat \<Rightarrow> lifecycle_task \<Rightarrow> broker \<Rightarrow> broker" where
  "set_task t l b = b\<lparr> bk_tasks := (bk_tasks b)[t := l] \<rparr>"

definition upd_entry :: "string \<Rightarrow> (session_entry \<Rightarrow> session_entry) \<Rightarrow> broker \<Rightarrow> broker" where
  "upd_entry sid f b =
     (case registry_get (bk_entries b) sid of
        None \<Rightarrow> b
      | Some e \<Rightarrow> b\<lparr> bk_entries := registry_insert (f e) (bk_entries b) \<rparr>)"

text \<open>\<^verbatim>\<open>tx.send\<close>: the task that has left its loop does not read the message any more.\<close>

definition notify_lifecycle :: "nat \<Rightarrow> lifecycle_message \<Rightarrow> broker \<Rightarrow> broker" where
  "notify_lifecycle t msg b =
     (if t < length (bk_tasks b) \<and> lt_phase (bk_tasks b ! t) = Running
      then set_task t ((bk_tasks b ! t)\<lparr> lt_inbox := lt_inbox (bk_tasks b ! t) @ [msg] \<rparr>) b else b)"

subsection \<open>Registration (router/session.rs and server.rs)\<close>

definition session_id_of :: "nat \<Rightarrow> string" where
  "session_id_of n = ''s_'' @ nat_to_hex n"

text \<open>A new session: the cap check under the gate, which is dropped before the launch.\<close>

definition register_begin :: "nat \<Rightarrow> broker \<Rightarrow> broker" where
  "register_begin c b =
     (if \<not> reading c b then b
      else if length (bk_registry b) \<ge> bk_max_sessions b
      then b\<lparr> bk_rejected_cap := bk_rejected_cap b + 1 \<rparr>
      else set_conn c ((bk_conns b ! c)\<lparr> cn_busy := Launching (session_id_of (bk_next_session b)) \<rparr>)
             (b\<lparr> bk_next_session := bk_next_session b + 1 \<rparr>))"

text \<open>The binding of the connection to the session named in a successful reply.\<close>

definition bind_registered :: "nat \<Rightarrow> string \<Rightarrow> broker \<Rightarrow> broker" where
  "bind_registered c sid b =
     (if sid \<notin> set (bk_registry b) then b
      else case registry_get (bk_entries b) sid of
        None \<Rightarrow> b
      | Some e \<Rightarrow>
          (let (t, b) = (case en_lifecycle e of
                 Some existing \<Rightarrow> (existing, b)
               | None \<Rightarrow>
                   (length (bk_tasks b),
                    upd_entry sid (\<lambda>e. e\<lparr> en_lifecycle := Some (length (bk_tasks b)) \<rparr>)
                      (b\<lparr> bk_tasks := bk_tasks b @ [lifecycle_spawn sid] \<rparr>)));
               b = notify_lifecycle t Connected b;
               b = upd_entry sid (bind_conn c) b
           in set_conn c ((bk_conns b ! c)\<lparr> cn_bound_session := Some sid, cn_bound_lifecycle := Some t \<rparr>) b))"

text \<open>The end of the launch: \<open>None\<close> is a failed launch, which leaves no trace in the registry.\<close>

definition register_finish :: "nat \<Rightarrow> nat option \<Rightarrow> u64 \<Rightarrow> string list \<Rightarrow> broker \<Rightarrow> broker" where
  "register_finish c launch unix_ms caps b =
     (if \<not> (c < length (bk_conns b) \<and> cn_open (bk_conns b ! c)) then b
      else case cn_busy (bk_conns b ! c) of
        Launching sid \<Rightarrow>
          (let b = set_conn c ((bk_conns b ! c)\<lparr> cn_busy := Reading \<rparr>) b
           in case launch of
                None \<Rightarrow> b
              | Some browser \<Rightarrow>
                  (let e = set_capabilities caps (entry_new (bk_now b) unix_ms sid browser);
                       b = b\<lparr> bk_entries := registry_insert e (bk_entries b),
                              bk_registry := List.insert sid (bk_registry b) \<rparr>
                   in bind_registered c sid b))
      | _ \<Rightarrow> b)"

definition register_existing :: "nat \<Rightarrow> string \<Rightarrow> string list \<Rightarrow> broker \<Rightarrow> broker" where
  "register_existing c sid caps b =
     (if \<not> reading c b then b
      else if sid \<notin> set (bk_registry b) then b
      else bind_registered c sid (upd_entry sid (set_capabilities caps) b))"

subsection \<open>The end of connections and sessions\<close>

definition disconnect :: "nat \<Rightarrow> broker \<Rightarrow> broker" where
  "disconnect c b =
     (if \<not> reading c b then b
      else
        (let cn = bk_conns b ! c;
             b = set_conn c (cn\<lparr> cn_open := False \<rparr>) b;
             b = (case cn_bound_session cn of None \<Rightarrow> b | Some sid \<Rightarrow> upd_entry sid unbind_conn b)
         in case cn_bound_lifecycle cn of None \<Rightarrow> b | Some t \<Rightarrow> notify_lifecycle t Disconnected b))"

text \<open>A failed read leaves the handler before the cleanup.\<close>

definition conn_error :: "nat \<Rightarrow> broker \<Rightarrow> broker" where
  "conn_error c b =
     (if \<not> reading c b then b else set_conn c ((bk_conns b ! c)\<lparr> cn_open := False \<rparr>) b)"

definition unregister_begin :: "nat \<Rightarrow> broker \<Rightarrow> broker" where
  "unregister_begin c b =
     (if \<not> reading c b then b
      else case cn_bound_session (bk_conns b ! c) of
        None \<Rightarrow> b
      | Some sid \<Rightarrow>
          (let lc = (case registry_get (bk_entries b) sid of None \<Rightarrow> None | Some e \<Rightarrow> en_lifecycle e);
               b = upd_entry sid (\<lambda>e. e\<lparr> en_lifecycle := None \<rparr>) b;
               b = (case lc of None \<Rightarrow> b | Some t \<Rightarrow> notify_lifecycle t Shutdown b);
               b = upd_entry sid (\<lambda>e. shutdown_system_watches (fst (abort_trace_drivers (fst (abort_forwarders e))))) b
           in set_conn c ((bk_conns b ! c)\<lparr> cn_busy := Closing sid \<rparr>) b))"

definition unregister_end :: "nat \<Rightarrow> broker \<Rightarrow> broker" where
  "unregister_end c b =
     (if \<not> (c < length (bk_conns b) \<and> cn_open (bk_conns b ! c)) then b
      else case cn_busy (bk_conns b ! c) of
        Closing sid \<Rightarrow>
          set_conn c ((bk_conns b ! c)\<lparr> cn_busy := Reading \<rparr>)
            (b\<lparr> bk_registry := remove1 sid (bk_registry b) \<rparr>)
      | _ \<Rightarrow> b)"

text \<open>What follows the loop of the lifecycle task, up to and after its suspension points.\<close>

definition lifecycle_break :: "nat \<Rightarrow> broker \<Rightarrow> broker" where
  "lifecycle_break t b =
     upd_entry (lt_session (bk_tasks b ! t))
       (\<lambda>e. shutdown_system_watches (e\<lparr> en_lifecycle := None \<rparr>))
       (set_task t ((bk_tasks b ! t)\<lparr> lt_phase := Exiting \<rparr>) b)"

definition task_recv :: "nat \<Rightarrow> broker \<Rightarrow> broker" where
  "task_recv t b =
     (if \<not> (t < length (bk_tasks b) \<and> lt_phase (bk_tasks b ! t) = Running) then b
      else case lt_inbox (bk_tasks b ! t) of
        [] \<Rightarrow> b
      | msg # rest \<Rightarrow>
          (let (l, quit) = lifecycle_message_step (bk_drain_after b) (bk_now b) msg
                 ((bk_tasks b ! t)\<lparr> lt_inbox := rest \<rparr>);
               b = set_task t l b
           in if quit then lifecycle_break t b else b))"

definition task_elapsed :: "nat \<Rightarrow> broker \<Rightarrow> broker" where
  "task_elapsed t b =
     (if t < length (bk_tasks b) \<and> lt_phase (bk_tasks b ! t) = Running \<and>
         lifecycle_elapsed (bk_now b) (bk_tasks b ! t)
      then lifecycle_break t b else b)"

definition task_exit :: "nat \<Rightarrow> broker \<Rightarrow> broker" where
  "task_exit t b =
     (if t < length (bk_tasks b) \<and> lt_phase (bk_tasks b ! t) = Exiting
      then set_task t ((bk_tasks b ! t)\<lparr> lt_phase := Exited \<rparr>)
             (b\<lparr> bk_registry := remove1 (lt_session (bk_tasks b ! t)) (bk_registry b) \<rparr>)
      else b)"

subsection \<open>Runs\<close>

datatype broker_op =
    Accept
  | RegisterBegin nat
  | RegisterFinish nat "nat option" u64 "string list"
  | RegisterExisting nat string "string list"
  | Disconnect nat
  | ConnError nat
  | UnregisterBegin nat
  | UnregisterEnd nat
  | TaskRecv nat
  | TaskElapsed nat
  | TaskExit nat
  | Tick nat

fun broker_step :: "broker_op \<Rightarrow> broker \<Rightarrow> broker" where
  "broker_step Accept b = accept_conn b"
| "broker_step (RegisterBegin c) b = register_begin c b"
| "broker_step (RegisterFinish c launch unix_ms caps) b = register_finish c launch unix_ms caps b"
| "broker_step (RegisterExisting c sid caps) b = register_existing c sid caps b"
| "broker_step (Disconnect c) b = disconnect c b"
| "broker_step (ConnError c) b = conn_error c b"
| "broker_step (UnregisterBegin c) b = unregister_begin c b"
| "broker_step (UnregisterEnd c) b = unregister_end c b"
| "broker_step (TaskRecv t) b = task_recv t b"
| "broker_step (TaskElapsed t) b = task_elapsed t b"
| "broker_step (TaskExit t) b = task_exit t b"
| "broker_step (Tick d) b = b\<lparr> bk_now := bk_now b + d \<rparr>"

definition broker_run :: "broker_op list \<Rightarrow> broker \<Rightarrow> broker" where
  "broker_run = fold broker_step"

subsection \<open>Specifications\<close>

text \<open>The open connections bound to a lifecycle task.\<close>

definition bound_to :: "nat \<Rightarrow> broker \<Rightarrow> nat" where
  "bound_to t b = length (filter (\<lambda>cn. cn_open cn \<and> cn_bound_lifecycle cn = Some t) (bk_conns b))"

text \<open>
  A running task has counted, or will find in its inbox, at least one connect for every open
  connection bound to it and every disconnect it will find; and it has a deadline only at count 0.
\<close>

definition task_covers :: "broker \<Rightarrow> nat \<Rightarrow> bool" where
  "task_covers b t \<longleftrightarrow>
     (let l = bk_tasks b ! t in
      lt_phase l = Running \<longrightarrow>
        count_list (lt_inbox l) Disconnected + bound_to t b
          \<le> lt_connected_count l + count_list (lt_inbox l) Connected \<and>
        (lt_drain_deadline l \<noteq> None \<longrightarrow> lt_connected_count l = 0))"

definition drain_inv :: "broker \<Rightarrow> bool" where
  "drain_inv b \<longleftrightarrow>
     (\<forall>t < length (bk_tasks b). task_covers b t) \<and>
     (\<forall>cn \<in> set (bk_conns b). \<forall>t. cn_bound_lifecycle cn = Some t \<longrightarrow> t < length (bk_tasks b)) \<and>
     (\<forall>p \<in> set (bk_entries b). \<forall>t. en_lifecycle (snd p) = Some t \<longrightarrow> t < length (bk_tasks b))"

text \<open>The messages of a lifecycle task with the times at which it takes them.\<close>

definition lifecycle_run :: "nat \<Rightarrow> (nat \<times> lifecycle_message) list \<Rightarrow> lifecycle_task \<Rightarrow> lifecycle_task" where
  "lifecycle_run drain_after = fold (\<lambda>(now, msg) l. fst (lifecycle_message_step drain_after now msg l))"

definition balanced_prefixes :: "lifecycle_message list \<Rightarrow> bool" where
  "balanced_prefixes ms \<longleftrightarrow>
     (\<forall>k \<le> length ms. count_list (take k ms) Disconnected \<le> count_list (take k ms) Connected)"

text \<open>The registrations between their cap check and the end of their launch.\<close>

definition is_launching :: "connection \<Rightarrow> bool" where
  "is_launching cn \<longleftrightarrow> cn_open cn \<and> (case cn_busy cn of Launching _ \<Rightarrow> True | _ \<Rightarrow> False)"

definition launching :: "broker \<Rightarrow> nat" where
  "launching b = length (filter is_launching (bk_conns b))"

text \<open>
  A session whose task waits without a deadline although no connection is left: nothing of the
  machine refers to it but its own task and a client that knows its id.
\<close>

definition conn_apart :: "nat \<Rightarrow> string \<Rightarrow> connection \<Rightarrow> bool" where
  "conn_apart t sid cn \<longleftrightarrow>
     cn_bound_lifecycle cn \<noteq> Some t \<and> cn_bound_session cn \<noteq> Some sid \<and>
     cn_busy cn \<noteq> Launching sid \<and> cn_busy cn \<noteq> Closing sid"

definition orphan :: "nat \<Rightarrow> string \<Rightarrow> broker \<Rightarrow> bool" where
  "orphan t sid b \<longleftrightarrow>
     t < length (bk_tasks b) \<and> lt_session (bk_tasks b ! t) = sid \<and>
     lt_phase (bk_tasks b ! t) = Running \<and> lt_inbox (bk_tasks b ! t) = [] \<and>
     lt_drain_deadline (bk_tasks b ! t) = None \<and>
     (\<forall>u < length (bk_tasks b). u \<noteq> t \<longrightarrow> lt_session (bk_tasks b ! u) = sid \<longrightarrow> lt_phase (bk_tasks b ! u) = Exited) \<and>
     sid \<in> set (bk_registry b) \<and>
     (\<forall>cn \<in> set (bk_conns b). cn_open cn \<longrightarrow> conn_apart t sid cn) \<and>
     registry_ok (bk_entries b) \<and>
     (\<forall>p \<in> set (bk_entries b). fst p \<noteq> sid \<longrightarrow> en_lifecycle (snd p) \<noteq> Some t) \<and>
     (\<exists>n < bk_next_session b. sid = session_id_of n)"

subsection \<open>Frames\<close>

lemma upd_entry_frame [simp]:
  "bk_conns (upd_entry sid f b) = bk_conns b" "bk_tasks (upd_entry sid f b) = bk_tasks b"
  "bk_registry (upd_entry sid f b) = bk_registry b" "bk_now (upd_entry sid f b) = bk_now b"
  "bk_drain_after (upd_entry sid f b) = bk_drain_after b"
  "bk_max_sessions (upd_entry sid f b) = bk_max_sessions b"
  "bk_next_session (upd_entry sid f b) = bk_next_session b"
  by (simp_all add: upd_entry_def split: option.split)

lemma set_conn_frame [simp]:
  "bk_conns (set_conn c cn b) = (bk_conns b)[c := cn]" "bk_tasks (set_conn c cn b) = bk_tasks b"
  "bk_registry (set_conn c cn b) = bk_registry b" "bk_entries (set_conn c cn b) = bk_entries b"
  "bk_now (set_conn c cn b) = bk_now b" "bk_drain_after (set_conn c cn b) = bk_drain_after b"
  "bk_max_sessions (set_conn c cn b) = bk_max_sessions b"
  "bk_next_session (set_conn c cn b) = bk_next_session b"
  by (simp_all add: set_conn_def)

lemma set_task_frame [simp]:
  "bk_tasks (set_task t l b) = (bk_tasks b)[t := l]" "bk_conns (set_task t l b) = bk_conns b"
  "bk_registry (set_task t l b) = bk_registry b" "bk_entries (set_task t l b) = bk_entries b"
  "bk_now (set_task t l b) = bk_now b" "bk_drain_after (set_task t l b) = bk_drain_after b"
  "bk_max_sessions (set_task t l b) = bk_max_sessions b"
  "bk_next_session (set_task t l b) = bk_next_session b"
  by (simp_all add: set_task_def)

lemma notify_frame [simp]:
  "bk_conns (notify_lifecycle t m b) = bk_conns b" "bk_registry (notify_lifecycle t m b) = bk_registry b"
  "bk_entries (notify_lifecycle t m b) = bk_entries b" "bk_now (notify_lifecycle t m b) = bk_now b"
  "bk_max_sessions (notify_lifecycle t m b) = bk_max_sessions b"
  "bk_next_session (notify_lifecycle t m b) = bk_next_session b"
  "length (bk_tasks (notify_lifecycle t m b)) = length (bk_tasks b)"
  by (simp_all add: notify_lifecycle_def)

lemma lifecycle_break_frame [simp]:
  "bk_conns (lifecycle_break t b) = bk_conns b" "bk_registry (lifecycle_break t b) = bk_registry b"
  "bk_max_sessions (lifecycle_break t b) = bk_max_sessions b"
  "bk_next_session (lifecycle_break t b) = bk_next_session b"
  "bk_tasks (lifecycle_break t b) = (bk_tasks b)[t := (bk_tasks b ! t)\<lparr> lt_phase := Exiting \<rparr>]"
  by (simp_all add: lifecycle_break_def)

lemma set_registry_insert: "p \<in> set (registry_insert e m) \<Longrightarrow> snd p = e \<or> p \<in> set m"
  by (auto simp: registry_insert_def dest: set_alist_update)

lemma set_upd_entry:
  "p \<in> set (bk_entries (upd_entry sid f b)) \<Longrightarrow>
   p \<in> set (bk_entries b) \<or> (\<exists>q \<in> set (bk_entries b). snd p = f (snd q))"
  by (auto simp: upd_entry_def registry_get_def split: option.splits
      dest!: set_registry_insert map_of_SomeD intro: bexI [rotated])

subsection \<open>No drain below a connection\<close>

lemma bound_set_conn:
  assumes "c < length (bk_conns b)"
  shows "bound_to t (set_conn c cn b) +
      (if cn_open (bk_conns b ! c) \<and> cn_bound_lifecycle (bk_conns b ! c) = Some t then 1 else 0) =
    bound_to t b + (if cn_open cn \<and> cn_bound_lifecycle cn = Some t then 1 else 0)"
  using length_filter_update [OF assms, of "\<lambda>cn. cn_open cn \<and> cn_bound_lifecycle cn = Some t" cn]
  by (simp add: bound_to_def)

lemma bound_to_cong: "bk_conns b' = bk_conns b \<Longrightarrow> bound_to t b' = bound_to t b"
  by (simp add: bound_to_def)

lemma bound_to_new: "drain_inv b \<Longrightarrow> bound_to (length (bk_tasks b)) b = 0"
  by (fastforce simp: drain_inv_def bound_to_def filter_empty_conv)

text \<open>An operation that leaves connections and tasks alone and gives no new task to an entry.\<close>

lemma drain_inv_entries:
  assumes "drain_inv b" and "bk_conns b' = bk_conns b" and "bk_tasks b' = bk_tasks b"
    and "\<And>p t. p \<in> set (bk_entries b') \<Longrightarrow> en_lifecycle (snd p) = Some t \<Longrightarrow> t < length (bk_tasks b)"
  shows "drain_inv b'"
  using assms by (auto simp: drain_inv_def task_covers_def bound_to_cong [OF assms(2)])

lemma drain_inv_upd_entry:
  assumes "drain_inv b" and "\<And>e t. en_lifecycle (f e) = Some t \<Longrightarrow> en_lifecycle e = Some t \<or> t < length (bk_tasks b)"
  shows "drain_inv (upd_entry sid f b)"
proof (rule drain_inv_entries [OF assms(1)])
  fix p t assume "p \<in> set (bk_entries (upd_entry sid f b))" "en_lifecycle (snd p) = Some t"
  then show "t < length (bk_tasks b)"
    using assms(1) assms(2) [of _ t] by (fastforce simp: drain_inv_def dest!: set_upd_entry)
qed simp_all

lemma covers_mono:
  "task_covers b t \<Longrightarrow> bk_tasks b' ! t = bk_tasks b ! t \<Longrightarrow> bound_to t b' \<le> bound_to t b \<Longrightarrow>
   task_covers b' t"
  by (auto simp: task_covers_def Let_def)

lemma upd_entry_commute:
  "set_conn c cn (upd_entry sid f b) = upd_entry sid f (set_conn c cn b)"
  "notify_lifecycle t m (upd_entry sid f b) = upd_entry sid f (notify_lifecycle t m b)"
  by (auto simp: upd_entry_def set_conn_def set_task_def notify_lifecycle_def split: option.split)

lemma drain_inv_connD:
  "drain_inv b \<Longrightarrow> c < length (bk_conns b) \<Longrightarrow> cn_bound_lifecycle (bk_conns b ! c) = Some t \<Longrightarrow>
   t < length (bk_tasks b)"
  unfolding drain_inv_def by (meson nth_mem)

text \<open>Connections may change as long as no task gets more of them.\<close>

lemma drain_inv_conns:
  assumes "drain_inv b" and "bk_tasks b' = bk_tasks b" and "bk_entries b' = bk_entries b"
    and "\<And>t. bound_to t b' \<le> bound_to t b"
    and "\<And>cn t. cn \<in> set (bk_conns b') \<Longrightarrow> cn_bound_lifecycle cn = Some t \<Longrightarrow> t < length (bk_tasks b)"
  shows "drain_inv b'"
proof -
  have "task_covers b' t" if "t < length (bk_tasks b)" for t
    using assms(1,2,4) that by (intro covers_mono [of b t b']) (simp_all add: drain_inv_def)
  with assms(1,5) show ?thesis unfolding drain_inv_def assms(2,3) by blast
qed

text \<open>A connection that keeps its task.\<close>

lemma drain_inv_set_conn:
  assumes "drain_inv b" and "c < length (bk_conns b)"
    and "cn_open cn \<Longrightarrow> cn_open (bk_conns b ! c)"
    and "cn_bound_lifecycle cn = cn_bound_lifecycle (bk_conns b ! c)"
  shows "drain_inv (set_conn c cn b)"
proof (rule drain_inv_conns [OF assms(1)])
  fix t
  show "bound_to t (set_conn c cn b) \<le> bound_to t b"
    using bound_set_conn [OF assms(2), of t cn] assms(3,4) by (simp split: if_splits)
next
  fix x t
  assume x: "x \<in> set (bk_conns (set_conn c cn b))" "cn_bound_lifecycle x = Some t"
  then have "x = cn \<or> x \<in> set (bk_conns b)"
    by (simp only: set_conn_frame) (drule subsetD [OF set_update_subset_insert], blast)
  then show "t < length (bk_tasks b)"
    using x(2) drain_inv_connD [OF assms(1,2), of t] assms(1) by (auto simp: assms(4) drain_inv_def)
qed simp_all

lemma task_covers_notify:
  assumes "task_covers b t'" and "t' < length (bk_tasks b)"
    and "bound_to t' b' + (if m = Disconnected \<and> t' = t then 1 else 0)
      \<le> bound_to t' b + (if m = Connected \<and> t' = t then 1 else 0)"
    and "bk_tasks b' = bk_tasks (notify_lifecycle t m b)"
  shows "task_covers b' t'"
  using assms
  by (cases m) (auto simp: task_covers_def notify_lifecycle_def Let_def nth_list_update split: if_splits)

lemma drain_inv_by_notify:
  assumes "drain_inv b" and "bk_tasks b' = bk_tasks (notify_lifecycle t m b)"
    and "bk_entries b' = bk_entries b"
    and "\<And>t'. bound_to t' b' + (if m = Disconnected \<and> t' = t then 1 else 0)
      \<le> bound_to t' b + (if m = Connected \<and> t' = t then 1 else 0)"
    and "\<And>cn t'. cn \<in> set (bk_conns b') \<Longrightarrow> cn_bound_lifecycle cn = Some t' \<Longrightarrow> t' < length (bk_tasks b)"
  shows "drain_inv b'"
proof -
  have len: "length (bk_tasks b') = length (bk_tasks b)" by (simp add: assms(2))
  have "task_covers b' t'" if "t' < length (bk_tasks b)" for t'
    using assms(1,2,4) that by (intro task_covers_notify [of b t' b' m t]) (simp_all add: drain_inv_def)
  with assms(1,5) show ?thesis unfolding drain_inv_def len assms(3) by blast
qed

lemma drain_inv_notify:
  assumes "drain_inv b" and "m \<noteq> Disconnected"
  shows "drain_inv (notify_lifecycle t m b)"
  by (rule drain_inv_by_notify [OF assms(1), of _ t m])
    (use assms in \<open>auto simp: bound_to_def drain_inv_def\<close>)

lemma drain_inv_bind:
  assumes "drain_inv b" and "c < length (bk_conns b)" and "t < length (bk_tasks b)"
    and "cn_open (bk_conns b ! c)" and "cn_bound_lifecycle cn = Some t"
  shows "drain_inv (set_conn c cn (notify_lifecycle t Connected b))"
proof -
  let ?b = "set_conn c cn (notify_lifecycle t Connected b)"
  have "bound_to t' ?b \<le> bound_to t' b + (if t' = t then 1 else 0)" for t'
    using bound_set_conn [of c "notify_lifecycle t Connected b" t' cn] assms(2,4,5)
      bound_to_cong [of "notify_lifecycle t Connected b" b t']
    by (auto split: if_splits)
  moreover have "t' < length (bk_tasks b)" if "x \<in> set (bk_conns ?b)" "cn_bound_lifecycle x = Some t'" for x t'
    using that assms(1,3,5) by (auto simp: drain_inv_def dest!: set_update_subset_insert [THEN subsetD])
  ultimately show ?thesis
    by (intro drain_inv_by_notify [OF assms(1), of ?b t Connected]) simp_all
qed

lemma drain_inv_unbind:
  assumes "drain_inv b" and "c < length (bk_conns b)" and "cn_open (bk_conns b ! c)"
    and "cn_bound_lifecycle (bk_conns b ! c) = Some t"
  shows "drain_inv (notify_lifecycle t Disconnected (set_conn c ((bk_conns b ! c)\<lparr> cn_open := False \<rparr>) b))"
proof -
  let ?s = "set_conn c ((bk_conns b ! c)\<lparr> cn_open := False \<rparr>) b"
  let ?b = "notify_lifecycle t Disconnected ?s"
  have "bound_to t' ?b + (if t' = t then 1 else 0) \<le> bound_to t' b" for t'
    using bound_set_conn [OF assms(2), of t' "(bk_conns b ! c)\<lparr> cn_open := False \<rparr>"] assms(3,4)
      bound_to_cong [of ?b ?s t']
    by (auto split: if_splits)
  moreover have "bk_tasks ?b = bk_tasks (notify_lifecycle t Disconnected b)"
    by (simp add: notify_lifecycle_def)
  moreover have "t' < length (bk_tasks b)" if "x \<in> set (bk_conns ?b)" "cn_bound_lifecycle x = Some t'" for x t'
    using that drain_inv_connD [OF assms(1,2)] assms(1)
    by (auto simp: drain_inv_def dest!: set_update_subset_insert [THEN subsetD])
  ultimately show ?thesis
    by (intro drain_inv_by_notify [OF assms(1), of ?b t Disconnected]) simp_all
qed

lemma drain_inv_set_task:
  assumes "drain_inv b" and "t < length (bk_tasks b)"
    and "task_covers b t \<Longrightarrow> task_covers (set_task t l b) t"
  shows "drain_inv (set_task t l b)"
proof -
  have "task_covers (set_task t l b) t'" if "t' \<noteq> t" "task_covers b t'" for t'
    using that(1) by (intro covers_mono [OF that(2)]) (simp_all add: bound_to_def)
  with assms show ?thesis unfolding drain_inv_def by fastforce
qed

lemma drain_inv_break:
  assumes "drain_inv b" and "t < length (bk_tasks b)"
  shows "drain_inv (lifecycle_break t b)"
proof -
  have "drain_inv (set_task t ((bk_tasks b ! t)\<lparr> lt_phase := Exiting \<rparr>) b)"
    by (rule drain_inv_set_task [OF assms]) (simp add: task_covers_def assms)
  then show ?thesis
    unfolding lifecycle_break_def by (rule drain_inv_upd_entry) (simp add: shutdown_system_watches_def)
qed

lemma drain_inv_spawn:
  assumes "drain_inv b" and "bk_tasks b' = bk_tasks b @ [lifecycle_spawn sid]"
    and "bk_conns b' = bk_conns b" and "bk_entries b' = bk_entries b"
  shows "drain_inv b'"
proof -
  have "task_covers b' (length (bk_tasks b))"
    using bound_to_new [OF assms(1)] bound_to_cong [OF assms(3)] assms(2)
    by (simp add: task_covers_def lifecycle_spawn_def)
  moreover have "task_covers b' t" if "t < length (bk_tasks b)" for t
  proof (rule covers_mono)
    show "task_covers b t" using assms(1) that by (simp add: drain_inv_def)
  qed (use assms that in \<open>simp_all add: nth_append bound_to_def\<close>)
  ultimately show ?thesis
    using assms unfolding drain_inv_def by (auto simp: less_Suc_eq)
qed

lemma drain_inv_cong:
  "bk_conns b' = bk_conns b \<Longrightarrow> bk_tasks b' = bk_tasks b \<Longrightarrow> bk_entries b' = bk_entries b \<Longrightarrow>
   drain_inv b' = drain_inv b"
  by (simp add: drain_inv_def task_covers_def bound_to_def)

lemma drain_inv_other [simp]:
  "drain_inv (b\<lparr> bk_now := x \<rparr>) = drain_inv b" "drain_inv (b\<lparr> bk_rejected_cap := x \<rparr>) = drain_inv b"
  "drain_inv (b\<lparr> bk_next_session := x \<rparr>) = drain_inv b" "drain_inv (b\<lparr> bk_registry := xs \<rparr>) = drain_inv b"
  by (rule drain_inv_cong; simp)+

lemma drain_inv_upd_same:
  "drain_inv b \<Longrightarrow> \<forall>e. en_lifecycle (f e) = en_lifecycle e \<Longrightarrow> drain_inv (upd_entry sid f b)"
  by (rule drain_inv_upd_entry) simp_all

lemma entry_lifecycle [simp]:
  "en_lifecycle (bind_conn c e) = en_lifecycle e" "en_lifecycle (unbind_conn e) = en_lifecycle e"
  "en_lifecycle (set_capabilities caps e) = en_lifecycle e"
  "en_lifecycle (shutdown_system_watches e) = en_lifecycle e"
  "en_lifecycle (fst (abort_forwarders e)) = en_lifecycle e"
  "en_lifecycle (fst (abort_trace_drivers e)) = en_lifecycle e"
  "en_lifecycle (entry_new now unix_ms sid browser) = None"
  by (simp_all add: bind_conn_def unbind_conn_def set_capabilities_def shutdown_system_watches_def
      abort_forwarders_def abort_trace_drivers_def entry_new_def)

lemma drain_inv_bind_registered:
  assumes "drain_inv b" and "c < length (bk_conns b)" and "cn_open (bk_conns b ! c)"
  shows "drain_inv (bind_registered c sid b)"
proof (cases "sid \<in> set (bk_registry b) \<and> registry_get (bk_entries b) sid \<noteq> None")
  case True
  then obtain e where get: "registry_get (bk_entries b) sid = Some e" by auto
  then have mem: "(sid, e) \<in> set (bk_entries b)" by (auto simp: registry_get_def dest: map_of_SomeD)
  let ?cn = "\<lambda>t. (bk_conns b ! c)\<lparr> cn_bound_session := Some sid, cn_bound_lifecycle := Some t \<rparr>"
  show ?thesis
  proof (cases "en_lifecycle e")
    case (Some t)
    then have "t < length (bk_tasks b)" using assms(1) mem by (auto simp: drain_inv_def)
    then have "drain_inv (set_conn c (?cn t) (notify_lifecycle t Connected b))"
      using assms by (intro drain_inv_bind) simp_all
    then show ?thesis
      using True get Some
      by (simp add: bind_registered_def upd_entry_commute drain_inv_upd_same)
  next
    case None
    let ?n = "length (bk_tasks b)" and ?s = "b\<lparr> bk_tasks := bk_tasks b @ [lifecycle_spawn sid] \<rparr>"
    let ?u = "upd_entry sid (\<lambda>e. e\<lparr> en_lifecycle := Some ?n \<rparr>) ?s"
    have "drain_inv ?s" using assms(1) by (rule drain_inv_spawn) simp_all
    then have "drain_inv ?u" by (rule drain_inv_upd_entry) simp
    then have "drain_inv (set_conn c (?cn ?n) (notify_lifecycle ?n Connected ?u))"
      using assms by (intro drain_inv_bind) simp_all
    then show ?thesis
      using True get None
      by (simp add: bind_registered_def upd_entry_commute(1) drain_inv_upd_same)
  qed
qed (use assms in \<open>auto simp: bind_registered_def split: option.split\<close>)

lemma drain_inv_accept: "drain_inv b \<Longrightarrow> drain_inv (accept_conn b)"
  by (rule drain_inv_conns) (auto simp: accept_conn_def bound_to_def drain_inv_def)

lemma drain_inv_register_begin: "drain_inv b \<Longrightarrow> drain_inv (register_begin c b)"
  by (simp add: register_begin_def reading_def drain_inv_set_conn)

lemma drain_inv_insert_entry:
  assumes "drain_inv b" and "en_lifecycle e = None"
  shows "drain_inv (b\<lparr> bk_entries := registry_insert e (bk_entries b) \<rparr>)"
  by (rule drain_inv_entries [OF assms(1)])
    (use assms in \<open>auto simp: drain_inv_def dest!: set_registry_insert\<close>)

lemma drain_inv_register_finish: "drain_inv b \<Longrightarrow> drain_inv (register_finish c launch unix_ms caps b)"
  using drain_inv_insert_entry [of "set_conn c ((bk_conns b ! c)\<lparr> cn_busy := Reading \<rparr>) b"]
  by (auto simp: register_finish_def Let_def drain_inv_set_conn split: conn_busy.split option.split
      intro!: drain_inv_bind_registered)

lemma drain_inv_register_existing: "drain_inv b \<Longrightarrow> drain_inv (register_existing c sid caps b)"
  by (simp add: register_existing_def reading_def drain_inv_bind_registered drain_inv_upd_same)

lemma drain_inv_disconnect:
  assumes "drain_inv b"
  shows "drain_inv (disconnect c b)"
proof (cases "reading c b")
  case True
  then have c: "c < length (bk_conns b)" "cn_open (bk_conns b ! c)" by (simp_all add: reading_def)
  let ?s = "set_conn c ((bk_conns b ! c)\<lparr> cn_open := False \<rparr>) b"
  have s: "drain_inv ?s" using assms c by (simp add: drain_inv_set_conn)
  show ?thesis
  proof (cases "cn_bound_lifecycle (bk_conns b ! c)")
    case None
    with True s show ?thesis
      by (auto simp: disconnect_def Let_def drain_inv_upd_same split: option.split)
  next
    case (Some t)
    have "drain_inv (notify_lifecycle t Disconnected ?s)" by (rule drain_inv_unbind [OF assms c Some])
    with True Some show ?thesis
      by (auto simp: disconnect_def Let_def upd_entry_commute drain_inv_upd_same split: option.split)
  qed
qed (simp add: disconnect_def assms)

lemma drain_inv_conn_error: "drain_inv b \<Longrightarrow> drain_inv (conn_error c b)"
  by (simp add: conn_error_def reading_def drain_inv_set_conn)

lemma drain_inv_unregister_begin: "drain_inv b \<Longrightarrow> drain_inv (unregister_begin c b)"
  by (auto simp: unregister_begin_def reading_def Let_def split: option.split
      intro!: drain_inv_set_conn drain_inv_upd_entry drain_inv_notify)

lemma drain_inv_unregister_end: "drain_inv b \<Longrightarrow> drain_inv (unregister_end c b)"
  by (auto simp: unregister_end_def split: conn_busy.split intro!: drain_inv_set_conn)

lemma drain_inv_task_recv:
  assumes "drain_inv b"
  shows "drain_inv (task_recv t b)"
proof (cases "t < length (bk_tasks b) \<and> lt_phase (bk_tasks b ! t) = Running \<and> lt_inbox (bk_tasks b ! t) \<noteq> []")
  case True
  then obtain m rest where inbox: "lt_inbox (bk_tasks b ! t) = m # rest" by (auto simp: neq_Nil_conv)
  obtain l quit where step: "lifecycle_message_step (bk_drain_after b) (bk_now b) m
      ((bk_tasks b ! t)\<lparr> lt_inbox := rest \<rparr>) = (l, quit)" by fastforce
  have "drain_inv (set_task t l b)"
  proof (rule drain_inv_set_task [OF assms])
    assume "task_covers b t"
    then show "task_covers (set_task t l b) t"
      using True step inbox bound_to_cong [of "set_task t l b" b t]
      by (cases m) (auto simp: task_covers_def Let_def split: if_splits)
  qed (use True in simp)
  with True inbox step show ?thesis
    by (auto simp: task_recv_def Let_def intro!: drain_inv_break)
qed (auto simp: task_recv_def assms split: list.split)

lemma drain_inv_task_elapsed: "drain_inv b \<Longrightarrow> drain_inv (task_elapsed t b)"
  by (simp add: task_elapsed_def drain_inv_break)

lemma drain_inv_task_exit: "drain_inv b \<Longrightarrow> drain_inv (task_exit t b)"
  by (auto simp: task_exit_def task_covers_def intro!: drain_inv_set_task)

lemmas drain_inv_ops = drain_inv_accept drain_inv_register_begin drain_inv_register_finish
  drain_inv_register_existing drain_inv_disconnect drain_inv_conn_error drain_inv_unregister_begin
  drain_inv_unregister_end drain_inv_task_recv drain_inv_task_elapsed drain_inv_task_exit

interpretation drains: invariant_machine broker_step drain_inv
proof unfold_locales
  fix b op assume "drain_inv b"
  then show "drain_inv (broker_step op b)" by (cases op) (simp_all add: drain_inv_ops)
qed

lemma drain_inv_new: "drain_inv (broker_new drain_after max_sessions)"
  by (simp add: drain_inv_def broker_new_def)

text \<open>
  C16. No drain below a connection. In every run of the broker, a lifecycle task that has read all its
  messages and has a drain deadline has no open connection bound to it: the five-minute drain never
  starts while a client whose connect was processed is still there.
\<close>

theorem no_drain_while_connected:
  assumes "b = broker_run ops (broker_new drain_after max_sessions)"
    and "t < length (bk_tasks b)" and "lt_phase (bk_tasks b ! t) = Running"
    and "lt_inbox (bk_tasks b ! t) = []" and "lt_drain_deadline (bk_tasks b ! t) \<noteq> None"
    and "cn \<in> set (bk_conns b)" and "cn_open cn"
  shows "cn_bound_lifecycle cn \<noteq> Some t"
proof -
  have "drain_inv b"
    unfolding assms(1) broker_run_def by (rule drains.run_inv [OF drain_inv_new])
  then have "bound_to t b = 0" using assms(2-5) by (auto simp: drain_inv_def task_covers_def Let_def)
  with assms(6,7) show ?thesis by (auto simp: bound_to_def filter_empty_conv)
qed

theorem no_drain_while_connected_witness:
  "let b = broker_run [Accept, RegisterBegin 0, RegisterFinish 0 (Some 5) 0 [], Accept,
       RegisterExisting 1 ''s_1'' [], Disconnect 0, Disconnect 1, TaskRecv 0, TaskRecv 0, TaskRecv 0,
       TaskRecv 0, Accept] (broker_new 300 4) in
     lt_drain_deadline (bk_tasks b ! 0) = Some 300 \<and>
     (\<forall>cn \<in> set (bk_conns b). cn_open cn \<longrightarrow> cn_bound_lifecycle cn \<noteq> Some 0)"
proof -
  define b where "b = broker_run [Accept, RegisterBegin 0, RegisterFinish 0 (Some 5) 0 [], Accept,
       RegisterExisting 1 ''s_1'' [], Disconnect 0, Disconnect 1, TaskRecv 0, TaskRecv 0, TaskRecv 0,
       TaskRecv 0, Accept] (broker_new 300 4)"
  have "bk_tasks b = [\<lparr> lt_session = ''s_1'', lt_connected_count = 0, lt_drain_deadline = Some 300,
      lt_phase = Running, lt_inbox = [] \<rparr>]"
    unfolding b_def by code_simp
  moreover from this have "cn_bound_lifecycle cn \<noteq> Some 0" if "cn \<in> set (bk_conns b)" "cn_open cn" for cn
    by (intro no_drain_while_connected [OF b_def]) (simp_all add: that)
  ultimately show ?thesis unfolding b_def [symmetric] by (simp add: Let_def)
qed

text \<open>
  The drain deadline. A task that reads connects and disconnects in which no prefix has more
  disconnects than connects counts their difference, and has a deadline exactly when it has read a
  message and the two are balanced: the drain delay after the time of the last message.
\<close>

theorem lifecycle_deadline_exact:
  assumes "Shutdown \<notin> snd ` set ms" and "balanced_prefixes (map snd ms)"
  shows "let l = lifecycle_run drain_after ms (lifecycle_spawn sid);
      connects = count_list (map snd ms) Connected; disconnects = count_list (map snd ms) Disconnected
    in lt_connected_count l = connects - disconnects \<and>
       lt_drain_deadline l =
         (if ms \<noteq> [] \<and> connects = disconnects then Some (fst (last ms) + drain_after) else None)"
  using assms
proof (induction ms rule: rev_induct)
  case Nil
  then show ?case by (simp add: lifecycle_run_def lifecycle_spawn_def)
next
  case (snoc m ms)
  obtain now msg where m: "m = (now, msg)" by (cases m)
  have "balanced_prefixes (map snd ms)"
    using all_prefixes_snoc(1) [OF snoc.prems(2) [unfolded balanced_prefixes_def, simplified map_append list.map]]
    unfolding balanced_prefixes_def .
  with snoc have IH: "let l = lifecycle_run drain_after ms (lifecycle_spawn sid);
      connects = count_list (map snd ms) Connected; disconnects = count_list (map snd ms) Disconnected
    in lt_connected_count l = connects - disconnects \<and>
       lt_drain_deadline l =
         (if ms \<noteq> [] \<and> connects = disconnects then Some (fst (last ms) + drain_after) else None)"
    by simp
  have "count_list (map snd (ms @ [m])) Disconnected \<le> count_list (map snd (ms @ [m])) Connected"
    using snoc.prems(2) [unfolded balanced_prefixes_def, rule_format, of "length (ms @ [m])"] by simp
  moreover have "count_list (map snd ms) Disconnected \<le> count_list (map snd ms) Connected"
    using snoc.prems(2) [unfolded balanced_prefixes_def, rule_format, of "length ms"] by simp
  moreover have "msg \<noteq> Shutdown" using snoc.prems(1) by (auto simp: m)
  ultimately show ?case
    using IH by (cases msg) (auto simp: lifecycle_run_def m Let_def count_list_append)
qed

theorem lifecycle_deadline_exact_witness:
  "lt_drain_deadline (lifecycle_run 300 [(10, Connected), (20, Connected), (30, Disconnected), (40, Disconnected)]
     (lifecycle_spawn ''s_1'')) = Some 340"
proof -
  have "balanced_prefixes (map snd [(10 :: nat, Connected), (20, Connected), (30, Disconnected), (40, Disconnected)])"
    by (auto simp: balanced_prefixes_def le_Suc_eq numeral_2_eq_2 numeral_3_eq_3 eval_nat_numeral)
  with lifecycle_deadline_exact [of "[(10, Connected), (20, Connected), (30, Disconnected), (40, Disconnected)]" 300 "''s_1''"]
  show ?thesis by (simp add: Let_def)
qed

text \<open>
  A disconnect silences the other client. When two connections are bound to one session and
  the second one receives its events, the disconnect of the first leaves the second one open and
  bound, but without events: the cleanup clears the session's sender whoever it belongs to.
\<close>

theorem disconnect_silences_other_client:
  assumes "reading c b" and "c' < length (bk_conns b)" and "c' \<noteq> c"
    and "cn_bound_session (bk_conns b ! c) = Some sid"
    and "registry_ok (bk_entries b)"
    and "registry_get (bk_entries b) sid = Some e" and "en_conn_tx e = Some c'"
  shows "bk_conns (disconnect c b) ! c' = bk_conns b ! c' \<and>
    (\<exists>e'. registry_get (bk_entries (disconnect c b)) sid = Some e' \<and> en_conn_tx e' = None)"
proof -
  have "en_session_id e = sid"
    using assms(5,6) by (auto simp: registry_ok_def registry_get_def dest: keyed_by_map_of)
  then show ?thesis
    using assms by (auto simp: disconnect_def Let_def upd_entry_def unbind_conn_def registry_insert_def
        registry_get_def update_conv' split: option.split)
qed


theorem disconnect_silences_other_client_witness:
  "let b = broker_run [Accept, RegisterBegin 0, RegisterFinish 0 (Some 5) 0 [], Accept,
       RegisterExisting 1 ''s_1'' []] (broker_new 300 4) in
     map_option en_conn_tx (registry_get (bk_entries b) ''s_1'') = Some (Some 1) \<and>
     bk_conns (disconnect 0 b) ! 1 = bk_conns b ! 1 \<and>
     (\<exists>e'. registry_get (bk_entries (disconnect 0 b)) ''s_1'' = Some e' \<and> en_conn_tx e' = None)"
proof -
  define b where "b = broker_run [Accept, RegisterBegin 0, RegisterFinish 0 (Some 5) 0 [], Accept,
       RegisterExisting 1 ''s_1'' []] (broker_new 300 4)"
  have "reading 0 b" "1 < length (bk_conns b)" "cn_bound_session (bk_conns b ! 0) = Some ''s_1''"
    "registry_ok (bk_entries b)" "map_option en_conn_tx (registry_get (bk_entries b) ''s_1'') = Some (Some 1)"
    unfolding b_def by code_simp+
  then show ?thesis
    unfolding b_def [symmetric] Let_def
    using disconnect_silences_other_client [of 0 b 1 "''s_1''"] by fastforce
qed
subsection \<open>The session cap\<close>

lemma launching_set_conn:
  assumes "c < length (bk_conns b)"
  shows "launching (set_conn c cn b) + (if is_launching (bk_conns b ! c) then 1 else 0) =
    launching b + (if is_launching cn then 1 else 0)"
  using length_filter_update [OF assms, of is_launching cn] by (simp add: launching_def)

lemma launching_frame [simp]:
  "launching (upd_entry sid f b) = launching b" "launching (notify_lifecycle t m b) = launching b"
  "launching (set_task t l b) = launching b" "launching (lifecycle_break t b) = launching b"
  "launching (b\<lparr> bk_now := x \<rparr>) = launching b" "launching (b\<lparr> bk_rejected_cap := x \<rparr>) = launching b"
  "launching (b\<lparr> bk_registry := reg \<rparr>) = launching b" "launching (b\<lparr> bk_entries := en \<rparr>) = launching b"
  "launching (b\<lparr> bk_next_session := x \<rparr>) = launching b"
  by (simp_all add: launching_def)

lemma launching_set_conn_le:
  "c < length (bk_conns b) \<Longrightarrow> (is_launching cn \<Longrightarrow> is_launching (bk_conns b ! c)) \<Longrightarrow>
   launching (set_conn c cn b) \<le> launching b"
  using launching_set_conn [of c b cn] by (auto split: if_splits)

lemma bind_registered_frame [simp]:
  "bk_registry (bind_registered c sid b) = bk_registry b"
  "bk_max_sessions (bind_registered c sid b) = bk_max_sessions b"
  "bk_next_session (bind_registered c sid b) = bk_next_session b"
  by (auto simp: bind_registered_def Let_def split: option.split prod.split)

lemma bind_registered_conns:
  "\<exists>cn. bk_conns (bind_registered c sid b) = (bk_conns b)[c := cn] \<and>
    (c < length (bk_conns b) \<longrightarrow> cn_open cn = cn_open (bk_conns b ! c) \<and> cn_busy cn = cn_busy (bk_conns b ! c))"
  by (auto simp: bind_registered_def Let_def split: option.split prod.split
      intro: exI [of _ "bk_conns b ! c"])

lemma launching_bind_registered [simp]: "launching (bind_registered c sid b) = launching b"
proof (cases "c < length (bk_conns b)")
  case True
  obtain cn where "bk_conns (bind_registered c sid b) = (bk_conns b)[c := cn]"
    "is_launching cn = is_launching (bk_conns b ! c)"
    using bind_registered_conns [of c sid b] True by (auto simp: is_launching_def)
  then show ?thesis
    using length_filter_update [OF True, of is_launching cn] by (auto simp: launching_def)
next
  case False
  then show ?thesis
    using bind_registered_conns [of c sid b] by (auto simp: launching_def list_update_beyond)
qed

lemma launching_finish:
  assumes "c < length (bk_conns b)" and "cn_open (bk_conns b ! c)" and "cn_busy (bk_conns b ! c) = Launching sid"
  shows "Suc (launching (set_conn c ((bk_conns b ! c)\<lparr> cn_busy := Reading \<rparr>) b)) = launching b"
  using launching_set_conn [OF assms(1), of "(bk_conns b ! c)\<lparr> cn_busy := Reading \<rparr>"] assms(2,3)
  by (simp add: is_launching_def)

lemma length_insert_Suc: "length (List.insert x xs) \<le> Suc (length xs)"
  by (simp add: List.insert_def)

text \<open>
  One step: either a registration passes the check (below the cap, one more in flight), or the
  registered and launching sessions together do not grow.
\<close>

definition cap_mono :: "broker \<Rightarrow> broker \<Rightarrow> bool" where
  "cap_mono b b' \<longleftrightarrow>
     bk_max_sessions b' = bk_max_sessions b \<and>
     (length (bk_registry b') + launching b' \<le> length (bk_registry b) + launching b \<or>
      length (bk_registry b') < bk_max_sessions b)"

lemma cap_register_finish: "cap_mono b (register_finish c launch unix_ms caps b)"
proof (cases "c < length (bk_conns b) \<and> cn_open (bk_conns b ! c) \<and> (\<exists>sid. cn_busy (bk_conns b ! c) = Launching sid)")
  case True
  then obtain sid where sid: "cn_busy (bk_conns b ! c) = Launching sid" by blast
  have "length (List.insert sid (bk_registry b)) + launching (set_conn c ((bk_conns b ! c)\<lparr> cn_busy := Reading \<rparr>) b)
      \<le> length (bk_registry b) + launching b"
    using launching_finish [of c b sid] length_insert_Suc [of sid "bk_registry b"] True sid by linarith
  with True sid show ?thesis
    using launching_finish [of c b sid]
    by (simp add: cap_mono_def register_finish_def Let_def split: option.split)
qed (auto simp: cap_mono_def register_finish_def split: conn_busy.split)

lemma cap_disconnect: "cap_mono b (disconnect c b)"
  using launching_set_conn_le [of c b "(bk_conns b ! c)\<lparr> cn_open := False \<rparr>"]
  by (simp add: cap_mono_def disconnect_def Let_def reading_def is_launching_def split: option.split)

lemma cap_unregister_begin: "cap_mono b (unregister_begin c b)"
proof (cases "reading c b")
  case True
  then have c: "c < length (bk_conns b)" by (simp add: reading_def)
  have "launching (set_conn c ((bk_conns b ! c)\<lparr> cn_busy := Closing sid \<rparr>) b') \<le> launching b'"
    if "bk_conns b' = bk_conns b" for sid b'
    using launching_set_conn_le [of c b' "(bk_conns b ! c)\<lparr> cn_busy := Closing sid \<rparr>"] that c
    by (simp add: is_launching_def)
  from this [THEN le_trans] show ?thesis
    by (simp add: cap_mono_def unregister_begin_def True Let_def split: option.split)
qed (simp add: cap_mono_def unregister_begin_def)

lemma cap_unregister_end: "cap_mono b (unregister_end c b)"
proof -
  have "launching (set_conn c ((bk_conns b ! c)\<lparr> cn_busy := Reading \<rparr>) (b\<lparr> bk_registry := reg \<rparr>)) \<le> launching b"
    if "c < length (bk_conns b)" for reg
    using launching_set_conn_le [of c "b\<lparr> bk_registry := reg \<rparr>" "(bk_conns b ! c)\<lparr> cn_busy := Reading \<rparr>"] that
    by (simp add: is_launching_def)
  moreover have "length (remove1 sid (bk_registry b)) \<le> length (bk_registry b)" for sid
    by (simp add: length_remove1)
  ultimately show ?thesis
    by (simp add: cap_mono_def unregister_end_def add_mono split: conn_busy.split)
qed

lemma cap_step: "cap_mono b (broker_step op b)"
proof (cases op)
  case Accept
  then show ?thesis by (simp add: cap_mono_def accept_conn_def launching_def is_launching_def)
next
  case (RegisterBegin c)
  then show ?thesis by (simp add: cap_mono_def register_begin_def)
next
  case (RegisterExisting c sid caps)
  then show ?thesis by (simp add: cap_mono_def register_existing_def)
next
  case (ConnError c)
  then show ?thesis
    using launching_set_conn_le [of c b "(bk_conns b ! c)\<lparr> cn_open := False \<rparr>"]
    by (simp add: cap_mono_def conn_error_def reading_def is_launching_def)
next
  case (TaskRecv t)
  then show ?thesis by (simp add: cap_mono_def task_recv_def Let_def split: list.split prod.split)
next
  case (TaskElapsed t)
  then show ?thesis by (simp add: cap_mono_def task_elapsed_def)
next
  case (TaskExit t)
  then show ?thesis by (simp add: cap_mono_def task_exit_def length_remove1)
qed (simp_all add: cap_register_finish cap_disconnect cap_unregister_begin cap_unregister_end,
    simp add: cap_mono_def)

text \<open>
  C17. The session cap. In a run in which at most \<open>k\<close> registrations are ever between their cap check
  and the end of their launch, the registered sessions never exceed the cap by more than \<open>k - 1\<close>;
  with one registration at a time the cap holds exactly.
\<close>

theorem register_cap_bound:
  assumes "1 \<le> k"
    and "\<forall>i \<le> length ops. launching (broker_run (take i ops) (broker_new drain_after max_sessions)) \<le> k"
  shows "length (bk_registry (broker_run ops (broker_new drain_after max_sessions))) \<le> max max_sessions 1 + k - 1"
proof -
  let ?start = "broker_new drain_after max_sessions"
  have "bk_max_sessions (broker_run ops ?start) = max max_sessions 1 \<and>
      length (bk_registry (broker_run ops ?start)) + launching (broker_run ops ?start) \<le> max max_sessions 1 + k - 1"
    using assms(2)
  proof (induction ops rule: rev_induct)
    case Nil
    then show ?case by (simp add: broker_run_def broker_new_def launching_def)
  next
    case (snoc op ops)
    let ?b = "broker_run ops ?start"
    note pre = all_prefixes_snoc [of ops op "\<lambda>ops. launching (broker_run ops ?start) \<le> k", OF snoc.prems]
    from snoc.IH [OF pre(1)] have IH: "bk_max_sessions ?b = max max_sessions 1"
      "length (bk_registry ?b) + launching ?b \<le> max max_sessions 1 + k - 1" by simp_all
    have run: "broker_run (ops @ [op]) ?start = broker_step op ?b" by (simp add: broker_run_def)
    have le: "launching (broker_step op ?b) \<le> k" using pre(2) unfolding run .
    have step: "cap_mono ?b (broker_step op ?b)" by (rule cap_step)
    show ?case
    proof (cases "length (bk_registry (broker_step op ?b)) < bk_max_sessions ?b")
      case True
      with IH(1) le step show ?thesis unfolding run cap_mono_def by linarith
    next
      case False
      with IH step show ?thesis unfolding run cap_mono_def by linarith
    qed
  qed
  then show ?thesis by linarith
qed

theorem register_cap_bound_witness:
  "length (bk_registry (broker_run [Accept, RegisterBegin 0, RegisterFinish 0 (Some 1) 0 [], RegisterBegin 0]
     (broker_new 300 1))) \<le> 1"
proof -
  let ?ops = "[Accept, RegisterBegin 0, RegisterFinish 0 (Some 1) 0 [], RegisterBegin 0]"
  have "list_all (\<lambda>i. launching (broker_run (take i ?ops) (broker_new 300 1)) \<le> 1) [0, 1, 2, 3, 4]"
    by code_simp
  then have "\<forall>i \<le> length ?ops. launching (broker_run (take i ?ops) (broker_new 300 1)) \<le> 1"
    by (auto simp: le_Suc_eq numeral_2_eq_2 numeral_3_eq_3 eval_nat_numeral)
  from register_cap_bound [OF _ this] show ?thesis by simp
qed

subsection \<open>Oversubscription\<close>

lemma of_char_hex_digit: "d < 16 \<Longrightarrow> (of_char (hex_digit d) :: nat) = (if d < 10 then 48 + d else 87 + d)"
  by (simp add: hex_digit_def)

lemma hex_digit_inj: "a < 16 \<Longrightarrow> b < 16 \<Longrightarrow> hex_digit a = hex_digit b \<longleftrightarrow> a = b"
proof
  assume ab: "a < 16" "b < 16" "hex_digit a = hex_digit b"
  then have "(of_char (hex_digit a) :: nat) = of_char (hex_digit b)" by simp
  with ab(1,2) show "a = b" by (simp add: of_char_hex_digit split: if_splits)
qed simp

lemma nat_to_hex_nonempty [simp]: "nat_to_hex n \<noteq> []" "[] \<noteq> nat_to_hex n"
  by (subst nat_to_hex.simps, simp)+

lemma nat_to_hex_inj: "nat_to_hex m = nat_to_hex n \<longleftrightarrow> m = n"
proof (induction m arbitrary: n rule: nat_to_hex.induct)
  case (1 m)
  show ?case
  proof (cases "m < 16"; cases "n < 16")
    assume "m < 16" "n < 16"
    then show ?thesis by (simp add: nat_to_hex.simps [of m] nat_to_hex.simps [of n] hex_digit_inj)
  next
    assume a: "\<not> m < 16" "\<not> n < 16"
    have "m = n \<longleftrightarrow> m div 16 = n div 16 \<and> m mod 16 = n mod 16"
      by (metis div_mult_mod_eq)
    with a 1 [of "n div 16"] show ?thesis
      by (simp add: nat_to_hex.simps [of m] nat_to_hex.simps [of n] hex_digit_inj)
  qed (auto simp: nat_to_hex.simps [of m] nat_to_hex.simps [of n] append_eq_Cons_conv)
qed

lemma session_id_of_inj [simp]: "session_id_of m = session_id_of n \<longleftrightarrow> m = n"
  by (simp add: session_id_of_def nat_to_hex_inj)

lemma inj_session_id: "inj session_id_of"
  by (rule injI) simp

text \<open>The state after the \<open>j\<close>-th check and after the \<open>j\<close>-th launch.\<close>

definition checked :: "nat \<Rightarrow> nat \<Rightarrow> broker \<Rightarrow> bool" where
  "checked n j b \<longleftrightarrow>
     length (bk_conns b) = n \<and> bk_registry b = [] \<and> 1 \<le> bk_max_sessions b \<and> bk_next_session b = Suc j \<and>
     (\<forall>i < n. cn_open (bk_conns b ! i) \<and>
        cn_busy (bk_conns b ! i) = (if i < j then Launching (session_id_of (Suc i)) else Reading))"

definition finished :: "nat \<Rightarrow> nat \<Rightarrow> broker \<Rightarrow> bool" where
  "finished n j b \<longleftrightarrow>
     length (bk_conns b) = n \<and> length (bk_registry b) = j \<and>
     set (bk_registry b) = session_id_of ` {1..j} \<and>
     (\<forall>i < n. j \<le> i \<longrightarrow> cn_open (bk_conns b ! i) \<and> cn_busy (bk_conns b ! i) = Launching (session_id_of (Suc i)))"

lemma accepts: "checked n 0 (broker_run (replicate n Accept) (broker_new drain_after max_sessions))"
proof -
  have "broker_run (replicate n Accept) b =
      b\<lparr> bk_conns := bk_conns b @ replicate n \<lparr> cn_open = True, cn_busy = Reading, cn_bound_session = None,
          cn_bound_lifecycle = None \<rparr> \<rparr>" for b
    by (induction n arbitrary: b) (simp_all add: broker_run_def accept_conn_def)
  then show ?thesis by (simp add: checked_def broker_new_def)
qed

lemma checks: "j \<le> n \<Longrightarrow> checked n 0 b \<Longrightarrow> checked n j (broker_run (map RegisterBegin [0..<j]) b)"
proof (induction j)
  case (Suc j)
  then have "checked n j (broker_run (map RegisterBegin [0..<j]) b)" by simp
  with Suc.prems(1) show ?case
    by (simp add: broker_run_def checked_def register_begin_def reading_def nth_list_update less_Suc_eq)
qed (simp add: broker_run_def)

lemma bind_registered_conns_other:
  "length (bk_conns (bind_registered c sid b)) = length (bk_conns b)"
  "i \<noteq> c \<Longrightarrow> bk_conns (bind_registered c sid b) ! i = bk_conns b ! i"
  using bind_registered_conns [of c sid b] by auto

lemma finish_step:
  assumes "finished n j b" and "j < n"
  shows "finished n (Suc j) (register_finish j (Some browser) unix_ms caps b)"
proof -
  have new: "session_id_of (Suc j) \<notin> set (bk_registry b)"
    using assms(1) by (auto simp: finished_def)
  have "session_id_of ` {1..Suc j} = insert (session_id_of (Suc j)) (session_id_of ` {1..j})"
    by (auto simp: atLeastAtMostSuc_conv)
  then show ?thesis
    using assms new
    by (simp add: finished_def register_finish_def Let_def bind_registered_conns_other)
qed

lemma finishes:
  "j \<le> n \<Longrightarrow> finished n 0 b \<Longrightarrow>
   finished n j (broker_run (map (\<lambda>c. RegisterFinish c (Some c) 0 []) [0..<j]) b)"
proof (induction j)
  case (Suc j)
  then show ?case by (simp add: broker_run_def finish_step)
qed (simp add: broker_run_def)

lemma broker_run_append: "broker_run (xs @ ys) b = broker_run ys (broker_run xs b)"
  by (simp add: broker_run_def)

text \<open>
  Concurrent registrations exceed the cap. Whatever the cap, when \<open>n\<close> clients register before
  the first of the launches ends, all \<open>n\<close> sessions are registered: the slot is not reserved between
  the check and the insert.
\<close>

theorem register_cap_exceeded:
  "length (bk_registry (broker_run
     (replicate n Accept @ map RegisterBegin [0..<n] @ map (\<lambda>c. RegisterFinish c (Some c) 0 []) [0..<n])
     (broker_new drain_after max_sessions))) = n"
proof -
  let ?b = "broker_run (map RegisterBegin [0..<n])
    (broker_run (replicate n Accept) (broker_new drain_after max_sessions))"
  have "checked n n ?b" by (rule checks [OF order_refl accepts])
  then have "finished n 0 ?b" by (simp add: checked_def finished_def)
  from finishes [OF order_refl this] show ?thesis
    by (simp add: broker_run_append finished_def)
qed

subsection \<open>Sessions nobody ends\<close>

lemma entry_session_id [simp]:
  "en_session_id (bind_conn c e) = en_session_id e" "en_session_id (unbind_conn e) = en_session_id e"
  "en_session_id (set_capabilities caps e) = en_session_id e"
  "en_session_id (shutdown_system_watches e) = en_session_id e"
  "en_session_id (fst (abort_forwarders e)) = en_session_id e"
  "en_session_id (fst (abort_trace_drivers e)) = en_session_id e"
  "en_session_id (entry_new now unix_ms sid browser) = sid"
  by (simp_all add: bind_conn_def unbind_conn_def set_capabilities_def shutdown_system_watches_def
      abort_forwarders_def abort_trace_drivers_def entry_new_def)

lemma orphan_insert:
  assumes "orphan t sid b" and "en_session_id e \<noteq> sid \<Longrightarrow> en_lifecycle e \<noteq> Some t"
  shows "orphan t sid (b\<lparr> bk_entries := registry_insert e (bk_entries b) \<rparr>)"
  using assms sessions.ok_put [of "bk_entries b" e]
  by (auto simp: orphan_def registry_insert_def dest!: set_alist_update)

lemma orphan_upd_entry:
  assumes "orphan t sid b" and "\<And>e. en_session_id (f e) = en_session_id e"
    and "\<And>e. en_lifecycle (f e) = Some t \<Longrightarrow> en_lifecycle e = Some t"
  shows "orphan t sid (upd_entry sid' f b)"
proof (cases "registry_get (bk_entries b) sid'")
  case (Some e)
  then have "(sid', e) \<in> set (bk_entries b)" by (auto simp: registry_get_def dest: map_of_SomeD)
  moreover from this have "en_session_id e = sid'"
    using assms(1) Some by (auto simp: orphan_def registry_ok_def registry_get_def dest: keyed_by_map_of)
  ultimately have "en_session_id (f e) \<noteq> sid \<Longrightarrow> en_lifecycle (f e) \<noteq> Some t"
    using assms by (fastforce simp: orphan_def)
  with Some show ?thesis by (simp add: upd_entry_def orphan_insert [OF assms(1)])
qed (simp add: upd_entry_def assms)

lemma orphan_set_conn:
  assumes "orphan t sid b" and "cn_open cn \<Longrightarrow> conn_apart t sid cn"
  shows "orphan t sid (set_conn c cn b)"
  using assms by (auto simp: orphan_def dest!: set_update_subset_insert [THEN subsetD])

lemma orphan_set_task:
  assumes "orphan t sid b" and "u \<noteq> t" and "lt_session l = lt_session (bk_tasks b ! u)"
    and "lt_session l = sid \<Longrightarrow> lt_phase l = lt_phase (bk_tasks b ! u)"
  shows "orphan t sid (set_task u l b)"
proof -
  have "lt_session ((bk_tasks b)[u := l] ! v) = lt_session (bk_tasks b ! v) \<and>
      (lt_session (bk_tasks b ! v) = sid \<longrightarrow> lt_phase ((bk_tasks b)[u := l] ! v) = lt_phase (bk_tasks b ! v))"
    if "v < length (bk_tasks b)" for v
    using assms(3,4) that by (cases "v = u") auto
  then show ?thesis using assms(1,2) by (simp add: orphan_def)
qed

lemma orphan_notify: "orphan t sid b \<Longrightarrow> u \<noteq> t \<Longrightarrow> orphan t sid (notify_lifecycle u m b)"
  by (simp add: notify_lifecycle_def orphan_set_task)

lemma orphan_break:
  assumes "orphan t sid b" and "u < length (bk_tasks b)" and "lt_phase (bk_tasks b ! u) = Running" and "u \<noteq> t"
  shows "orphan t sid (lifecycle_break u b)"
proof -
  have "lt_session (bk_tasks b ! u) \<noteq> sid" using assms by (auto simp: orphan_def)
  then show ?thesis
    unfolding lifecycle_break_def
    by (intro orphan_upd_entry orphan_set_task assms) simp_all
qed

lemma orphan_connD:
  "orphan t sid b \<Longrightarrow> c < length (bk_conns b) \<Longrightarrow> cn_open (bk_conns b ! c) \<Longrightarrow> conn_apart t sid (bk_conns b ! c)"
  by (simp add: orphan_def)

lemma orphan_bind_registered:
  assumes "orphan t sid b" and "sid' \<noteq> sid" and "c < length (bk_conns b)"
    and "conn_apart t sid (bk_conns b ! c)"
  shows "orphan t sid (bind_registered c sid' b)"
proof (cases "sid' \<in> set (bk_registry b) \<and> registry_get (bk_entries b) sid' \<noteq> None")
  case True
  then obtain e where get: "registry_get (bk_entries b) sid' = Some e" by auto
  let ?cn = "\<lambda>u. (bk_conns b ! c)\<lparr> cn_bound_session := Some sid', cn_bound_lifecycle := Some u \<rparr>"
  have apart: "conn_apart t sid (?cn u)" if "u \<noteq> t" for u
    using assms(2,4) that by (simp add: conn_apart_def)
  show ?thesis
  proof (cases "en_lifecycle e")
    case (Some u)
    have "u \<noteq> t"
      using get Some assms(1,2) by (auto simp: orphan_def registry_get_def dest!: map_of_SomeD)
    then have "orphan t sid (set_conn c (?cn u) (upd_entry sid' (bind_conn c) (notify_lifecycle u Connected b)))"
      by (intro orphan_set_conn orphan_upd_entry orphan_notify assms) (simp_all add: apart)
    then show ?thesis using True get Some by (simp add: bind_registered_def)
  next
    case None
    let ?n = "length (bk_tasks b)" and ?s = "b\<lparr> bk_tasks := bk_tasks b @ [lifecycle_spawn sid'] \<rparr>"
    have n: "?n \<noteq> t" using assms(1) by (auto simp: orphan_def)
    have "orphan t sid ?s"
      using assms(1,2) by (auto simp: orphan_def nth_append lifecycle_spawn_def)
    then have "orphan t sid (set_conn c (?cn ?n) (upd_entry sid' (bind_conn c) (notify_lifecycle ?n Connected
        (upd_entry sid' (\<lambda>e. e\<lparr> en_lifecycle := Some ?n \<rparr>) ?s))))"
      by (intro orphan_set_conn orphan_upd_entry orphan_notify) (use n apart in simp_all)
    then show ?thesis using True get None by (simp add: bind_registered_def)
  qed
qed (use assms in \<open>auto simp: bind_registered_def split: option.split\<close>)

lemma orphan_other [simp]:
  "orphan t sid (b\<lparr> bk_now := x \<rparr>) = orphan t sid b"
  "orphan t sid (b\<lparr> bk_rejected_cap := x \<rparr>) = orphan t sid b"
  by (simp_all add: orphan_def)

lemma orphan_registry:
  "orphan t sid b \<Longrightarrow> sid \<in> set reg \<Longrightarrow> orphan t sid (b\<lparr> bk_registry := reg \<rparr>)"
  by (simp add: orphan_def)

lemma orphan_register_begin:
  assumes "orphan t sid b"
  shows "orphan t sid (register_begin c b)"
proof -
  have "orphan t sid (b\<lparr> bk_next_session := bk_next_session b + 1 \<rparr>)"
    using assms by (fastforce simp: orphan_def)
  moreover have "session_id_of (bk_next_session b) \<noteq> sid" using assms by (auto simp: orphan_def)
  ultimately show ?thesis
    using assms orphan_connD [OF assms, of c]
    by (auto simp: register_begin_def reading_def conn_apart_def intro!: orphan_set_conn)
qed

lemma orphan_register_finish:
  assumes "orphan t sid b"
  shows "orphan t sid (register_finish c launch unix_ms caps b)"
proof (cases "c < length (bk_conns b) \<and> cn_open (bk_conns b ! c) \<and> (\<exists>sid. cn_busy (bk_conns b ! c) = Launching sid)")
  case True
  then obtain sid' where busy: "cn_busy (bk_conns b ! c) = Launching sid'" by blast
  have apart: "conn_apart t sid (bk_conns b ! c)" using True by (simp add: orphan_connD [OF assms])
  then have ne: "sid' \<noteq> sid" by (simp add: conn_apart_def busy)
  let ?s = "set_conn c ((bk_conns b ! c)\<lparr> cn_busy := Reading \<rparr>) b"
  have mem: "sid \<in> set (List.insert sid' (bk_registry b))" using assms by (simp add: orphan_def)
  have s: "orphan t sid ?s"
    using assms apart by (auto simp: conn_apart_def intro!: orphan_set_conn)
  have "orphan t sid (bind_registered c sid' (?s\<lparr> bk_entries := registry_insert
      (set_capabilities caps (entry_new (bk_now b) unix_ms sid' browser)) (bk_entries b),
      bk_registry := List.insert sid' (bk_registry b) \<rparr>))" for browser
  proof (rule orphan_bind_registered [OF _ ne])
    show "orphan t sid (?s\<lparr> bk_entries := registry_insert
      (set_capabilities caps (entry_new (bk_now b) unix_ms sid' browser)) (bk_entries b),
      bk_registry := List.insert sid' (bk_registry b) \<rparr>)"
      using orphan_registry [OF orphan_insert [OF s, of "set_capabilities caps (entry_new (bk_now b) unix_ms sid' browser)"] mem]
      by simp
  qed (use True apart in \<open>simp_all add: conn_apart_def\<close>)
  with True busy s show ?thesis
    by (simp add: register_finish_def Let_def split: option.split)
qed (auto simp: register_finish_def assms split: conn_busy.split)

lemma orphan_disconnect:
  assumes "orphan t sid b"
  shows "orphan t sid (disconnect c b)"
proof (cases "reading c b")
  case True
  then have "conn_apart t sid (bk_conns b ! c)"
    by (simp add: reading_def orphan_connD [OF assms])
  then have "cn_bound_lifecycle (bk_conns b ! c) \<noteq> Some t" by (simp add: conn_apart_def)
  then show ?thesis
    using assms by (auto simp: disconnect_def Let_def split: option.split
        intro!: orphan_notify orphan_upd_entry orphan_set_conn)
qed (simp add: disconnect_def assms)

lemma orphan_unregister_begin:
  assumes "orphan t sid b"
  shows "orphan t sid (unregister_begin c b)"
proof (cases "reading c b \<and> cn_bound_session (bk_conns b ! c) \<noteq> None")
  case True
  then obtain sid' where sid': "cn_bound_session (bk_conns b ! c) = Some sid'" by auto
  have apart: "conn_apart t sid (bk_conns b ! c)"
    using True by (simp add: reading_def orphan_connD [OF assms])
  then have ne: "sid' \<noteq> sid" by (simp add: conn_apart_def sid')
  have "u \<noteq> t" if "registry_get (bk_entries b) sid' = Some e" "en_lifecycle e = Some u" for e u
    using that ne assms by (auto simp: orphan_def registry_get_def dest!: map_of_SomeD)
  moreover have "conn_apart t sid ((bk_conns b ! c)\<lparr> cn_busy := Closing sid' \<rparr>)"
    using apart ne by (simp add: conn_apart_def)
  ultimately show ?thesis
    using True assms
    by (auto simp: unregister_begin_def sid' Let_def split: option.split
        intro!: orphan_set_conn orphan_upd_entry orphan_notify)
qed (auto simp: unregister_begin_def assms split: option.split)

lemma orphan_unregister_end:
  assumes "orphan t sid b"
  shows "orphan t sid (unregister_end c b)"
proof (cases "c < length (bk_conns b) \<and> cn_open (bk_conns b ! c)")
  case True
  then have apart: "conn_apart t sid (bk_conns b ! c)" by (simp add: orphan_connD [OF assms])
  then have "orphan t sid (b\<lparr> bk_registry := remove1 sid' (bk_registry b) \<rparr>)"
    if "cn_busy (bk_conns b ! c) = Closing sid'" for sid'
    using assms that by (auto simp: conn_apart_def orphan_def)
  with True apart assms show ?thesis
    by (auto simp: unregister_end_def conn_apart_def split: conn_busy.split intro!: orphan_set_conn)
qed (auto simp: unregister_end_def assms)

lemma lifecycle_message_frame:
  "lifecycle_message_step d now m l = (l', quit) \<Longrightarrow> lt_session l' = lt_session l \<and> lt_phase l' = lt_phase l"
  by (cases m) (auto simp: Let_def split: if_splits)

lemma orphan_task_recv:
  assumes "orphan t sid b"
  shows "orphan t sid (task_recv u b)"
proof (cases "u < length (bk_tasks b) \<and> lt_phase (bk_tasks b ! u) = Running \<and> lt_inbox (bk_tasks b ! u) \<noteq> []")
  case True
  then have "u \<noteq> t" using assms by (auto simp: orphan_def)
  obtain m rest where inbox: "lt_inbox (bk_tasks b ! u) = m # rest" using True by (auto simp: neq_Nil_conv)
  obtain l quit where step: "lifecycle_message_step (bk_drain_after b) (bk_now b) m
      ((bk_tasks b ! u)\<lparr> lt_inbox := rest \<rparr>) = (l, quit)" by fastforce
  from lifecycle_message_frame [OF this] have l: "lt_session l = lt_session (bk_tasks b ! u)"
    "lt_phase l = Running" using True by simp_all
  have "orphan t sid (set_task u l b)"
    using assms \<open>u \<noteq> t\<close> l True by (intro orphan_set_task) simp_all
  then show ?thesis
    using True inbox step l \<open>u \<noteq> t\<close>
    by (auto simp: task_recv_def Let_def intro!: orphan_break)
qed (auto simp: task_recv_def assms split: list.split)

lemma orphan_task_elapsed: "orphan t sid b \<Longrightarrow> orphan t sid (task_elapsed u b)"
  by (cases "u = t") (auto simp: task_elapsed_def orphan_break, simp add: orphan_def lifecycle_elapsed_def)

lemma orphan_task_exit:
  assumes "orphan t sid b"
  shows "orphan t sid (task_exit u b)"
proof (cases "u < length (bk_tasks b) \<and> lt_phase (bk_tasks b ! u) = Exiting")
  case True
  then have u: "u \<noteq> t" "lt_session (bk_tasks b ! u) \<noteq> sid" using assms by (auto simp: orphan_def)
  then have "orphan t sid (b\<lparr> bk_registry := remove1 (lt_session (bk_tasks b ! u)) (bk_registry b) \<rparr>)"
    using assms by (auto simp: orphan_def)
  then have "orphan t sid (set_task u ((bk_tasks b ! u)\<lparr> lt_phase := Exited \<rparr>)
      (b\<lparr> bk_registry := remove1 (lt_session (bk_tasks b ! u)) (bk_registry b) \<rparr>))"
    using u by (intro orphan_set_task) simp_all
  with True show ?thesis by (simp add: task_exit_def)
qed (auto simp: task_exit_def assms)

lemma orphan_step:
  assumes "orphan t sid b" and "\<And>c caps. op \<noteq> RegisterExisting c sid caps"
  shows "orphan t sid (broker_step op b)"
proof (cases op)
  case Accept
  then show ?thesis using assms(1) by (auto simp: accept_conn_def orphan_def conn_apart_def)
next
  case (RegisterExisting c sid' caps)
  then have "sid' \<noteq> sid" using assms(2) by blast
  then show ?thesis
    using assms(1) RegisterExisting orphan_connD [OF assms(1), of c]
    by (auto simp: register_existing_def reading_def intro!: orphan_bind_registered orphan_upd_entry)
next
  case (ConnError c)
  then show ?thesis using assms(1) by (auto simp: conn_error_def intro!: orphan_set_conn)
qed (simp_all add: assms(1) orphan_register_begin orphan_register_finish orphan_disconnect
    orphan_unregister_begin orphan_unregister_end orphan_task_recv orphan_task_elapsed orphan_task_exit)

text \<open>
  C18. Orphaned sessions are never drained. Once a session's task waits without a deadline although
  no open connection refers to the session, no sequence of operations ends the session (its
  browser keeps running and its slot stays taken) unless a client registers again with its id. A
  connection that registers twice, or whose read fails, leaves such a session behind.
\<close>

theorem orphaned_session_never_drains:
  assumes "orphan t sid b" and "\<forall>c caps. RegisterExisting c sid caps \<notin> set ops"
  shows "sid \<in> set (bk_registry (broker_run ops b)) \<and>
    lt_phase (bk_tasks (broker_run ops b) ! t) = Running \<and>
    lt_drain_deadline (bk_tasks (broker_run ops b) ! t) = None"
proof -
  have "orphan t sid (broker_run ops b)"
    using assms
  proof (induction ops arbitrary: b)
    case (Cons op ops)
    from Cons.prems have "orphan t sid (broker_step op b)"
      by (intro orphan_step) auto
    from Cons.IH [OF this] Cons.prems(2) show ?case by (simp add: broker_run_def)
  qed (simp add: broker_run_def)
  then show ?thesis by (simp add: orphan_def)
qed

theorem orphaned_session_never_drains_witness:
  "let twice = broker_run [Accept, RegisterBegin 0, RegisterFinish 0 (Some 5) 0 [], RegisterBegin 0,
         RegisterFinish 0 (Some 6) 0 [], Disconnect 0, TaskRecv 0, TaskRecv 1, TaskRecv 1] (broker_new 300 4);
       failed = broker_run [Accept, RegisterBegin 0, RegisterFinish 0 (Some 5) 0 [], ConnError 0, TaskRecv 0]
         (broker_new 300 4);
       later = [Tick 400, TaskElapsed 0, TaskElapsed 1, TaskExit 0, TaskExit 1] in
     bk_registry (broker_run later twice) = [''s_1''] \<and> bk_registry (broker_run later failed) = [''s_1''] \<and>
     ''s_1'' \<in> set (bk_registry (broker_run (later @ later) twice)) \<and>
     ''s_1'' \<in> set (bk_registry (broker_run (later @ later) failed))"
proof -
  define twice where "twice = broker_run [Accept, RegisterBegin 0, RegisterFinish 0 (Some 5) 0 [], RegisterBegin 0,
         RegisterFinish 0 (Some 6) 0 [], Disconnect 0, TaskRecv 0, TaskRecv 1, TaskRecv 1] (broker_new 300 4)"
  define failed where "failed = broker_run [Accept, RegisterBegin 0, RegisterFinish 0 (Some 5) 0 [], ConnError 0, TaskRecv 0]
         (broker_new 300 4)"
  let ?later = "[Tick 400, TaskElapsed 0, TaskElapsed 1, TaskExit 0, TaskExit 1]"
  have id: "''s_1'' = session_id_of 1" by code_simp
  have "bk_next_session twice = 3" "bk_next_session failed = 2"
    unfolding twice_def failed_def by code_simp+
  then have n: "\<exists>n < bk_next_session twice. ''s_1'' = session_id_of n"
    "\<exists>n < bk_next_session failed. ''s_1'' = session_id_of n"
    unfolding id by auto
  have tasks: "bk_tasks twice = [\<lparr> lt_session = ''s_1'', lt_connected_count = 1, lt_drain_deadline = None,
        lt_phase = Running, lt_inbox = [] \<rparr>, \<lparr> lt_session = ''s_2'', lt_connected_count = 0,
        lt_drain_deadline = Some 300, lt_phase = Running, lt_inbox = [] \<rparr>]"
    "bk_tasks failed = [\<lparr> lt_session = ''s_1'', lt_connected_count = 1, lt_drain_deadline = None,
        lt_phase = Running, lt_inbox = [] \<rparr>]"
    unfolding twice_def failed_def by code_simp+
  have rest: "\<forall>b \<in> set [twice, failed]. ''s_1'' \<in> set (bk_registry b) \<and>
      (\<forall>cn \<in> set (bk_conns b). cn_open cn \<longrightarrow> conn_apart 0 ''s_1'' cn) \<and> registry_ok (bk_entries b) \<and>
      (\<forall>p \<in> set (bk_entries b). fst p \<noteq> ''s_1'' \<longrightarrow> en_lifecycle (snd p) \<noteq> Some 0)"
    unfolding twice_def failed_def by code_simp
  have "orphan 0 ''s_1'' twice" "orphan 0 ''s_1'' failed"
    unfolding orphan_def using n rest by (simp_all add: tasks less_Suc_eq)
  moreover have "bk_registry (broker_run ?later twice) = [''s_1'']"
      "bk_registry (broker_run ?later failed) = [''s_1'']"
    unfolding twice_def failed_def by code_simp+
  ultimately show ?thesis
    unfolding twice_def [symmetric] failed_def [symmetric] Let_def
    using orphaned_session_never_drains [of 0 "''s_1''" twice "?later @ ?later"]
      orphaned_session_never_drains [of 0 "''s_1''" failed "?later @ ?later"]
    by simp
qed

end
