(* ===== verification/Sandbox_Merge.thy ===== *)
theory Sandbox_Merge
  imports Prelude "HOL-Library.Sublist"
begin

text \<open>
  Promotion of agent-side changes back to the host (\<^verbatim>\<open>sandbox/src/merge.rs\<close>): the plan that drives
  \<^verbatim>\<open>rsync\<close>, the longest common subsequence of two line vectors computed in a table, and the unified
  diff rendered from it. Whether a path exists or is a directory and what \<^verbatim>\<open>rsync\<close> answers are
  arguments. A path is its list of components with a flag for absolute paths.
\<close>

subsection \<open>The plan\<close>

datatype merge_strategy = Ours | Theirs | Prompt | ThreeWay

fun merge_strategy_str :: "merge_strategy \<Rightarrow> string" where
  "merge_strategy_str Ours = ''ours''"
| "merge_strategy_str Theirs = ''theirs''"
| "merge_strategy_str Prompt = ''prompt''"
| "merge_strategy_str ThreeWay = ''three-way''"

record path =
  pt_absolute :: bool
  pt_parts :: "string list"

text \<open>\<^verbatim>\<open>Path::join\<close>: an absolute argument replaces the base.\<close>

definition path_join :: "path \<Rightarrow> path \<Rightarrow> path" where
  "path_join base p =
     (if pt_absolute p then p else \<lparr> pt_absolute = pt_absolute base, pt_parts = pt_parts base @ pt_parts p \<rparr>)"

definition path_strip_prefix :: "path \<Rightarrow> path \<Rightarrow> path option" where
  "path_strip_prefix base p =
     (if pt_absolute base = pt_absolute p \<and> prefix (pt_parts base) (pt_parts p)
      then Some \<lparr> pt_absolute = False, pt_parts = drop (length (pt_parts base)) (pt_parts p) \<rparr> else None)"

record merge_plan =
  mp_session_rootfs :: path
  mp_paths :: "path list"
  mp_strategy :: merge_strategy
  mp_dry_run :: bool

record merge_report =
  mr_considered :: nat
  mr_copied :: nat
  mr_skipped_unchanged :: nat
  mr_skipped_conflicting :: nat
  mr_itemize_lines :: "string list"

definition merge_report_default :: merge_report where
  "merge_report_default =
     \<lparr> mr_considered = 0, mr_copied = 0, mr_skipped_unchanged = 0, mr_skipped_conflicting = 0,
       mr_itemize_lines = [] \<rparr>"

datatype merge_error = HomeDirUnresolvable | RsyncFailed string

record rsync_out =
  ro_success :: bool
  ro_status :: string
  ro_lines :: "string list"

definition rsync_flags :: "bool \<Rightarrow> merge_strategy \<Rightarrow> string list" where
  "rsync_flags dry_run strategy =
     [''-aHAX'', ''--itemize-changes''] @
     (if dry_run then [''--dry-run''] else []) @
     (case strategy of
        Ours \<Rightarrow> [''--ignore-existing''] | Theirs \<Rightarrow> [] | Prompt \<Rightarrow> [''--dry-run'']
      | ThreeWay \<Rightarrow> [''--ignore-existing''])"

definition agent_path_of :: "path \<Rightarrow> path \<Rightarrow> path \<Rightarrow> path" where
  "agent_path_of host_home session_rootfs host_path =
     path_join session_rootfs
       (case path_strip_prefix host_home host_path of Some r \<Rightarrow> r | None \<Rightarrow> host_path)"

definition count_itemized :: "string \<Rightarrow> merge_report \<Rightarrow> merge_report" where
  "count_itemized line r =
     (let r = r\<lparr> mr_itemize_lines := mr_itemize_lines r @ [line] \<rparr> in
      if prefix ''>'' line \<or> prefix ''<'' line then r\<lparr> mr_copied := mr_copied r + 1 \<rparr>
      else if prefix ''.'' line then r\<lparr> mr_skipped_unchanged := mr_skipped_unchanged r + 1 \<rparr> else r)"

text \<open>
  \<open>rsync flags source destination\<close> is what the command answers, or the error of its spawn;
  \<open>show\<close> prints a path.
\<close>

fun execute_paths ::
  "(path \<Rightarrow> bool) \<Rightarrow> (path \<Rightarrow> bool) \<Rightarrow> (string list \<Rightarrow> path \<Rightarrow> path \<Rightarrow> string + rsync_out) \<Rightarrow> (path \<Rightarrow> string) \<Rightarrow>
   path \<Rightarrow> merge_plan \<Rightarrow> path list \<Rightarrow> merge_report \<Rightarrow> merge_error + merge_report" where
  "execute_paths exists is_dir rsync shown host_home plan [] r = Inr r"
| "execute_paths exists is_dir rsync shown host_home plan (host_path # rest) r =
     (let r = r\<lparr> mr_considered := mr_considered r + 1 \<rparr>;
          agent_path = agent_path_of host_home (mp_session_rootfs plan) host_path
      in if \<not> exists agent_path then execute_paths exists is_dir rsync shown host_home plan rest r
         else
           let src = (if is_dir agent_path then agent_path\<lparr> pt_parts := pt_parts agent_path @ [''''] \<rparr> else agent_path)
           in case rsync (rsync_flags (mp_dry_run plan) (mp_strategy plan)) src host_path of
                Inl e \<Rightarrow> Inl (RsyncFailed (''spawn rsync: '' @ e))
              | Inr out \<Rightarrow>
                  (let r = fold count_itemized (ro_lines out) r
                   in if \<not> ro_success out
                      then Inl (RsyncFailed (''rsync exit '' @ ro_status out @ '' for '' @ shown host_path))
                      else execute_paths exists is_dir rsync shown host_home plan rest r))"

definition merge_execute ::
  "(path \<Rightarrow> bool) \<Rightarrow> (path \<Rightarrow> bool) \<Rightarrow> (string list \<Rightarrow> path \<Rightarrow> path \<Rightarrow> string + rsync_out) \<Rightarrow> (path \<Rightarrow> string) \<Rightarrow>
   path option \<Rightarrow> merge_plan \<Rightarrow> merge_error + merge_report" where
  "merge_execute exists is_dir rsync shown home plan =
     (case home of
        None \<Rightarrow> Inl HomeDirUnresolvable
      | Some host_home \<Rightarrow> execute_paths exists is_dir rsync shown host_home plan (mp_paths plan) merge_report_default)"

definition session_rootfs :: "path option \<Rightarrow> string \<Rightarrow> merge_error + path" where
  "session_rootfs home session_id =
     (case home of
        None \<Rightarrow> Inl HomeDirUnresolvable
      | Some h \<Rightarrow> Inr (fold (\<lambda>part p. path_join p \<lparr> pt_absolute = False, pt_parts = [part] \<rparr>)
                         [''.one-for-all'', ''sessions'', session_id] h))"

definition ensure_rsync_present :: "(path \<Rightarrow> bool) \<Rightarrow> merge_error + unit" where
  "ensure_rsync_present exists =
     (if exists \<lparr> pt_absolute = True, pt_parts = [''usr'', ''bin'', ''rsync''] \<rparr> then Inr ()
      else Inl (RsyncFailed ''/usr/bin/rsync not found; macOS ships rsync at this path''))"

subsection \<open>Longest common subsequence\<close>

definition dp_cell :: "'a list \<Rightarrow> 'a list \<Rightarrow> nat \<Rightarrow> nat \<Rightarrow> u32 list list \<Rightarrow> u32" where
  "dp_cell a b i j dp =
     (if a ! i = b ! j then dp ! i ! j + 1 else max (dp ! (i + 1) ! j) (dp ! i ! (j + 1)))"

definition dp_step :: "'a list \<Rightarrow> 'a list \<Rightarrow> nat \<Rightarrow> nat \<Rightarrow> u32 list list \<Rightarrow> u32 list list" where
  "dp_step a b i j dp = dp[i + 1 := (dp ! (i + 1))[j + 1 := dp_cell a b i j dp]]"

definition dp_row :: "'a list \<Rightarrow> 'a list \<Rightarrow> nat \<Rightarrow> u32 list list \<Rightarrow> u32 list list" where
  "dp_row a b i = fold (dp_step a b i) [0..<length b]"

definition dp_table :: "'a list \<Rightarrow> 'a list \<Rightarrow> u32 list list" where
  "dp_table a b =
     fold (dp_row a b) [0..<length a] (replicate (length a + 1) (replicate (length b + 1) 0))"

function walk_back ::
  "'a list \<Rightarrow> 'a list \<Rightarrow> u32 list list \<Rightarrow> nat \<Rightarrow> nat \<Rightarrow> (nat \<times> nat) list \<Rightarrow> (nat \<times> nat) list" where
  "walk_back a b dp i j out =
     (if i > 0 \<and> j > 0
      then if a ! (i - 1) = b ! (j - 1) then walk_back a b dp (i - 1) (j - 1) (out @ [(i - 1, j - 1)])
           else if dp ! (i - 1) ! j \<ge> dp ! i ! (j - 1) then walk_back a b dp (i - 1) j out
           else walk_back a b dp i (j - 1) out
      else out)"
  by pat_completeness auto
termination by (relation "measure (\<lambda>(a, b, dp, i, j, out). i + j)") auto

declare walk_back.simps [simp del]

definition lcs_lines :: "'a list \<Rightarrow> 'a list \<Rightarrow> (nat \<times> nat) list" where
  "lcs_lines a b =
     (if length a = 0 \<or> length b = 0 then []
      else rev (walk_back a b (dp_table a b) (length a) (length b) []))"

subsection \<open>Unified diff\<close>

text \<open>\<^verbatim>\<open>str::lines\<close>: pieces between newlines, a carriage return before the newline dropped, no empty
  last piece.\<close>

definition NL :: char where "NL = CHR 0x0A"

definition CR :: char where "CR = CHR 0x0D"

definition strip_cr :: "string \<Rightarrow> string" where
  "strip_cr l = (if l \<noteq> [] \<and> last l = CR then butlast l else l)"

fun split_nl :: "string \<Rightarrow> string \<Rightarrow> string list" where
  "split_nl acc [] = (if acc = [] then [] else [acc])"
| "split_nl acc (c # cs) = (if c = NL then strip_cr acc # split_nl [] cs else split_nl (acc @ [c]) cs)"

definition str_lines :: "string \<Rightarrow> string list" where
  "str_lines s = split_nl [] s"

datatype diff_line = Removed string | Added string | Context string

fun diff_line_text :: "diff_line \<Rightarrow> string" where
  "diff_line_text (Removed l) = ''-'' @ l @ [NL]"
| "diff_line_text (Added l) = ''+'' @ l @ [NL]"
| "diff_line_text (Context l) = '' '' @ l @ [NL]"

fun diff_loop :: "string list \<Rightarrow> string list \<Rightarrow> nat \<Rightarrow> nat \<Rightarrow> (nat \<times> nat) list \<Rightarrow> diff_line list" where
  "diff_loop lhs rhs i j [] =
     (if i < length lhs \<or> j < length rhs then map Removed (drop i lhs) @ map Added (drop j rhs) else [])"
| "diff_loop lhs rhs i j ((ci, cj) # lcs) =
     (if i < length lhs \<or> j < length rhs
      then map Removed (drop i (take ci lhs)) @ map Added (drop j (take cj rhs)) @
           Context (lhs ! max i ci) # diff_loop lhs rhs (max i ci + 1) (max j cj + 1) lcs
      else [])"

definition render_unified_diff :: "string \<Rightarrow> string \<Rightarrow> string \<Rightarrow> string \<Rightarrow> string" where
  "render_unified_diff left_label right_label left right =
     (let lhs = str_lines left; rhs = str_lines right; lcs = lcs_lines lhs rhs
      in ''--- '' @ left_label @ [NL] @ ''+++ '' @ right_label @ [NL] @
         concat (map diff_line_text (diff_loop lhs rhs 0 0 lcs)))"

subsection \<open>Specifications\<close>

text \<open>Length of a longest common subsequence of two prefixes, by the usual recursion.\<close>

fun lcs_len :: "'a list \<Rightarrow> 'a list \<Rightarrow> nat \<Rightarrow> nat \<Rightarrow> nat" where
  "lcs_len a b 0 j = 0"
| "lcs_len a b (Suc i) 0 = 0"
| "lcs_len a b (Suc i) (Suc j) =
     (if a ! i = b ! j then Suc (lcs_len a b i j)
      else max (lcs_len a b (Suc i) j) (lcs_len a b i (Suc j)))"

text \<open>Pairs of positions that match and increase on both sides.\<close>

definition matches :: "'a list \<Rightarrow> 'a list \<Rightarrow> (nat \<times> nat) list \<Rightarrow> bool" where
  "matches a b ps \<longleftrightarrow>
     sorted_wrt (\<lambda>p q. fst p < fst q \<and> snd p < snd q) ps \<and>
     (\<forall>(i, j) \<in> set ps. i < length a \<and> j < length b \<and> a ! i = b ! j)"

fun old_side :: "diff_line \<Rightarrow> string list" where
  "old_side (Removed l) = [l]" | "old_side (Added l) = []" | "old_side (Context l) = [l]"

fun new_side :: "diff_line \<Rightarrow> string list" where
  "new_side (Removed l) = []" | "new_side (Added l) = [l]" | "new_side (Context l) = [l]"

fun diff_line_raw :: "diff_line \<Rightarrow> string" where
  "diff_line_raw (Removed l) = CHR ''-'' # l"
| "diff_line_raw (Added l) = CHR ''+'' # l"
| "diff_line_raw (Context l) = CHR '' '' # l"

text \<open>Reading a diff body back: the text of the lines that carry one of the two marks of a side.\<close>

fun split_on_nl :: "string \<Rightarrow> string \<Rightarrow> string list" where
  "split_on_nl acc [] = (if acc = [] then [] else [acc])"
| "split_on_nl acc (c # cs) = (if c = NL then acc # split_on_nl [] cs else split_on_nl (acc @ [c]) cs)"

definition side :: "char \<Rightarrow> string \<Rightarrow> string list" where
  "side mark body =
     [tl l. l \<leftarrow> split_on_nl [] body, l \<noteq> [] \<and> (hd l = CHR '' '' \<or> hd l = mark)]"

subsection \<open>The table\<close>

lemma lcs_len_le: "lcs_len a b i j \<le> i"
  by (induction a b i j rule: lcs_len.induct) auto

lemma lcs_len_0 [simp]: "lcs_len a b i 0 = 0"
  by (cases i) simp_all

text \<open>Rows up to \<open>i\<close> are final, row \<open>i + 1\<close> up to column \<open>j\<close>; every row has its zero.\<close>

definition dp_ok :: "'a list \<Rightarrow> 'a list \<Rightarrow> nat \<Rightarrow> nat \<Rightarrow> u32 list list \<Rightarrow> bool" where
  "dp_ok a b i j dp \<longleftrightarrow>
     length dp = length a + 1 \<and> (\<forall>k \<le> length a. length (dp ! k) = length b + 1 \<and> dp ! k ! 0 = 0) \<and>
     (\<forall>k l. k \<le> i \<longrightarrow> k \<le> length a \<longrightarrow> l \<le> length b \<longrightarrow> unat (dp ! k ! l) = lcs_len a b k l) \<and>
     (\<forall>l \<le> j. Suc i \<le> length a \<longrightarrow> l \<le> length b \<longrightarrow> unat (dp ! Suc i ! l) = lcs_len a b (Suc i) l)"

lemma dp_cell_ok:
  assumes "dp_ok a b i j dp" and "i < length a" and "j < length b" and "length a < 2 ^ 32"
  shows "unat (dp_cell a b i j dp) = lcs_len a b (Suc i) (Suc j)"
proof -
  have c: "unat (dp ! i ! j) = lcs_len a b i j" "unat (dp ! Suc i ! j) = lcs_len a b (Suc i) j"
    "unat (dp ! i ! Suc j) = lcs_len a b i (Suc j)"
    using assms(1-3) by (simp_all add: dp_ok_def)
  have "unat (dp ! i ! j) + 1 < 2 ^ 32"
    using lcs_len_le [of a b i j] assms(2,4) c(1) by linarith
  then have "unat (dp ! i ! j + 1) = Suc (unat (dp ! i ! j))"
    by (simp add: unat_plus_if')
  then show ?thesis using c by (simp add: dp_cell_def max_def word_le_nat_alt)
qed

lemma dp_step_ok:
  assumes "dp_ok a b i j dp" and "i < length a" and "j < length b" and "length a < 2 ^ 32"
  shows "dp_ok a b i (Suc j) (dp_step a b i j dp)"
  using assms dp_cell_ok [OF assms]
  by (auto simp: dp_ok_def dp_step_def nth_list_update le_Suc_eq)

lemma dp_row_ok:
  assumes "dp_ok a b i 0 dp" and "i < length a" and "length a < 2 ^ 32"
  shows "dp_ok a b (Suc i) 0 (dp_row a b i dp)"
proof -
  have "dp_ok a b i k (fold (dp_step a b i) [0..<k] dp)" if "k \<le> length b" for k
    using that assms by (induction k) (auto intro!: dp_step_ok)
  then have "dp_ok a b i (length b) (dp_row a b i dp)" by (simp add: dp_row_def)
  then show ?thesis by (auto simp: dp_ok_def le_Suc_eq)
qed

lemma dp_table_ok:
  assumes "length a < 2 ^ 32"
  shows "dp_ok a b (length a) 0 (dp_table a b)"
proof -
  have "dp_ok a b k 0 (fold (dp_row a b) [0..<k] (replicate (length a + 1) (replicate (length b + 1) 0)))"
    if "k \<le> length a" for k
    using that
  proof (induction k)
    case 0
    then show ?case by (auto simp: dp_ok_def Suc_le_eq simp del: replicate_Suc)
  next
    case (Suc k)
    then show ?case using assms by (auto intro!: dp_row_ok)
  qed
  then show ?thesis by (simp add: dp_table_def)
qed

subsection \<open>The walk back\<close>

lemma walk_back_acc: "walk_back a b dp i j out = out @ walk_back a b dp i j []"
proof (induction "i + j" arbitrary: i j out rule: less_induct)
  case less
  show ?case
  proof (cases "i > 0 \<and> j > 0")
    case True
    then show ?thesis
      using less [of "i - 1" "j - 1" "out @ [(i - 1, j - 1)]"] less [of "i - 1" "j - 1" "[(i - 1, j - 1)]"]
        less [of "i - 1" j out] less [of i "j - 1" out]
      by (simp add: walk_back.simps [of a b dp i j])
  qed (auto simp: walk_back.simps [of a b dp i j])
qed

lemma walk_back_unfold:
  "i > 0 \<Longrightarrow> j > 0 \<Longrightarrow> walk_back a b dp i j [] =
     (if a ! (i - 1) = b ! (j - 1) then (i - 1, j - 1) # walk_back a b dp (i - 1) (j - 1) []
      else if dp ! (i - 1) ! j \<ge> dp ! i ! (j - 1) then walk_back a b dp (i - 1) j []
      else walk_back a b dp i (j - 1) [])"
  using walk_back_acc [of a b dp "i - 1" "j - 1" "[(i - 1, j - 1)]"]
  by (subst walk_back.simps) simp

lemma walk_back_end: "i = 0 \<or> j = 0 \<Longrightarrow> walk_back a b dp i j [] = []"
  by (subst walk_back.simps) auto

lemma walk_back_matches:
  assumes "i \<le> length a" and "j \<le> length b"
  shows "matches a b (rev (walk_back a b dp i j [])) \<and>
    (\<forall>p \<in> set (walk_back a b dp i j []). fst p < i \<and> snd p < j)"
  using assms
proof (induction "i + j" arbitrary: i j rule: less_induct)
  case less
  show ?case
  proof (cases "i > 0 \<and> j > 0")
    case True
    note IH = less.hyps [of "i - 1" "j - 1"] less.hyps [of "i - 1" j] less.hyps [of i "j - 1"]
    show ?thesis
    proof (cases "a ! (i - 1) = b ! (j - 1)")
      case eq: True
      let ?w = "walk_back a b dp (i - 1) (j - 1) []"
      have w: "matches a b (rev ?w)" "\<forall>p \<in> set ?w. fst p < i - 1 \<and> snd p < j - 1"
        using IH(1) True less.prems by simp_all
      have "matches a b (rev ((i - 1, j - 1) # ?w))"
        using w eq True less.prems by (auto simp: matches_def sorted_wrt_append)
      moreover have "\<forall>p \<in> set ((i - 1, j - 1) # ?w). fst p < i \<and> snd p < j"
        using w(2) True by fastforce
      ultimately show ?thesis using True eq by (simp add: walk_back_unfold)
    next
      case ne: False
      have "\<forall>p \<in> set (walk_back a b dp (i - 1) j []). fst p < i \<and> snd p < j"
        "\<forall>p \<in> set (walk_back a b dp i (j - 1) []). fst p < i \<and> snd p < j"
        using IH(2,3) True less.prems by fastforce+
      then show ?thesis using IH(2,3) True ne less.prems by (simp add: walk_back_unfold)
    qed
  qed (auto simp: walk_back_end matches_def)
qed

lemma walk_back_length:
  assumes "dp_ok a b (length a) 0 dp" and "i \<le> length a" and "j \<le> length b"
  shows "length (walk_back a b dp i j []) = lcs_len a b i j"
  using assms(2,3)
proof (induction "i + j" arbitrary: i j rule: less_induct)
  case less
  show ?case
  proof (cases "i > 0 \<and> j > 0")
    case True
    then obtain i' j' where ij: "i = Suc i'" "j = Suc j'" by (metis gr0_implies_Suc)
    have "unat (dp ! i' ! j) = lcs_len a b i' j" "unat (dp ! i ! j') = lcs_len a b i j'"
      using assms(1) less.prems by (simp_all add: dp_ok_def ij)
    then show ?thesis
      using less.hyps [of i' j'] less.hyps [of i' j] less.hyps [of i j'] less.prems
      by (simp add: walk_back_unfold ij word_le_nat_alt max_def)
  next
    case False
    then show ?thesis by (auto simp: walk_back_end)
  qed
qed

subsection \<open>Optimality\<close>

lemma subseq_snoc_snoc:
  "subseq (xs @ [x]) (ys @ [y]) \<longleftrightarrow> (x = y \<and> subseq xs ys) \<or> subseq (xs @ [x]) ys"
proof (induction ys arbitrary: xs)
  case Nil
  then show ?case by (cases xs) auto
next
  case (Cons z ys)
  show ?case
  proof (cases xs)
    case Nil
    then show ?thesis using Cons.IH [of "[]"] by auto
  next
    case xs: (Cons w ws)
    then show ?thesis using Cons.IH [of ws] Cons.IH [of xs] by auto
  qed
qed

lemma lcs_len_upper:
  assumes "i \<le> length a" and "j \<le> length b" and "subseq xs (take i a)" and "subseq xs (take j b)"
  shows "length xs \<le> lcs_len a b i j"
  using assms
proof (induction a b i j arbitrary: xs rule: lcs_len.induct)
  case (3 a b i j)
  show ?case
  proof (cases xs rule: rev_cases)
    case (snoc ys x)
    have a: "(x = a ! i \<and> subseq ys (take i a)) \<or> subseq xs (take i a)"
      and b: "(x = b ! j \<and> subseq ys (take j b)) \<or> subseq xs (take j b)"
      using "3.prems" snoc by (auto simp: take_Suc_conv_app_nth subseq_snoc_snoc)
    have ys: "subseq xs zs \<Longrightarrow> subseq ys zs" for zs
      by (rule subseq_order.trans [of _ xs]) (auto simp: snoc)
    show ?thesis
    proof (cases "a ! i = b ! j")
      case True
      have "subseq ys (take i a)" "subseq ys (take j b)" using a b ys by auto
      with "3.IH"(1) [OF True, of ys] "3.prems" True show ?thesis by (simp add: snoc)
    next
      case False
      then have "subseq xs (take i a) \<or> subseq xs (take j b)" using a b by auto
      with "3.IH"(2,3) [OF False, of xs] "3.prems" False show ?thesis by (auto simp: le_max_iff_disj)
    qed
  qed simp
qed (auto simp: list_emb_Nil2)

text \<open>
  C19. The matched lines are a longest common subsequence. For two line vectors of which the first
  has fewer than \<open>2^32\<close> lines, \<^verbatim>\<open>lcs_lines\<close> returns pairs of equal lines that increase on both sides,
  and no common subsequence of the two vectors is longer.
\<close>

theorem lcs_lines_optimal:
  assumes "length a < 2 ^ 32"
  shows "matches a b (lcs_lines a b) \<and>
    (\<forall>xs. subseq xs a \<and> subseq xs b \<longrightarrow> length xs \<le> length (lcs_lines a b))"
proof (cases "a = [] \<or> b = []")
  case True
  then show ?thesis by (auto simp: lcs_lines_def matches_def list_emb_Nil2)
next
  case False
  let ?w = "walk_back a b (dp_table a b) (length a) (length b) []"
  have "matches a b (rev ?w)" using walk_back_matches [of "length a" a "length b" b] by simp
  moreover have "length ?w = lcs_len a b (length a) (length b)"
    by (rule walk_back_length [OF dp_table_ok [OF assms]]) simp_all
  ultimately show ?thesis
    using lcs_len_upper [of "length a" a "length b" b] False by (simp add: lcs_lines_def)
qed

theorem lcs_lines_optimal_witness:
  "lcs_lines [''one'', ''two'', ''three''] [''zero'', ''one'', ''two'', ''four'', ''three''] = [(0, 1), (1, 2), (2, 4)] \<and>
   matches [''one'', ''two'', ''three''] [''zero'', ''one'', ''two'', ''four'', ''three'']
     (lcs_lines [''one'', ''two'', ''three''] [''zero'', ''one'', ''two'', ''four'', ''three''])"
proof
  show "lcs_lines [''one'', ''two'', ''three''] [''zero'', ''one'', ''two'', ''four'', ''three''] = [(0, 1), (1, 2), (2, 4)]"
    by code_simp
  show "matches [''one'', ''two'', ''three''] [''zero'', ''one'', ''two'', ''four'', ''three'']
     (lcs_lines [''one'', ''two'', ''three''] [''zero'', ''one'', ''two'', ''four'', ''three''])"
    using lcs_lines_optimal [of "[''one'', ''two'', ''three'']" "[''zero'', ''one'', ''two'', ''four'', ''three'']"]
    by simp
qed

subsection \<open>The diff determines both files\<close>

lemma matches_lcs_lines: "matches a b (lcs_lines a b)"
  using walk_back_matches [of "length a" a "length b" b "dp_table a b"]
  by (auto simp: lcs_lines_def matches_def)

lemma drop_take_nth: "i \<le> c \<Longrightarrow> c < length xs \<Longrightarrow> drop i (take c xs) @ xs ! c # drop (Suc c) xs = drop i xs"
proof -
  assume "i \<le> c" "c < length xs"
  then have "drop i (take c xs @ xs ! c # drop (Suc c) xs) = drop i (take c xs) @ xs ! c # drop (Suc c) xs"
    by simp
  with \<open>c < length xs\<close> show ?thesis by (simp flip: id_take_nth_drop)
qed

lemma concat_map_Nil [simp]: "concat (map (\<lambda>x. []) xs) = []"
  by (induction xs) simp_all

lemma diff_loop_sides:
  assumes "matches lhs rhs lcs" and "\<forall>p \<in> set lcs. i \<le> fst p \<and> j \<le> snd p"
  shows "concat (map old_side (diff_loop lhs rhs i j lcs)) = drop i lhs \<and>
    concat (map new_side (diff_loop lhs rhs i j lcs)) = drop j rhs"
  using assms
proof (induction lhs rhs i j lcs rule: diff_loop.induct)
  case (1 lhs rhs i j)
  then show ?case by (simp add: comp_def)
next
  case (2 lhs rhs i j ci cj lcs)
  have c: "i \<le> ci" "j \<le> cj" "ci < length lhs" "cj < length rhs" "lhs ! ci = rhs ! cj"
    using 2(2,3) by (auto simp: matches_def)
  have "concat (map old_side (diff_loop lhs rhs (ci + 1) (cj + 1) lcs)) = drop (ci + 1) lhs \<and>
      concat (map new_side (diff_loop lhs rhs (ci + 1) (cj + 1) lcs)) = drop (cj + 1) rhs"
    using 2 c by (auto simp: matches_def max_absorb2 Suc_le_eq)
  then show ?case
    using c drop_take_nth [of i ci lhs] drop_take_nth [of j cj rhs]
    by (simp add: comp_def max_absorb2)
qed

lemma nl_free_split_nl: "NL \<notin> set acc \<Longrightarrow> l \<in> set (split_nl acc s) \<Longrightarrow> NL \<notin> set l"
  by (induction acc s rule: split_nl.induct)
    (auto simp: strip_cr_def split: if_splits dest: in_set_butlastD)

lemma split_on_nl_line:
  "NL \<notin> set l \<Longrightarrow> split_on_nl acc (l @ NL # rest) = (acc @ l) # split_on_nl [] rest"
  by (induction l arbitrary: acc) auto

lemma diff_line_text_raw: "diff_line_text d = diff_line_raw d @ [NL]"
  by (cases d) simp_all

lemma split_diff_text:
  "\<forall>d \<in> set ds. NL \<notin> set (diff_line_raw d) \<Longrightarrow>
   split_on_nl [] (concat (map diff_line_text ds)) = map diff_line_raw ds"
proof (induction ds)
  case (Cons d ds)
  then show ?case
    using split_on_nl_line [of "diff_line_raw d" "[]" "concat (map diff_line_text ds)"]
    by (simp add: diff_line_text_raw [of d])
qed simp

lemma side_diff_text:
  assumes "\<forall>d \<in> set ds. NL \<notin> set (diff_line_raw d)"
  shows "side (CHR ''-'') (concat (map diff_line_text ds)) = concat (map old_side ds)"
    and "side (CHR ''+'') (concat (map diff_line_text ds)) = concat (map new_side ds)"
proof -
  have "concat (map (\<lambda>l. if l \<noteq> [] \<and> (hd l = CHR '' '' \<or> hd l = CHR ''-'') then [tl l] else []) (map diff_line_raw ds)) =
      concat (map old_side ds)" for ds
  proof (induction ds)
    case (Cons d ds)
    then show ?case by (cases d) simp_all
  qed simp
  then show "side (CHR ''-'') (concat (map diff_line_text ds)) = concat (map old_side ds)"
    by (simp add: side_def split_diff_text [OF assms])
  have "concat (map (\<lambda>l. if l \<noteq> [] \<and> (hd l = CHR '' '' \<or> hd l = CHR ''+'') then [tl l] else []) (map diff_line_raw ds)) =
      concat (map new_side ds)" for ds
  proof (induction ds)
    case (Cons d ds)
    then show ?case by (cases d) simp_all
  qed simp
  then show "side (CHR ''+'') (concat (map diff_line_text ds)) = concat (map new_side ds)"
    by (simp add: side_def split_diff_text [OF assms])
qed

lemma sides_cover: "d \<in> set ds \<Longrightarrow> diff_line_raw d = m # l \<Longrightarrow> l \<in> set (concat (map old_side ds)) \<or> l \<in> set (concat (map new_side ds))"
  by (cases d) (force intro: bexI [of _ d])+

text \<open>
  C20. The unified diff determines both files. After the two header lines, the lines marked as
  common or removed are exactly the lines of the left file in order, and the lines marked as common
  or added are exactly the lines of the right file, whatever the files contain.
\<close>

theorem unified_diff_roundtrip:
  "\<exists>body. render_unified_diff left_label right_label left right =
      ''--- '' @ left_label @ [NL] @ ''+++ '' @ right_label @ [NL] @ body \<and>
    side (CHR ''-'') body = str_lines left \<and> side (CHR ''+'') body = str_lines right"
proof -
  let ?l = "str_lines left" and ?r = "str_lines right"
  let ?ds = "diff_loop ?l ?r 0 0 (lcs_lines ?l ?r)"
  have sides: "concat (map old_side ?ds) = ?l" "concat (map new_side ?ds) = ?r"
    using diff_loop_sides [OF matches_lcs_lines, of ?l ?r 0 0] by simp_all
  have free: "NL \<notin> set l" if "l \<in> set ?l \<or> l \<in> set ?r" for l
    using that nl_free_split_nl [of "[]" l] by (auto simp: str_lines_def)
  have "NL \<notin> set (diff_line_raw d)" if "d \<in> set ?ds" for d
  proof -
    obtain m l where raw: "diff_line_raw d = m # l" and "m \<noteq> NL"
      by (cases d) (auto simp: NL_def)
    moreover have "NL \<notin> set l" using sides_cover [OF that raw] sides free by simp
    ultimately show ?thesis by simp
  qed
  then have "side (CHR ''-'') (concat (map diff_line_text ?ds)) = ?l"
    "side (CHR ''+'') (concat (map diff_line_text ?ds)) = ?r"
    by (simp_all add: side_diff_text sides)
  then show ?thesis
    by (intro exI [of _ "concat (map diff_line_text ?ds)"]) (simp add: render_unified_diff_def Let_def)
qed

text \<open>A path outside the home directory is merged with itself.\<close>

lemma agent_path_outside_home:
  "pt_absolute p \<Longrightarrow> path_strip_prefix home p = None \<Longrightarrow> agent_path_of home rootfs p = p"
  by (simp add: agent_path_of_def path_join_def)

end
