(* ===== verification/Vision_Diff.thy ===== *)
theory Vision_Diff
  imports Prelude
begin

unbundle bit_operations_syntax

text \<open>
  Tile-hash difference of frames (\<^verbatim>\<open>vision/src/diff.rs\<close>) and the clamping of rectangles
  (\<^verbatim>\<open>vision/src/coords.rs\<close>). A \<^verbatim>\<open>u32\<close> is a natural number below \<open>2^32\<close> and the wrap-around of its
  operations is written out. The streaming hasher of the library is an argument: the function from
  the sequence of its writes to the digest. The arena the code allocates changes from is not
  modelled.
\<close>

definition add32 :: "nat \<Rightarrow> nat \<Rightarrow> nat" where "add32 a b = (a + b) mod 2 ^ 32"

definition sub32 :: "nat \<Rightarrow> nat \<Rightarrow> nat" where "sub32 a b = (a + 2 ^ 32 - b) mod 2 ^ 32"

definition mul32 :: "nat \<Rightarrow> nat \<Rightarrow> nat" where "mul32 a b = (a * b) mod 2 ^ 32"

record decoded_image =
  di_width :: nat
  di_height :: nat
  di_rgba :: "u8 list"
  di_captured_us :: u64

definition pixel_count :: "decoded_image \<Rightarrow> nat" where
  "pixel_count img = di_width img * di_height img"

definition byte_len :: "decoded_image \<Rightarrow> nat" where "byte_len img = pixel_count img * 4"

record pixel_box =
  pb_x :: nat
  pb_y :: nat
  pb_w :: nat
  pb_h :: nat

record tile_change =
  tc_tile_x :: nat
  tc_tile_y :: nat
  tc_bbox :: pixel_box
  tc_prev_hash :: u64
  tc_next_hash :: u64

record diff_result =
  dr_width :: nat
  dr_height :: nat
  dr_tile :: nat
  dr_grid_w :: nat
  dr_grid_h :: nat
  dr_hashes :: "u64 list"
  dr_changes :: "tile_change list"

datatype diff_error = DimensionsMismatch "nat \<times> nat" "nat \<times> nat" | TileSizeZero | GridLength nat nat

definition DEFAULT_TILE_SIZE :: nat where "DEFAULT_TILE_SIZE = 64"

definition bbox_intersects :: "pixel_box \<Rightarrow> pixel_box \<Rightarrow> bool" where
  "bbox_intersects a b =
     (let ax2 = add32 (pb_x a) (pb_w a); ay2 = add32 (pb_y a) (pb_h a);
          bx2 = add32 (pb_x b) (pb_w b); by2 = add32 (pb_y b) (pb_h b)
      in \<not> (ax2 \<le> pb_x b \<or> bx2 \<le> pb_x a \<or> ay2 \<le> pb_y b \<or> by2 \<le> pb_y a))"

subsection \<open>One tile\<close>

datatype hash_write = WriteBytes "u8 list" | WriteU32 u32

definition u32_le :: "u8 \<Rightarrow> u8 \<Rightarrow> u8 \<Rightarrow> u8 \<Rightarrow> u32" where
  "u32_le a b c d =
     ucast a OR push_bit 8 (ucast b) OR push_bit 16 (ucast c) OR push_bit 24 (ucast d)"

definition lanes :: "u8 list \<Rightarrow> u32 list" where
  "lanes chunk =
     map (\<lambda>k. u32_le (chunk ! (4 * k)) (chunk ! (4 * k + 1)) (chunk ! (4 * k + 2)) (chunk ! (4 * k + 3))) [0..<8]"

text \<open>The chunks of one row are folded into the accumulator; the rest of the row is returned.\<close>

function fold_row :: "u32 list \<Rightarrow> u8 list \<Rightarrow> u32 list \<times> u8 list" where
  "fold_row acc bytes =
     (if 32 \<le> length bytes
      then fold_row (map2 (XOR) acc (lanes (take 32 bytes))) (drop 32 bytes) else (acc, bytes))"
  by pat_completeness auto
termination by (relation "measure (\<lambda>(acc, bytes). length bytes)") auto

declare fold_row.simps [simp del]

fun fold_rows :: "u8 list list \<Rightarrow> u32 list \<Rightarrow> hash_write list \<Rightarrow> u32 list \<times> hash_write list" where
  "fold_rows [] acc writes = (acc, writes)"
| "fold_rows (bytes # rows) acc writes =
     (let (acc, tail) = fold_row acc bytes
      in fold_rows rows acc (if tail \<noteq> [] then writes @ [WriteBytes tail] else writes))"

definition row_bytes :: "decoded_image \<Rightarrow> nat \<Rightarrow> nat \<Rightarrow> nat \<Rightarrow> u8 list" where
  "row_bytes img x0 w y =
     (let row_start = y * (di_width img * 4) + x0 * 4 in take (w * 4) (drop row_start (di_rgba img)))"

definition hash_tile :: "(hash_write list \<Rightarrow> u64) \<Rightarrow> decoded_image \<Rightarrow> nat \<Rightarrow> nat \<Rightarrow> nat \<Rightarrow> u64" where
  "hash_tile hasher img tx ty tile =
     (let x0 = mul32 tx tile; y0 = mul32 ty tile;
          w = min tile (sub32 (di_width img) x0); h = min tile (sub32 (di_height img) y0);
          (acc, writes) = fold_rows (map (\<lambda>row. row_bytes img x0 w (add32 y0 row)) [0..<h]) (replicate 8 0) []
      in hasher (writes @ map WriteU32 acc @ [WriteU32 (of_nat w), WriteU32 (of_nat h)]))"

subsection \<open>The grid and the difference\<close>

definition grid_dim :: "nat \<Rightarrow> nat \<Rightarrow> nat" where
  "grid_dim n tile = sub32 (add32 n tile) 1 div tile"

definition tile_positions :: "nat \<Rightarrow> nat \<Rightarrow> (nat \<times> nat) list" where
  "tile_positions grid_w grid_h = [(tx, ty). ty \<leftarrow> [0..<grid_h], tx \<leftarrow> [0..<grid_w]]"

definition tile_index :: "nat \<Rightarrow> nat \<times> nat \<Rightarrow> nat" where
  "tile_index grid_w p = add32 (mul32 (snd p) grid_w) (fst p)"

definition compute_hash_grid :: "(hash_write list \<Rightarrow> u64) \<Rightarrow> decoded_image \<Rightarrow> nat \<Rightarrow> diff_error + u64 list" where
  "compute_hash_grid hasher img tile =
     (if tile = 0 then Inl TileSizeZero
      else
        let grid_w = grid_dim (di_width img) tile; grid_h = grid_dim (di_height img) tile
        in Inr (fold (\<lambda>p hashes. hashes[tile_index grid_w p := hash_tile hasher img (fst p) (snd p) tile])
                  (tile_positions grid_w grid_h) (replicate (mul32 grid_w grid_h) 0)))"

definition tile_box :: "decoded_image \<Rightarrow> nat \<Rightarrow> nat \<times> nat \<Rightarrow> pixel_box" where
  "tile_box img tile p =
     (let x0 = mul32 (fst p) tile; y0 = mul32 (snd p) tile
      in \<lparr> pb_x = x0, pb_y = y0, pb_w = min tile (sub32 (di_width img) x0),
           pb_h = min tile (sub32 (di_height img) y0) \<rparr>)"

definition diff_step ::
  "(hash_write list \<Rightarrow> u64) \<Rightarrow> decoded_image \<Rightarrow> u64 list \<Rightarrow> nat \<Rightarrow> nat \<Rightarrow> nat \<times> nat \<Rightarrow>
   u64 list \<times> tile_change list \<Rightarrow> u64 list \<times> tile_change list" where
  "diff_step hasher img prev_hashes grid_w tile p s =
     (case s of (hashes, changes) \<Rightarrow>
        let idx = tile_index grid_w p; h = hash_tile hasher img (fst p) (snd p) tile; prev = prev_hashes ! idx
        in (hashes[idx := h],
            if prev \<noteq> h
            then changes @ [\<lparr> tc_tile_x = fst p, tc_tile_y = snd p, tc_bbox = tile_box img tile p,
                              tc_prev_hash = prev, tc_next_hash = h \<rparr>]
            else changes))"

definition tile_diff ::
  "(hash_write list \<Rightarrow> u64) \<Rightarrow> decoded_image \<Rightarrow> u64 list \<Rightarrow> nat \<times> nat \<Rightarrow> nat \<Rightarrow> diff_error + diff_result" where
  "tile_diff hasher img prev_hashes prev_dims tile =
     (if (di_width img, di_height img) \<noteq> prev_dims
      then Inl (DimensionsMismatch prev_dims (di_width img, di_height img))
      else if tile = 0 then Inl TileSizeZero
      else
        let grid_w = grid_dim (di_width img) tile; grid_h = grid_dim (di_height img) tile;
            expected = mul32 grid_w grid_h
        in if length prev_hashes \<noteq> expected then Inl (GridLength (length prev_hashes) expected)
           else
             let (hashes, changes) = fold (diff_step hasher img prev_hashes grid_w tile)
                   (tile_positions grid_w grid_h) (replicate expected 0, [])
             in Inr \<lparr> dr_width = di_width img, dr_height = di_height img, dr_tile = tile, dr_grid_w = grid_w,
                      dr_grid_h = grid_h, dr_hashes = hashes, dr_changes = changes \<rparr>)"

definition is_identical :: "diff_result \<Rightarrow> bool" where
  "is_identical r \<longleftrightarrow> dr_changes r = []"

subsection \<open>Clamping (coords.rs)\<close>

definition sat_add32 :: "nat \<Rightarrow> nat \<Rightarrow> nat" where "sat_add32 a b = min (a + b) (2 ^ 32 - 1)"

definition clamp_to_image :: "pixel_box \<Rightarrow> nat \<Rightarrow> nat \<Rightarrow> pixel_box option" where
  "clamp_to_image b w h =
     (let x0 = min (pb_x b) w; y0 = min (pb_y b) h;
          x1 = min (sat_add32 (pb_x b) (pb_w b)) w; y1 = min (sat_add32 (pb_y b) (pb_h b)) h
      in if x1 \<le> x0 \<or> y1 \<le> y0 then None
         else Some \<lparr> pb_x = x0, pb_y = y0, pb_w = x1 - x0, pb_h = y1 - y0 \<rparr>)"

subsection \<open>Specifications\<close>

definition in_box :: "pixel_box \<Rightarrow> nat \<Rightarrow> nat \<Rightarrow> bool" where
  "in_box b x y \<longleftrightarrow> pb_x b \<le> x \<and> x < pb_x b + pb_w b \<and> pb_y b \<le> y \<and> y < pb_y b + pb_h b"

text \<open>Frames whose tile arithmetic stays below \<open>2^32\<close>.\<close>

definition fits32 :: "decoded_image \<Rightarrow> nat \<Rightarrow> bool" where
  "fits32 img tile \<longleftrightarrow>
     0 < tile \<and> di_width img + tile \<le> 2 ^ 32 \<and> di_height img + tile \<le> 2 ^ 32 \<and>
     ((di_width img + tile - 1) div tile) * ((di_height img + tile - 1) div tile) < 2 ^ 32"

text \<open>A frame of one colour.\<close>

definition solid :: "nat \<Rightarrow> nat \<Rightarrow> u8 list \<Rightarrow> decoded_image" where
  "solid w h px = \<lparr> di_width = w, di_height = h, di_rgba = concat (replicate (w * h) px), di_captured_us = 0 \<rparr>"

subsection \<open>Arithmetic without wrap-around\<close>

lemma sub32_le: "b \<le> a \<Longrightarrow> a < 2 ^ 32 \<Longrightarrow> sub32 a b = a - b"
proof -
  assume "b \<le> a" "a < 2 ^ 32"
  then have "a + 2 ^ 32 - b = (a - b) + 2 ^ 32" "a - b < 2 ^ 32" by simp_all
  then show ?thesis unfolding sub32_def by (metis mod_add_self2 mod_less)
qed

lemma grid_dim_eq:
  assumes "0 < tile" and "n + tile \<le> 2 ^ 32"
  shows "grid_dim n tile = (n + tile - 1) div tile"
proof (cases "n + tile = 2 ^ 32")
  case True
  then have "add32 n tile = 0" by (simp add: add32_def)
  moreover have "sub32 0 1 = 2 ^ 32 - 1" by (simp add: sub32_def)
  ultimately show ?thesis using True by (simp add: grid_dim_def)
next
  case False
  then have "n + tile < 2 ^ 32" using assms(2) by simp
  then show ?thesis using assms(1) by (simp add: grid_dim_def add32_def sub32_le)
qed

lemma tile_start:
  fixes tx :: nat
  assumes "0 < tile" and "tx < (n + tile - 1) div tile"
  shows "tx * tile < n"
proof -
  have "Suc tx * tile \<le> (n + tile - 1) div tile * tile" using assms(2) by (intro mult_le_mono1) simp
  also have "\<dots> \<le> n + tile - 1" by simp
  finally show ?thesis using assms(1) by simp
qed

lemma tile_of: "0 < tile \<Longrightarrow> x < n \<Longrightarrow> (x :: nat) div tile < (n + tile - 1) div tile"
proof -
  assume "0 < tile" "x < n"
  then have "(x + tile) div tile \<le> (n + tile - 1) div tile" by (intro div_le_mono) simp
  moreover have "(x + tile) div tile = Suc (x div tile)" using \<open>0 < tile\<close> by (simp add: div_add_self2)
  ultimately show ?thesis by simp
qed

lemma fits32D:
  assumes "fits32 img tile"
  shows "0 < tile" and "di_width img < 2 ^ 32" and "di_height img < 2 ^ 32"
    and "grid_dim (di_width img) tile = (di_width img + tile - 1) div tile"
    and "grid_dim (di_height img) tile = (di_height img + tile - 1) div tile"
    and "grid_dim (di_width img) tile * grid_dim (di_height img) tile < 2 ^ 32"
  using assms by (auto simp: fits32_def grid_dim_eq)

lemma tile_box_eq:
  assumes "fits32 img tile" and "fst p < grid_dim (di_width img) tile" and "snd p < grid_dim (di_height img) tile"
  shows "tile_box img tile p =
    \<lparr> pb_x = fst p * tile, pb_y = snd p * tile, pb_w = min tile (di_width img - fst p * tile),
      pb_h = min tile (di_height img - snd p * tile) \<rparr>"
proof -
  note fit = fits32D [OF assms(1)]
  have x: "fst p * tile < di_width img" and y: "snd p * tile < di_height img"
    using assms(2,3) by (auto simp: fit intro!: tile_start)
  then have "mul32 (fst p) tile = fst p * tile" "mul32 (snd p) tile = snd p * tile"
    using fit(2,3) by (simp_all add: mul32_def)
  then show ?thesis using x y fit(2,3) by (simp add: tile_box_def Let_def sub32_le less_imp_le)
qed

lemma tile_box_within:
  assumes "fits32 img tile" and "fst p < grid_dim (di_width img) tile" and "snd p < grid_dim (di_height img) tile"
  shows "pb_x (tile_box img tile p) + pb_w (tile_box img tile p) \<le> di_width img \<and>
    pb_y (tile_box img tile p) + pb_h (tile_box img tile p) \<le> di_height img"
proof -
  note fit = fits32D [OF assms(1)]
  have "fst p * tile < di_width img" and "snd p * tile < di_height img"
    using assms(2,3) by (auto simp: fit intro!: tile_start)
  then show ?thesis by (simp add: tile_box_eq [OF assms] min_def le_diff_conv2 add.commute)
qed

lemma in_tile_box:
  assumes "fits32 img tile" and "x < di_width img" and "y < di_height img"
    and "fst p < grid_dim (di_width img) tile" and "snd p < grid_dim (di_height img) tile"
  shows "in_box (tile_box img tile p) x y \<longleftrightarrow> p = (x div tile, y div tile)"
proof -
  have t: "0 < tile" by (rule fits32D [OF assms(1)])
  have mem: "k * tile \<le> z \<and> z < k * tile + min tile (n - k * tile) \<longleftrightarrow> k = z div tile" if "z < n" for k z n
  proof
    assume a: "k * tile \<le> z \<and> z < k * tile + min tile (n - k * tile)"
    then have "z < Suc k * tile" by (auto simp: min_def split: if_splits)
    with a t show "k = z div tile" by (metis div_nat_eqI mult.commute)
  next
    assume "k = z div tile"
    with that t show "k * tile \<le> z \<and> z < k * tile + min tile (n - k * tile)"
      by (auto simp: min_def intro: order_less_le_trans [OF dividend_less_div_times])
  qed
  show ?thesis
    using mem [OF assms(2), of "fst p"] mem [OF assms(3), of "snd p"]
    unfolding tile_box_eq [OF assms(1,4,5)] in_box_def by (auto simp: prod_eq_iff)
qed

subsection \<open>Row-major traversal\<close>

lemma tile_positions_index:
  assumes "gw * gh < 2 ^ 32"
  shows "map (tile_index gw) (tile_positions gw gh) = [0..<gw * gh]"
  using assms
proof (induction gh)
  case 0
  then show ?case by (simp add: tile_positions_def)
next
  case (Suc gh)
  have "gw * gh < 2 ^ 32" using Suc.prems by simp
  then have IH: "map (tile_index gw) (tile_positions gw gh) = [0..<gw * gh]" by (rule Suc.IH)
  have "tile_index gw (tx, gh) = gw * gh + tx" if "tx < gw" for tx
  proof -
    have "gw * gh + tx < 2 ^ 32" using that Suc.prems by simp
    then show ?thesis by (simp add: tile_index_def mul32_def add32_def mult.commute)
  qed
  then have "map (\<lambda>tx. tile_index gw (tx, gh)) [0..<gw] = map (\<lambda>tx. gw * gh + tx) [0..<gw]" by simp
  also have "\<dots> = [gw * gh..<gw * gh + gw]" using map_add_upt [of "gw * gh" gw] by (simp add: add.commute)
  finally show ?case
    using IH upt_add_eq_append [of 0 "gw * gh" gw]
    by (simp add: tile_positions_def comp_def add.commute)
qed

lemma set_tile_positions: "set (tile_positions gw gh) = {p. fst p < gw \<and> snd p < gh}"
  by (auto simp: tile_positions_def)

lemma update_run:
  assumes "map ix ps = [k..<k + length ps]" and "k + length ps \<le> length hs"
  shows "fold (\<lambda>p hs. hs[ix p := f p]) ps hs = take k hs @ map f ps @ drop (k + length ps) hs"
  using assms
proof (induction ps arbitrary: k hs)
  case (Cons p ps)
  have ix: "ix p = k" "map ix ps = [Suc k..<Suc k + length ps]"
    using Cons.prems(1) by (simp_all add: upt_conv_Cons del: upt_Suc)
  from Cons.IH [OF ix(2), of "hs[k := f p]"] Cons.prems(2) show ?case
    by (simp add: ix(1) take_Suc_conv_app_nth)
qed simp

lemma update_run_all:
  assumes "map ix ps = [0..<n]"
  shows "fold (\<lambda>p hs. hs[ix p := f p]) ps (replicate n z) = map f ps"
proof -
  have "length ps = n" using arg_cong [OF assms, of length] by simp
  with update_run [of ix ps 0 "replicate n z" f] assms show ?thesis by simp
qed

lemma compute_hash_grid_eq:
  assumes "fits32 img tile"
  shows "compute_hash_grid hasher img tile =
    Inr (map (\<lambda>p. hash_tile hasher img (fst p) (snd p) tile)
      (tile_positions (grid_dim (di_width img) tile) (grid_dim (di_height img) tile)))"
proof -
  note fit = fits32D [OF assms]
  have "mul32 (grid_dim (di_width img) tile) (grid_dim (di_height img) tile) =
      grid_dim (di_width img) tile * grid_dim (di_height img) tile"
    using fit(6) by (simp add: mul32_def)
  then show ?thesis
    using fit(1) update_run_all [OF tile_positions_index [OF fit(6)]] by (simp add: compute_hash_grid_def Let_def)
qed

lemma diff_fold:
  "fold (diff_step hasher img prev gw tile) ps (hs, cs) =
     (fold (\<lambda>p hs. hs[tile_index gw p := hash_tile hasher img (fst p) (snd p) tile]) ps hs,
      cs @ map (\<lambda>p. \<lparr> tc_tile_x = fst p, tc_tile_y = snd p, tc_bbox = tile_box img tile p,
              tc_prev_hash = prev ! tile_index gw p, tc_next_hash = hash_tile hasher img (fst p) (snd p) tile \<rparr>)
            (filter (\<lambda>p. prev ! tile_index gw p \<noteq> hash_tile hasher img (fst p) (snd p) tile) ps))"
  by (induction ps arbitrary: hs cs) (simp_all add: diff_step_def Let_def)

lemma index_nth:
  assumes "map ix ps = [0..<n]" and "p \<in> set ps"
  shows "map f ps ! ix p = f p"
proof -
  obtain i where i: "i < length ps" "p = ps ! i" using assms(2) by (metis in_set_conv_nth)
  have "length ps = n" using arg_cong [OF assms(1), of length] by simp
  then have "ix p = i" using i arg_cong [OF assms(1), of "\<lambda>xs. xs ! i"] by simp
  with i show ?thesis by simp
qed

text \<open>The whole of a difference, on frames whose arithmetic does not wrap.\<close>

lemma tile_diff_eq:
  assumes fit: "fits32 img tile" and dims: "di_width prev = di_width img" "di_height prev = di_height img"
    and grid: "compute_hash_grid hasher prev tile = Inr hashes"
  shows "tile_diff hasher img hashes (di_width img, di_height img) tile =
    Inr \<lparr> dr_width = di_width img, dr_height = di_height img, dr_tile = tile,
          dr_grid_w = grid_dim (di_width img) tile, dr_grid_h = grid_dim (di_height img) tile,
          dr_hashes = map (\<lambda>p. hash_tile hasher img (fst p) (snd p) tile)
            (tile_positions (grid_dim (di_width img) tile) (grid_dim (di_height img) tile)),
          dr_changes =
            map (\<lambda>p. \<lparr> tc_tile_x = fst p, tc_tile_y = snd p, tc_bbox = tile_box img tile p,
               tc_prev_hash = hash_tile hasher prev (fst p) (snd p) tile,
               tc_next_hash = hash_tile hasher img (fst p) (snd p) tile \<rparr>)
             (filter (\<lambda>p. hash_tile hasher prev (fst p) (snd p) tile \<noteq> hash_tile hasher img (fst p) (snd p) tile)
               (tile_positions (grid_dim (di_width img) tile) (grid_dim (di_height img) tile))) \<rparr>"
proof -
  let ?gw = "grid_dim (di_width img) tile" and ?gh = "grid_dim (di_height img) tile"
  let ?ps = "tile_positions ?gw ?gh"
  have fit': "fits32 prev tile" using fit dims by (simp add: fits32_def)
  note ix = tile_positions_index [OF fits32D(6) [OF fit]]
  have hashes: "hashes = map (\<lambda>p. hash_tile hasher prev (fst p) (snd p) tile) ?ps"
    using grid compute_hash_grid_eq [OF fit', of hasher] dims by simp
  have prev: "hashes ! tile_index ?gw p = hash_tile hasher prev (fst p) (snd p) tile" if "p \<in> set ?ps" for p
    unfolding hashes by (rule index_nth [OF ix that])
  have size: "mul32 ?gw ?gh = ?gw * ?gh" using fits32D(6) [OF fit] by (simp add: mul32_def)
  have len: "length hashes = ?gw * ?gh" using arg_cong [OF ix, of length] by (simp add: hashes)
  show ?thesis
    using fits32D(1) [OF fit]
    by (simp add: tile_diff_def Let_def size len diff_fold update_run_all [OF ix] prev cong: map_cong filter_cong)
qed

subsection \<open>Frames of one colour\<close>

lemma fold_row_short: "length bytes < 32 \<Longrightarrow> fold_row acc bytes = (acc, bytes)"
  by (simp add: fold_row.simps)

lemma drop_solid: "length px = 4 \<Longrightarrow> drop (n * 4) (concat (replicate N px)) = concat (replicate (N - n) px)"
proof (induction n arbitrary: N)
  case (Suc n)
  then show ?case by (cases N) simp_all
qed simp

lemma take_solid: "length px = 4 \<Longrightarrow> m \<le> N \<Longrightarrow> take (m * 4) (concat (replicate N px)) = concat (replicate m px)"
proof (induction m arbitrary: N)
  case (Suc m)
  then show ?case by (cases N) simp_all
qed simp

lemma xor_twice:
  "length acc = length ls \<Longrightarrow> map2 (XOR) (map2 (XOR) acc ls) ls = (acc :: u32 list)"
  by (induction acc ls rule: list_induct2) (simp_all add: xor.assoc)

lemma fold_row_solid:
  assumes "length px = 4" and "length acc = 8"
  shows "fold_row acc (concat (replicate (16 * k) px)) = (acc, [])"
proof (induction k)
  case 0
  then show ?case by (simp add: fold_row.simps)
next
  case (Suc k)
  let ?A = "concat (replicate 8 px)" and ?R = "concat (replicate (16 * k) px)"
  have A: "length ?A = 32" using assms(1) by (simp add: length_concat sum_list_replicate)
  have "16 * Suc k = 8 + (8 + 16 * k)" by simp
  then have split: "concat (replicate (16 * Suc k) px) = ?A @ ?A @ ?R"
    by (simp only: replicate_add concat_append)
  have step: "fold_row acc' (?A @ ys) = fold_row (map2 (XOR) acc' (lanes ?A)) ys" for acc' ys
    using A by (subst fold_row.simps) simp
  have "map2 (XOR) (map2 (XOR) acc (lanes ?A)) (lanes ?A) = acc"
    using assms(2) by (intro xor_twice) (simp add: lanes_def)
  then show ?case using Suc.IH by (simp only: split step)
qed

lemma fold_rows_solid:
  assumes "length px = 4" and "length acc = 8" and "\<And>r. r \<in> set rows \<Longrightarrow> r = concat (replicate (16 * k) px)"
  shows "fold_rows rows acc ws = (acc, ws)"
  using assms(3)
proof (induction rows)
  case (Cons r rows)
  then have "r = concat (replicate (16 * k) px)" by simp
  then have "fold_row acc r = (acc, [])" using fold_row_solid [OF assms(1,2), of k] by simp
  then show ?case using Cons by simp
qed simp

lemma row_solid:
  assumes "length px = 4" and "x0 + m \<le> w" and "y < h"
  shows "row_bytes (solid w h px) x0 m y = concat (replicate m px)"
proof -
  have "Suc y * w \<le> h * w" using assms(3) by (intro mult_le_mono1) simp
  then have "m \<le> w * h - (y * w + x0)" using assms(2) by (simp add: mult.commute)
  moreover have "y * (w * 4) + x0 * 4 = (y * w + x0) * 4" by (simp add: algebra_simps)
  ultimately show ?thesis
    by (simp only: row_bytes_def solid_def Let_def decoded_image.simps drop_solid [OF assms(1)] take_solid [OF assms(1)])
qed

lemma hash_solid:
  assumes px: "length px = 4" and fit: "fits32 (solid w h px) tile" and dvd: "16 dvd tile" "16 dvd w"
    and p: "tx < grid_dim w tile" "ty < grid_dim h tile"
  shows "hash_tile hasher (solid w h px) tx ty tile =
    hasher (map WriteU32 (replicate 8 0) @
      [WriteU32 (of_nat (min tile (w - tx * tile))), WriteU32 (of_nat (min tile (h - ty * tile)))])"
proof -
  note f = fits32D [OF fit, unfolded solid_def, simplified]
  have x: "tx * tile < w" and y: "ty * tile < h"
    using p f by (auto intro!: tile_start)
  obtain k where k: "min tile (w - tx * tile) = 16 * k"
    using dvd by (metis dvd_def dvd_diff_nat dvd_mult min_def)
  have "row_bytes (solid w h px) (tx * tile) (min tile (w - tx * tile)) (add32 (ty * tile) row) =
      concat (replicate (16 * k) px)" if "row < min tile (h - ty * tile)" for row
  proof -
    have "ty * tile + row < 2 ^ 32" using that f(3) by (simp add: less_diff_conv add.commute)
    then have "add32 (ty * tile) row = ty * tile + row" by (simp add: add32_def)
    then show ?thesis using that x row_solid [OF px, of "tx * tile" "16 * k" w "ty * tile + row" h] k by auto
  qed
  then have "fold_rows (map (\<lambda>row. row_bytes (solid w h px) (tx * tile) (min tile (w - tx * tile))
        (add32 (ty * tile) row)) [0..<min tile (h - ty * tile)]) (replicate 8 0) [] = (replicate 8 0, [])"
    by (intro fold_rows_solid [OF px, where k = k]) auto
  moreover have "mul32 tx tile = tx * tile" "mul32 ty tile = ty * tile"
    using x y f(2,3) by (simp_all add: mul32_def)
  moreover have "sub32 w (tx * tile) = w - tx * tile" "sub32 h (ty * tile) = h - ty * tile"
    using x y f(2,3) by (simp_all add: sub32_le)
  moreover have "di_width (solid w h px) = w" "di_height (solid w h px) = h" by (simp_all add: solid_def)
  ultimately show ?thesis by (simp add: hash_tile_def Let_def del: replicate_Suc)
qed

subsection \<open>Clamping\<close>

text \<open>A clamped rectangle covers the pixels of the image that the rectangle covers.\<close>

lemma clamp_to_image_pixels:
  assumes "x < w" and "y < h" and "w < 2 ^ 32" and "h < 2 ^ 32"
  shows "(\<exists>c. clamp_to_image b w h = Some c \<and> in_box c x y) \<longleftrightarrow> in_box b x y"
proof -
  have axis: "min a n \<le> z \<and> z < min (sat_add32 a l) n \<longleftrightarrow> a \<le> z \<and> z < a + l"
    if "z < n" "n < 2 ^ 32" for a l n z :: nat
  proof -
    have "z < min (sat_add32 a l) n \<longleftrightarrow> z < a + l" using that by (simp add: sat_add32_def)
    moreover have "min a n \<le> z \<longleftrightarrow> a \<le> z" using that(1) by (simp add: min_le_iff_disj)
    ultimately show ?thesis by blast
  qed
  let ?x0 = "min (pb_x b) w" and ?x1 = "min (sat_add32 (pb_x b) (pb_w b)) w"
  let ?y0 = "min (pb_y b) h" and ?y1 = "min (sat_add32 (pb_y b) (pb_h b)) h"
  have "(\<exists>c. clamp_to_image b w h = Some c \<and> in_box c x y) \<longleftrightarrow> (?x0 \<le> x \<and> x < ?x1) \<and> (?y0 \<le> y \<and> y < ?y1)"
  proof (cases "?x1 \<le> ?x0 \<or> ?y1 \<le> ?y0")
    case True
    then show ?thesis unfolding clamp_to_image_def Let_def by (auto simp del: min_less_iff_conj min.bounded_iff)
  next
    case False
    then have "?x0 \<le> ?x1" "?y0 \<le> ?y1" by linarith+
    then have "?x0 + (?x1 - ?x0) = ?x1" "?y0 + (?y1 - ?y0) = ?y1" by (simp_all only: le_add_diff_inverse)
    then show ?thesis
      unfolding clamp_to_image_def Let_def in_box_def if_not_P [OF False] by simp
  qed
  then show ?thesis
    unfolding in_box_def using axis [OF assms(1,3)] axis [OF assms(2,4)] by blast
qed

subsection \<open>Properties\<close>

text \<open>
  C21. On frames whose tile arithmetic fits in 32 bits, and whose dimensions agree, the difference
  against the hash grid of the previous frame succeeds. Its grid is the one
  \<^verbatim>\<open>compute_hash_grid\<close> gives for the new frame, its boxes lie within the frame, and a pixel is covered by a reported box exactly
  when the hash of the tile it lies in has changed.
\<close>

theorem tile_diff_exact:
  assumes "fits32 img tile" and "di_width prev = di_width img" and "di_height prev = di_height img"
    and "length (di_rgba img) = byte_len img"
    and "compute_hash_grid hasher prev tile = Inr hashes"
  shows "\<exists>r. tile_diff hasher img hashes (di_width prev, di_height prev) tile = Inr r \<and>
    compute_hash_grid hasher img tile = Inr (dr_hashes r) \<and>
    (\<forall>c \<in> set (dr_changes r). pb_x (tc_bbox c) + pb_w (tc_bbox c) \<le> di_width img \<and>
                               pb_y (tc_bbox c) + pb_h (tc_bbox c) \<le> di_height img) \<and>
    (\<forall>x < di_width img. \<forall>y < di_height img.
       (\<exists>c \<in> set (dr_changes r). in_box (tc_bbox c) x y) \<longleftrightarrow>
       hash_tile hasher prev (x div tile) (y div tile) tile \<noteq> hash_tile hasher img (x div tile) (y div tile) tile)"
proof -
  let ?gw = "grid_dim (di_width img) tile" and ?gh = "grid_dim (di_height img) tile"
  let ?new = "\<lambda>p. hash_tile hasher prev (fst p) (snd p) tile \<noteq> hash_tile hasher img (fst p) (snd p) tile"
  note fit = assms(1)
  have "\<exists>r. tile_diff hasher img hashes (di_width prev, di_height prev) tile = Inr r \<and>
      compute_hash_grid hasher img tile = Inr (dr_hashes r) \<and>
      tc_bbox ` set (dr_changes r) = tile_box img tile ` {p \<in> set (tile_positions ?gw ?gh). ?new p}"
    by (simp add: assms(2,3) tile_diff_eq [OF fit assms(2,3,5)] compute_hash_grid_eq [OF fit] image_image)
  then obtain r where r: "tile_diff hasher img hashes (di_width prev, di_height prev) tile = Inr r"
    and grid: "compute_hash_grid hasher img tile = Inr (dr_hashes r)"
    and boxes: "tc_bbox ` set (dr_changes r) = tile_box img tile ` {p \<in> set (tile_positions ?gw ?gh). ?new p}"
    by blast
  have inside: "pb_x b + pb_w b \<le> di_width img \<and> pb_y b + pb_h b \<le> di_height img"
    if "b \<in> tc_bbox ` set (dr_changes r)" for b
    using that tile_box_within [OF fit] by (auto simp: boxes set_tile_positions)
  have covered: "(\<exists>b \<in> tc_bbox ` set (dr_changes r). in_box b x y) \<longleftrightarrow> ?new (x div tile, y div tile)"
    if "x < di_width img" "y < di_height img" for x y
  proof -
    have "x div tile < ?gw" "y div tile < ?gh"
      using that tile_of [OF fits32D(1) [OF fit]] by (simp_all add: fits32D(4,5) [OF fit])
    then show ?thesis
      using in_tile_box [OF fit that] by (auto simp: boxes set_tile_positions)
  qed
  show ?thesis using r grid inside covered by auto
qed

text \<open>Witness: a two by one frame in tiles of one pixel whose second pixel changed.\<close>

theorem tile_diff_exact_witness:
  "let prev = \<lparr> di_width = 2, di_height = 1, di_rgba = [0, 0, 0, 0, 0, 0, 0, 0], di_captured_us = 0 \<rparr>;
       img = prev\<lparr> di_rgba := [0, 0, 0, 0, 9, 0, 0, 0] \<rparr>;
       hasher = (\<lambda>ws. case ws of WriteBytes (b # _) # _ \<Rightarrow> ucast b | _ \<Rightarrow> 0)
   in \<exists>r. tile_diff hasher img [0, 0] (2, 1) 1 = Inr r \<and> \<not> is_identical r"
proof -
  let ?prev = "\<lparr> di_width = 2, di_height = 1, di_rgba = [0, 0, 0, 0, 0, 0, 0, 0], di_captured_us = 0 \<rparr>"
  let ?img = "?prev\<lparr> di_rgba := [0, 0, 0, 0, 9, 0, 0, 0] \<rparr>"
  let ?h = "\<lambda>ws :: hash_write list. case ws of WriteBytes (b # _) # _ \<Rightarrow> ucast b | _ \<Rightarrow> (0 :: u64)"
  have "compute_hash_grid ?h ?prev 1 = Inr [0, 0]"
    by (simp add: compute_hash_grid_eq fits32_def grid_dim_eq tile_positions_def hash_tile_def mul32_def sub32_def
        add32_def row_bytes_def fold_row_short upt_conv_Cons)
  moreover have "hash_tile ?h ?prev 1 0 1 \<noteq> hash_tile ?h ?img 1 0 1"
    by (simp add: hash_tile_def mul32_def sub32_def add32_def row_bytes_def fold_row_short)
  ultimately show ?thesis
    using tile_diff_exact [of ?img 1 ?prev ?h "[0, 0]"]
    by (auto simp: fits32_def byte_len_def pixel_count_def is_identical_def Let_def)
qed

text \<open>
  The row fold of \<^verbatim>\<open>hash_tile\<close> exclusive-ors blocks of eight pixels into one accumulator, so equal
  blocks cancel in pairs. For every hasher, when the tile size and the width are multiples of sixteen, a
  frame of one colour and a frame of any other colour have the same grid and the difference reports
  that the frames are identical.
\<close>

theorem solid_frames_identical:
  assumes "length px = 4" and "length px' = 4" and "16 dvd tile" and "16 dvd w" and "fits32 (solid w h px) tile"
    and "compute_hash_grid hasher (solid w h px) tile = Inr hashes"
  shows "\<exists>r. tile_diff hasher (solid w h px') hashes (w, h) tile = Inr r \<and> is_identical r \<and> dr_hashes r = hashes"
proof -
  have dims: "di_width (solid w h p) = w" "di_height (solid w h p) = h" for p by (simp_all add: solid_def)
  have fit: "fits32 (solid w h px') tile" using assms(5) by (simp add: fits32_def dims)
  have same: "hash_tile hasher (solid w h px) (fst p) (snd p) tile = hash_tile hasher (solid w h px') (fst p) (snd p) tile"
    if "p \<in> set (tile_positions (grid_dim w tile) (grid_dim h tile))" for p
    using that hash_solid [OF assms(1,5,3,4), of "fst p" "snd p" hasher]
      hash_solid [OF assms(2) fit assms(3,4), of "fst p" "snd p" hasher]
    by (simp add: set_tile_positions)
  show ?thesis
    using tile_diff_eq [OF fit _ _ assms(6)] compute_hash_grid_eq [OF assms(5), of hasher] assms(6)
    by (simp add: dims is_identical_def same filter_False cong: map_cong filter_cong)
qed

text \<open>Witness: a black frame of 1280 by 720 that turns white, at the default tile size.\<close>

theorem solid_frames_identical_witness:
  "\<exists>hashes r. compute_hash_grid (\<lambda>ws. of_nat (length ws)) (solid 1280 720 [0, 0, 0, 255]) DEFAULT_TILE_SIZE = Inr hashes \<and>
     tile_diff (\<lambda>ws. of_nat (length ws)) (solid 1280 720 [255, 255, 255, 255]) hashes (1280, 720) DEFAULT_TILE_SIZE = Inr r \<and>
     is_identical r"
proof -
  let ?h = "\<lambda>ws :: hash_write list. of_nat (length ws) :: u64"
  have fit: "fits32 (solid 1280 720 [0, 0, 0, 255]) 64" by (simp add: fits32_def solid_def)
  from compute_hash_grid_eq [OF fit, of ?h] obtain hashes where
    g: "compute_hash_grid ?h (solid 1280 720 [0, 0, 0, 255]) 64 = Inr hashes" by blast
  show ?thesis
    using solid_frames_identical [OF _ _ _ _ fit g, of "[255, 255, 255, 255]"] g
    by (auto simp: DEFAULT_TILE_SIZE_def)
qed

end
