(* ===== verification/Obs_Trace.thy ===== *)
theory Obs_Trace
  imports Json "HOL-Library.Sublist" "HOL-Library.Multiset"
begin

unbundle bit_operations_syntax

text \<open>
  Trace recording (\<^verbatim>\<open>observability/src/trace.rs\<close>): events, redaction, the bounded buffer that drops
  its oldest event, and the writer task with its rotation and its manifest. The writer is a labelled
  transition system: a step is what one thread does between two points where another may run, and
  the outcome of every file operation is part of the step. The regular expressions, the JSON
  printer, the digests and the compressor are arguments (\<open>regex_lib\<close>, \<open>trace_env\<close>).
\<close>

datatype trace_event =
    CdpRequest u64 string "string option" int string json
  | CdpResponse u64 string "string option" int "json option" "json option"
  | CdpEvent u64 string "string option" string json
  | Action u64 string string string json json
  | Screenshot u64 string string string string
  | DomSnapshot u64 string string u64 string string

fun trace_kind :: "trace_event \<Rightarrow> string" where
  "trace_kind (CdpRequest _ _ _ _ _ _) = ''cdp_request''"
| "trace_kind (CdpResponse _ _ _ _ _ _) = ''cdp_response''"
| "trace_kind (CdpEvent _ _ _ _ _) = ''cdp_event''"
| "trace_kind (Action _ _ _ _ _ _) = ''action''"
| "trace_kind (Screenshot _ _ _ _ _) = ''screenshot''"
| "trace_kind (DomSnapshot _ _ _ _ _ _) = ''dom_snapshot''"

definition DEFAULT_MAX_BYTES :: u64 where "DEFAULT_MAX_BYTES = 100 * 1024 * 1024"
definition DEFAULT_MAX_AGE_SECS :: u64 where "DEFAULT_MAX_AGE_SECS = 3600"
definition TRACE_CHANNEL_CAP :: nat where "TRACE_CHANNEL_CAP = 1024"
definition DROP_ALARM_WINDOW_MS :: u64 where "DROP_ALARM_WINDOW_MS = 60 * 1000"
definition DROP_ALARM_THRESHOLD :: nat where "DROP_ALARM_THRESHOLD = 100"

definition HEADER_DENYLIST :: "string list" where
  "HEADER_DENYLIST =
     [''cookie'', ''set-cookie'', ''authorization'', ''proxy-authorization'', ''x-api-key'', ''api-key'',
      ''x-auth-token'', ''password'', ''passwd'', ''secret'']"

definition REDACTED :: string where "REDACTED = ''<REDACTED>''"

record trace_options =
  to_max_bytes :: u64
  to_max_age_ms :: nat
  to_buffer_cap :: nat
  to_redact_patterns :: "string list"
  to_hmac_key :: "u8 list option"

definition trace_options_default :: trace_options where
  "trace_options_default =
     \<lparr> to_max_bytes = DEFAULT_MAX_BYTES, to_max_age_ms = unat DEFAULT_MAX_AGE_SECS * 1000,
       to_buffer_cap = TRACE_CHANNEL_CAP, to_redact_patterns = [], to_hmac_key = None \<rparr>"

subsection \<open>Redaction\<close>

record 'rx regex_lib =
  rl_new :: "string \<Rightarrow> 'rx option"
  rl_set_ok :: "string list \<Rightarrow> bool"
  rl_set_match :: "string list \<Rightarrow> string \<Rightarrow> bool"
  rl_replace_all :: "'rx \<Rightarrow> string \<Rightarrow> string \<Rightarrow> string"

record 'rx redactor =
  rd_set :: "string list"
  rd_patterns :: "'rx list"
  rd_header_denylist :: "string list"

definition redactor_new :: "'rx regex_lib \<Rightarrow> string list \<Rightarrow> 'rx redactor option" where
  "redactor_new lib patterns =
     (let valid = filter (\<lambda>p. rl_new lib p \<noteq> None) patterns in
      if rl_set_ok lib valid
      then Some \<lparr> rd_set = valid, rd_patterns = List.map_filter (rl_new lib) patterns,
                  rd_header_denylist = HEADER_DENYLIST \<rparr>
      else None)"

definition scrub_str :: "'rx regex_lib \<Rightarrow> 'rx redactor \<Rightarrow> string \<Rightarrow> string" where
  "scrub_str lib r s =
     (if rd_patterns r = [] \<or> \<not> rl_set_match lib (rd_set r) s then s
      else fold (\<lambda>rx out. rl_replace_all lib rx out REDACTED) (rd_patterns r) s)"

definition is_denylisted_key :: "'rx redactor \<Rightarrow> string \<Rightarrow> bool" where
  "is_denylisted_key r key = list_ex (\<lambda>d. d = to_ascii_lowercase key) (rd_header_denylist r)"

function redact_value :: "'rx regex_lib \<Rightarrow> 'rx redactor \<Rightarrow> json \<Rightarrow> json" where
  "redact_value lib r (JString s) = JString (scrub_str lib r s)"
| "redact_value lib r (JArray arr) = JArray (map (redact_value lib r) arr)"
| "redact_value lib r (JObject m) =
     JObject (map (\<lambda>p. (fst p, if is_denylisted_key r (fst p) then JString REDACTED
                               else redact_value lib r (snd p))) m)"
| "redact_value lib r JNull = JNull"
| "redact_value lib r (JBool b) = JBool b"
| "redact_value lib r (JPos n) = JPos n"
| "redact_value lib r (JNeg i) = JNeg i"
| "redact_value lib r (JFloat f) = JFloat f"
  by pat_completeness auto
termination
proof (relation "measure (\<lambda>(lib, r, v). size v)")
  fix m :: "(string \<times> json) list" and p :: "string \<times> json"
  assume "p \<in> set m"
  then have "size_prod (\<lambda>_. 0) size p \<le> size_list (size_prod (\<lambda>_. 0) size) m" by (rule size_list_estimation') simp
  then have "size (snd p) < size (JObject m)" by (cases p) simp
  then show "((lib, r, snd p), (lib, r, JObject m)) \<in> measure (\<lambda>(lib, r, v). size v)" for lib :: "'rx regex_lib" and r by simp
next
  fix arr :: "json list" and v :: json
  assume "v \<in> set arr"
  then have "size v \<le> size_list size arr" by (rule size_list_estimation') simp
  then show "((lib, r, v), (lib, r, JArray arr)) \<in> measure (\<lambda>(lib, r, v). size v)" for lib :: "'rx regex_lib" and r by simp
qed simp

fun redact_event :: "'rx regex_lib \<Rightarrow> 'rx redactor \<Rightarrow> trace_event \<Rightarrow> trace_event" where
  "redact_event lib r (CdpRequest ts sid target i mth params) =
     CdpRequest ts sid target i mth (redact_value lib r params)"
| "redact_event lib r (CdpResponse ts sid target i result err) =
     CdpResponse ts sid target i (map_option (redact_value lib r) result) (map_option (redact_value lib r) err)"
| "redact_event lib r (CdpEvent ts sid target mth params) = CdpEvent ts sid target mth (redact_value lib r params)"
| "redact_event lib r (Action ts sid tab tool args result) =
     Action ts sid tab tool (redact_value lib r args) (redact_value lib r result)"
| "redact_event lib r (Screenshot ts sid tab after png) = Screenshot ts sid tab after png"
| "redact_event lib r (DomSnapshot ts sid tab n hash path) = DomSnapshot ts sid tab n hash path"

text \<open>\<^verbatim>\<open>start_in_dir\<close> builds a redactor only when there are patterns.\<close>

definition redactor_of :: "'rx regex_lib \<Rightarrow> trace_options \<Rightarrow> 'rx redactor option" where
  "redactor_of lib opts =
     (if to_redact_patterns opts = [] then None else redactor_new lib (to_redact_patterns opts))"

definition redact_for_write :: "'rx regex_lib \<Rightarrow> 'rx redactor option \<Rightarrow> trace_event \<Rightarrow> trace_event" where
  "redact_for_write lib redactor ev = (case redactor of Some r \<Rightarrow> redact_event lib r ev | None \<Rightarrow> ev)"

subsection \<open>File names\<close>

abbreviation pad4 :: "nat \<Rightarrow> string" where "pad4 \<equiv> pad_dec 4"

definition jsonl_name :: "u64 \<Rightarrow> string" where "jsonl_name n = pad4 (unat n) @ ''.jsonl''"

definition gz_name :: "string \<Rightarrow> string" where "gz_name path = path @ ''.gz''"

definition strip_suffix :: "string \<Rightarrow> string \<Rightarrow> string option" where
  "strip_suffix suf s = (if suffix suf s then Some (take (length s - length suf) s) else None)"

definition scan_entry :: "string \<Rightarrow> int \<Rightarrow> int" where
  "scan_entry name highest =
     (case (case strip_suffix ''.jsonl.gz'' name of Some s \<Rightarrow> Some s | None \<Rightarrow> strip_suffix ''.jsonl'' name) of
        None \<Rightarrow> highest
      | Some stem \<Rightarrow> (case parse_i64 stem of Some n \<Rightarrow> if n > highest then n else highest | None \<Rightarrow> highest))"

definition scan_next_seq :: "string list \<Rightarrow> u64" where
  "scan_next_seq names =
     (let highest = fold scan_entry names (- 1) in if highest < 0 then 0 else sat_add (word_of_int highest) 1)"

definition sanitize_for_filename :: "string \<Rightarrow> string" where
  "sanitize_for_filename =
     map (\<lambda>c. let n = of_char c :: nat in
            if (97 \<le> n \<and> n \<le> 122) \<or> (65 \<le> n \<and> n \<le> 90) \<or> (48 \<le> n \<and> n \<le> 57) \<or> c \<in> {CHR ''-'', CHR ''_'', CHR ''.''}
            then c else CHR ''_'')"

text \<open>The names of the screenshots and snapshots beside the trace, with the counter after it.\<close>

definition screenshot_name :: "string \<Rightarrow> u64 \<Rightarrow> u64 \<Rightarrow> string" where
  "screenshot_name tool unix_ms seq =
     sanitize_for_filename tool @ ''-'' @ nat_to_dec (unat unix_ms) @ ''-'' @ pad_dec 6 (unat seq) @ ''.png''"

definition screencast_name :: "string \<Rightarrow> u64 \<Rightarrow> u64 \<Rightarrow> string" where
  "screencast_name ext unix_ms seq =
     ''vision.frame-'' @ nat_to_dec (unat unix_ms) @ ''-'' @ pad_dec 6 (unat seq) @ ''.'' @ sanitize_for_filename ext"

definition snapshot_name :: "u64 \<Rightarrow> string" where
  "snapshot_name seq = pad_dec 8 (unat seq) @ ''.json''"

definition save_screenshot_png :: "(string \<Rightarrow> bool) \<Rightarrow> string \<Rightarrow> u64 \<Rightarrow> u64 \<Rightarrow> string option \<times> u64" where
  "save_screenshot_png create_and_write tool unix_ms seq =
     (let fname = screenshot_name tool unix_ms seq
      in (if create_and_write fname then Some (''screenshots/'' @ fname) else None, seq + 1))"

definition save_screencast_frame :: "(string \<Rightarrow> bool) \<Rightarrow> string \<Rightarrow> u64 \<Rightarrow> u64 \<Rightarrow> string option \<times> u64" where
  "save_screencast_frame create_and_write ext unix_ms seq =
     (let fname = screencast_name ext unix_ms seq
      in (if create_and_write fname then Some (''screenshots/'' @ fname) else None, seq + 1))"

subsection \<open>Files and manifest\<close>

type_synonym files = "(string \<times> u8 list) list"

record manifest_file =
  mf_path :: string
  mf_bytes :: u64
  mf_sha256 :: string
  mf_gzipped :: bool
  mf_seq :: u64

record manifest =
  mn_session_id :: string
  mn_started_ts_ms :: u64
  mn_written_ts_ms :: u64
  mn_files :: "manifest_file list"
  mn_hmac :: "string option"

record 'rx trace_env =
  te_lib :: "'rx regex_lib"
  te_to_vec :: "trace_event \<Rightarrow> u8 list option"
  te_gzip :: "u8 list \<Rightarrow> u8 list"
  te_sha256 :: "u8 list \<Rightarrow> string"
  te_canonical :: "manifest \<Rightarrow> u8 list"
  te_hmac :: "u8 list \<Rightarrow> u8 list \<Rightarrow> string"

text \<open>What the file system and the clocks answer during one step.\<close>

datatype write_outcome = WriteOk | WritePartial nat | FlushFailed

datatype gzip_outcome = GzipFailed | GzipDone bool

record trace_io =
  io_now :: nat
  io_unix :: u64
  io_open_ok :: bool
  io_meta_ok :: bool
  io_read_ok :: bool
  io_manifest_ok :: bool
  io_gzip :: gzip_outcome
  io_write :: write_outcome

record current_file =
  cf_path :: string
  cf_bytes_written :: u64
  cf_opened_at :: nat
  cf_seq :: u64

definition file_bytes :: "files \<Rightarrow> string \<Rightarrow> u8 list" where
  "file_bytes files path = (case map_of files path of Some b \<Rightarrow> b | None \<Rightarrow> [])"

definition open_seq :: "trace_io \<Rightarrow> files \<Rightarrow> u64 \<Rightarrow> (current_file \<times> files) option" where
  "open_seq io files seq =
     (let path = jsonl_name seq in
      if \<not> io_open_ok io then None
      else
        let files = AList.update path (file_bytes files path) files
        in Some (\<lparr> cf_path = path,
                   cf_bytes_written = (if io_meta_ok io then of_nat (length (file_bytes files path)) else 0),
                   cf_opened_at = io_now io, cf_seq = seq \<rparr>, files))"

text \<open>\<^verbatim>\<open>write_event\<close>: the bytes that reached the file, the handle and the files.\<close>

definition write_event ::
  "'rx trace_env \<Rightarrow> trace_io \<Rightarrow> trace_event \<Rightarrow> current_file \<Rightarrow> files \<Rightarrow> u8 list \<times> current_file \<times> files" where
  "write_event env io ev c files =
     (let append = (\<lambda>b. AList.update (cf_path c) (file_bytes files (cf_path c) @ b) files) in
      case te_to_vec env ev of
        None \<Rightarrow> ([], c, files)
      | Some bytes \<Rightarrow>
          let line = bytes @ [10] in
          case io_write io of
            WriteOk \<Rightarrow>
              (line, c\<lparr> cf_bytes_written := sat_add (cf_bytes_written c) (of_nat (length line)) \<rparr>, append line)
          | WritePartial k \<Rightarrow> (take k line, c, append (take k line))
          | FlushFailed \<Rightarrow> (line, c, append line))"

definition should_rotate :: "trace_io \<Rightarrow> current_file \<Rightarrow> trace_options \<Rightarrow> bool" where
  "should_rotate io c opts \<longleftrightarrow>
     cf_bytes_written c \<ge> to_max_bytes opts \<or> io_now io - cf_opened_at c \<ge> to_max_age_ms opts"

definition gzip_file :: "'rx trace_env \<Rightarrow> trace_io \<Rightarrow> string \<Rightarrow> files \<Rightarrow> string option \<times> files" where
  "gzip_file env io src files =
     (case (io_gzip io, map_of files src) of
        (GzipDone removed, Some b) \<Rightarrow>
          (let dst = gz_name src; files = AList.update dst (te_gzip env b) files
           in (Some dst, if removed then AList.delete src files else files))
      | _ \<Rightarrow> (None, files))"

definition manifest_for_closed ::
  "'rx trace_env \<Rightarrow> trace_io \<Rightarrow> string \<Rightarrow> u64 \<Rightarrow> u64 \<Rightarrow> bool \<Rightarrow> files \<Rightarrow> manifest_file option" where
  "manifest_for_closed env io path seq bytes_hint gzipped files =
     (case map_of files path of
        Some contents \<Rightarrow>
          if io_read_ok io
          then Some \<lparr> mf_path = path,
                      mf_bytes = (if io_meta_ok io then of_nat (length contents) else bytes_hint),
                      mf_sha256 = te_sha256 env contents, mf_gzipped = gzipped, mf_seq = seq \<rparr>
          else None
      | None \<Rightarrow> None)"

text \<open>\<^verbatim>\<open>rotate\<close>: the files after it, and the next handle with the entry of the closed file.\<close>

definition rotate_trace ::
  "'rx trace_env \<Rightarrow> trace_io \<Rightarrow> current_file \<Rightarrow> files \<Rightarrow> files \<times> (current_file \<times> manifest_file option) option" where
  "rotate_trace env io prev files =
     (let next_seq_n = sat_add (cf_seq prev) 1;
          (gz_path, files) = gzip_file env io (cf_path prev) files;
          (manifest_path, gzipped) = (case gz_path of Some p \<Rightarrow> (p, True) | None \<Rightarrow> (cf_path prev, False));
          closed = manifest_for_closed env io manifest_path (cf_seq prev) (cf_bytes_written prev) gzipped files
      in case open_seq io files next_seq_n of
           None \<Rightarrow> (files, None)
         | Some (next, files) \<Rightarrow> (files, Some (next, closed)))"

definition write_manifest ::
  "'rx trace_env \<Rightarrow> trace_io \<Rightarrow> string \<Rightarrow> u64 \<Rightarrow> manifest_file list \<Rightarrow> u8 list option \<Rightarrow> manifest option \<Rightarrow> manifest option" where
  "write_manifest env io session_id started files hmac_key on_disk =
     (let body = \<lparr> mn_session_id = session_id, mn_started_ts_ms = started, mn_written_ts_ms = io_unix io,
                    mn_files = files, mn_hmac = None \<rparr>;
          final = (case hmac_key of Some k \<Rightarrow> body\<lparr> mn_hmac := Some (te_hmac env k (te_canonical env body)) \<rparr> | None \<Rightarrow> body)
      in if io_manifest_ok io then Some final else on_disk)"

subsection \<open>The writer\<close>

datatype writer_phase = Starting | Selecting | Draining bool | FinalDrain | Finished | Aborted

record 'rx trace_writer =
  tw_session_id :: string
  tw_opts :: trace_options
  tw_redactor :: "'rx redactor option"
  tw_buffer_cap :: nat
  tw_buffer :: "trace_event list"
  tw_dropped :: u64
  tw_overflow_warnings :: "u64 list"
  tw_drop_window :: "u64 list"
  tw_drop_alarm_active :: bool
  tw_shutting_down :: bool
  tw_cmds :: nat
  tw_checked :: "trace_event list"
  tw_phase :: writer_phase
  tw_next_seq :: u64
  tw_started :: u64
  tw_current :: "current_file option"
  tw_manifest_files :: "manifest_file list"
  tw_files :: files
  tw_manifest :: "manifest option"

definition start_in_dir ::
  "'rx regex_lib \<Rightarrow> string \<Rightarrow> trace_options \<Rightarrow> files \<Rightarrow> manifest option \<Rightarrow> 'rx trace_writer" where
  "start_in_dir lib session_id opts files on_disk =
     \<lparr> tw_session_id = session_id, tw_opts = opts, tw_redactor = redactor_of lib opts,
       tw_buffer_cap = max (to_buffer_cap opts) 1, tw_buffer = [], tw_dropped = 0, tw_overflow_warnings = [],
       tw_drop_window = [], tw_drop_alarm_active = False, tw_shutting_down = False, tw_cmds = 0, tw_checked = [],
       tw_phase = Starting, tw_next_seq = scan_next_seq (map fst files), tw_started = 0, tw_current = None,
       tw_manifest_files = [], tw_files = files, tw_manifest = on_disk \<rparr>"

definition is_power_of_two :: "u64 \<Rightarrow> bool" where
  "is_power_of_two n \<longleftrightarrow> n \<noteq> 0 \<and> n AND (n - 1) = 0"

definition note_drop_for_alarm :: "u64 \<Rightarrow> 'rx trace_writer \<Rightarrow> 'rx trace_writer" where
  "note_drop_for_alarm now s =
     (let cutoff = sat_sub now DROP_ALARM_WINDOW_MS;
          w = dropWhile (\<lambda>front. front < cutoff) (tw_drop_window s) @ [now]
      in s\<lparr> tw_drop_window := w,
            tw_drop_alarm_active := tw_drop_alarm_active s \<or> length w \<ge> DROP_ALARM_THRESHOLD \<rparr>)"

text \<open>\<^verbatim>\<open>record\<close> up to the check of the shutdown flag, and from the lock of the buffer.\<close>

definition record_check :: "trace_event \<Rightarrow> 'rx trace_writer \<Rightarrow> 'rx trace_writer" where
  "record_check ev s =
     (if tw_shutting_down s then s\<lparr> tw_dropped := tw_dropped s + 1 \<rparr>
      else s\<lparr> tw_checked := tw_checked s @ [ev] \<rparr>)"

definition drop_oldest :: "u64 \<Rightarrow> 'rx trace_writer \<Rightarrow> 'rx trace_writer" where
  "drop_oldest now s =
     (let prev = tw_dropped s in
      note_drop_for_alarm now
        (s\<lparr> tw_buffer := tl (tw_buffer s), tw_dropped := prev + 1,
            tw_overflow_warnings :=
              (if prev = 0 \<or> is_power_of_two prev then tw_overflow_warnings s @ [prev + 1]
               else tw_overflow_warnings s) \<rparr>))"

definition record_push :: "u64 \<Rightarrow> trace_event \<Rightarrow> 'rx trace_writer \<Rightarrow> 'rx trace_writer" where
  "record_push now ev s =
     (let s = (if length (tw_buffer s) \<ge> tw_buffer_cap s then drop_oldest now s else s)
      in s\<lparr> tw_buffer := tw_buffer s @ [ev] \<rparr>)"

definition clear_alarm :: "'rx trace_writer \<Rightarrow> 'rx trace_writer" where
  "clear_alarm s = s\<lparr> tw_drop_alarm_active := False \<rparr>"

definition shutdown_request :: "'rx trace_writer \<Rightarrow> 'rx trace_writer" where
  "shutdown_request s =
     (if tw_shutting_down s then s else s\<lparr> tw_shutting_down := True, tw_cmds := tw_cmds s + 1 \<rparr>)"

text \<open>The registry of writers.\<close>

type_synonym 'rx trace_registry = "(string \<times> 'rx trace_writer) list"

definition traces_insert :: "'rx trace_writer \<Rightarrow> 'rx trace_registry \<Rightarrow> 'rx trace_registry" where
  "traces_insert w reg = AList.update (tw_session_id w) w reg"

definition traces_get :: "'rx trace_registry \<Rightarrow> string \<Rightarrow> 'rx trace_writer option" where
  "traces_get reg session_id = map_of reg session_id"

definition traces_remove :: "string \<Rightarrow> 'rx trace_registry \<Rightarrow> 'rx trace_registry" where
  "traces_remove session_id reg = AList.delete session_id reg"

text \<open>\<^verbatim>\<open>get_or_start_with_options\<close>; \<open>None\<close> is the error of \<^verbatim>\<open>start_with_options\<close>.\<close>

definition get_or_start ::
  "'rx regex_lib \<Rightarrow> bool \<Rightarrow> files \<Rightarrow> manifest option \<Rightarrow> string \<Rightarrow> trace_options \<Rightarrow> 'rx trace_registry \<Rightarrow>
   'rx trace_writer option \<times> 'rx trace_registry" where
  "get_or_start lib dir_ok files on_disk session_id opts reg =
     (case traces_get reg session_id of
        Some w \<Rightarrow> (Some w, reg)
      | None \<Rightarrow>
          if \<not> dir_ok then (None, reg)
          else let w = start_in_dir lib session_id opts files on_disk in (Some w, traces_insert w reg))"

subsection \<open>The writer task\<close>

definition save_manifest :: "'rx trace_env \<Rightarrow> trace_io \<Rightarrow> 'rx trace_writer \<Rightarrow> 'rx trace_writer" where
  "save_manifest env io s =
     s\<lparr> tw_manifest := write_manifest env io (tw_session_id s) (tw_started s) (tw_manifest_files s)
                         (to_hmac_key (tw_opts s)) (tw_manifest s) \<rparr>"

definition writer_open :: "'rx trace_env \<Rightarrow> trace_io \<Rightarrow> 'rx trace_writer \<Rightarrow> 'rx trace_writer" where
  "writer_open env io s =
     (case open_seq io (tw_files s) (tw_next_seq s) of
        None \<Rightarrow> s\<lparr> tw_phase := Aborted \<rparr>
      | Some (c, files) \<Rightarrow>
          save_manifest env io
            (s\<lparr> tw_current := Some c, tw_files := files, tw_started := io_unix io, tw_phase := Selecting \<rparr>))"

text \<open>The biased select: a command goes first; the timer makes the other branch always possible.\<close>

definition writer_select :: "'rx trace_writer \<Rightarrow> 'rx trace_writer" where
  "writer_select s =
     (if tw_cmds s > 0 then s\<lparr> tw_cmds := tw_cmds s - 1, tw_phase := Draining True \<rparr>
      else s\<lparr> tw_phase := Draining False \<rparr>)"

definition writer_rotate :: "'rx trace_env \<Rightarrow> trace_io \<Rightarrow> current_file \<Rightarrow> 'rx trace_writer \<Rightarrow> 'rx trace_writer" where
  "writer_rotate env io c s =
     (if \<not> should_rotate io c (tw_opts s) then s
      else
        case rotate_trace env io c (tw_files s) of
          (files, None) \<Rightarrow> s\<lparr> tw_files := files, tw_phase := Aborted \<rparr>
        | (files, Some (next, closed)) \<Rightarrow>
            (let s = s\<lparr> tw_files := files, tw_current := Some next \<rparr> in
             case closed of
               None \<Rightarrow> s
             | Some mf \<Rightarrow> save_manifest env io (s\<lparr> tw_manifest_files := tw_manifest_files s @ [mf] \<rparr>)))"

definition writer_write ::
  "'rx trace_env \<Rightarrow> trace_io \<Rightarrow> trace_event \<Rightarrow> current_file \<Rightarrow> 'rx trace_writer \<Rightarrow> u8 list \<times> 'rx trace_writer" where
  "writer_write env io ev c s =
     (case write_event env io (redact_for_write (te_lib env) (tw_redactor s) ev) c (tw_files s) of
        (bytes, c, files) \<Rightarrow> (bytes, s\<lparr> tw_current := Some c, tw_files := files \<rparr>))"

definition writer_finish :: "'rx trace_env \<Rightarrow> trace_io \<Rightarrow> current_file \<Rightarrow> 'rx trace_writer \<Rightarrow> 'rx trace_writer" where
  "writer_finish env io c s =
     save_manifest env io
       (s\<lparr> tw_phase := Finished,
           tw_manifest_files := tw_manifest_files s @
             (case manifest_for_closed env io (cf_path c) (cf_seq c) (cf_bytes_written c) False (tw_files s) of
                Some mf \<Rightarrow> [mf] | None \<Rightarrow> []) \<rparr>)"

datatype trace_label =
    Refused trace_event
  | Checked trace_event
  | Pushed trace_event
  | Popped trace_event "u8 list"
  | Internal

text \<open>One turn of the drain loops: a popped event is reported with the bytes it put into the file.\<close>

definition drain_turn ::
  "'rx trace_env \<Rightarrow> trace_io \<Rightarrow> bool \<Rightarrow> current_file \<Rightarrow> 'rx trace_writer \<Rightarrow> trace_label \<times> 'rx trace_writer" where
  "drain_turn env io shutdown c s =
     (case tw_buffer s of
        [] \<Rightarrow>
          (if shutdown then (Internal, s\<lparr> tw_phase := FinalDrain \<rparr>)
           else (Internal, writer_rotate env io c (s\<lparr> tw_phase := Selecting \<rparr>)))
      | ev # rest \<Rightarrow>
          (let s = writer_rotate env io c (s\<lparr> tw_buffer := rest \<rparr>) in
           case (tw_phase s, tw_current s) of
             (Draining _, Some c) \<Rightarrow> (let (bytes, s) = writer_write env io ev c s in (Popped ev bytes, s))
           | _ \<Rightarrow> (Popped ev [], s)))"

definition final_turn ::
  "'rx trace_env \<Rightarrow> trace_io \<Rightarrow> current_file \<Rightarrow> 'rx trace_writer \<Rightarrow> trace_label \<times> 'rx trace_writer" where
  "final_turn env io c s =
     (case tw_buffer s of
        [] \<Rightarrow> (Internal, writer_finish env io c s)
      | ev # rest \<Rightarrow> (let (bytes, s) = writer_write env io ev c (s\<lparr> tw_buffer := rest \<rparr>) in (Popped ev bytes, s)))"

text \<open>
  The rule \<open>closed\<close> is the end of the command channel, when the last handle of the writer is dropped.
\<close>

inductive trace_step :: "'rx trace_env \<Rightarrow> 'rx trace_writer \<Rightarrow> trace_label \<Rightarrow> 'rx trace_writer \<Rightarrow> bool"
  for env where
  refused: "tw_shutting_down s \<Longrightarrow> trace_step env s (Refused ev) (record_check ev s)"
| checked: "\<not> tw_shutting_down s \<Longrightarrow> trace_step env s (Checked ev) (record_check ev s)"
| pushed: "ev \<in> set (tw_checked s) \<Longrightarrow>
    trace_step env s (Pushed ev) (record_push now ev (s\<lparr> tw_checked := remove1 ev (tw_checked s) \<rparr>))"
| shutdown: "trace_step env s Internal (shutdown_request s)"
| cleared: "trace_step env s Internal (clear_alarm s)"
| start: "tw_phase s = Starting \<Longrightarrow> trace_step env s Internal (writer_open env io s)"
| selecting: "tw_phase s = Selecting \<Longrightarrow> trace_step env s Internal (writer_select s)"
| closed: "tw_phase s = Selecting \<Longrightarrow> trace_step env s Internal (s\<lparr> tw_phase := Draining True \<rparr>)"
| draining: "tw_phase s = Draining sd \<Longrightarrow> tw_current s = Some c \<Longrightarrow> drain_turn env io sd c s = (l, s') \<Longrightarrow>
    trace_step env s l s'"
| finishing: "tw_phase s = FinalDrain \<Longrightarrow> tw_current s = Some c \<Longrightarrow> final_turn env io c s = (l, s') \<Longrightarrow>
    trace_step env s l s'"

inductive trace_run :: "'rx trace_env \<Rightarrow> 'rx trace_writer \<Rightarrow> trace_label list \<Rightarrow> 'rx trace_writer \<Rightarrow> bool"
  for env s0 where
  run_nil: "trace_run env s0 [] s0"
| run_snoc: "trace_run env s0 ls s \<Longrightarrow> trace_step env s l s' \<Longrightarrow> trace_run env s0 (ls @ [l]) s'"

text \<open>What a run did, and what the files of a run hold.\<close>

fun refused_of :: "trace_label \<Rightarrow> trace_event list" where
  "refused_of (Refused ev) = [ev]" | "refused_of _ = []"

fun checked_of :: "trace_label \<Rightarrow> trace_event list" where
  "checked_of (Checked ev) = [ev]" | "checked_of _ = []"

fun pushed_of :: "trace_label \<Rightarrow> trace_event list" where
  "pushed_of (Pushed ev) = [ev]" | "pushed_of _ = []"

fun popped_of :: "trace_label \<Rightarrow> trace_event list" where
  "popped_of (Popped ev b) = [ev]" | "popped_of _ = []"

fun output_of :: "trace_label \<Rightarrow> u8 list" where
  "output_of (Popped ev b) = b" | "output_of _ = []"

definition seq_content :: "(u8 list \<Rightarrow> u8 list) \<Rightarrow> files \<Rightarrow> nat \<Rightarrow> u8 list" where
  "seq_content gunzip files n =
     (case map_of files (gz_name (jsonl_name (of_nat n))) of
        Some b \<Rightarrow> gunzip b | None \<Rightarrow> file_bytes files (jsonl_name (of_nat n)))"

definition run_content :: "(u8 list \<Rightarrow> u8 list) \<Rightarrow> u64 \<Rightarrow> 'rx trace_writer \<Rightarrow> u8 list" where
  "run_content gunzip first s =
     (case tw_current s of
        None \<Rightarrow> []
      | Some c \<Rightarrow> concat (map (seq_content gunzip (tw_files s)) [unat first..<Suc (unat (cf_seq c))]))"

subsection \<open>The registry\<close>

interpretation traces: keyed_store tw_session_id traces_insert traces_get length "keyed_by tw_session_id" traces_remove
  by unfold_locales
    (auto simp: traces_insert_def traces_get_def [abs_def] traces_remove_def update_conv' delete_conv' keyed_by_update
      keyed_by_delete keyed_by_length finite_dom_map_of fun_eq_iff)

lemma get_or_start_idem:
  "get_or_start lib ok files d sid opts reg = (Some w, reg') \<Longrightarrow>
   get_or_start lib' ok' files' d' sid opts' reg' = (Some w, reg')"
  by (auto simp: get_or_start_def traces_get_def traces_insert_def start_in_dir_def update_conv' Let_def
      split: option.splits if_splits)

subsection \<open>Names\<close>

lemma unat_seq: "n < 2 ^ 63 \<Longrightarrow> unat (of_nat n :: u64) = n"
  by (simp add: unsigned_of_nat take_bit_nat_eq_self_iff)

lemma parse_i64_pad4: "n < 2 ^ 63 \<Longrightarrow> parse_i64 (pad4 n) = Some (int n)"
  by (rule parse_i64_pad_dec)

lemma pad_dec_inj: "pad_dec w m = pad_dec w n \<longleftrightarrow> m = n"
  by (metis option.inject parse_pad_dec)

lemma jsonl_name_inj [simp]: "jsonl_name m = jsonl_name n \<longleftrightarrow> m = n"
  by (simp add: jsonl_name_def pad_dec_inj word_eq_iff_unsigned [where 'a = nat])

lemma gz_name_inj [simp]: "gz_name p = gz_name q \<longleftrightarrow> p = q"
  by (simp add: gz_name_def)

lemma gz_name_jsonl [simp]: "gz_name p \<noteq> jsonl_name n" "jsonl_name n \<noteq> gz_name p"
proof -
  have "last (gz_name p) \<noteq> last (jsonl_name n)" by (simp add: gz_name_def jsonl_name_def)
  then show "gz_name p \<noteq> jsonl_name n" "jsonl_name n \<noteq> gz_name p" by metis+
qed

subsection \<open>The next sequence number\<close>

lemma strip_suffix_append [simp]: "strip_suffix suf (s @ suf) = Some s"
  by (simp add: strip_suffix_def suffix_def)

lemma strip_gz_jsonl: "strip_suffix ''.jsonl.gz'' (jsonl_name n) = None"
proof -
  have "\<not> suffix ''.jsonl.gz'' (jsonl_name n)"
  proof
    assume "suffix ''.jsonl.gz'' (jsonl_name n)"
    then obtain p where "jsonl_name n = gz_name (p @ ''.jsonl'')" by (auto simp: suffix_def gz_name_def)
    then show False by simp
  qed
  then show ?thesis by (simp add: strip_suffix_def)
qed

lemma scan_entry_jsonl:
  assumes "unat n < 2 ^ 63" and "name = jsonl_name n \<or> name = gz_name (jsonl_name n)"
  shows "scan_entry name h = max h (int (unat n))"
proof -
  have "(case strip_suffix ''.jsonl.gz'' name of Some s \<Rightarrow> Some s | None \<Rightarrow> strip_suffix ''.jsonl'' name)
      = Some (pad4 (unat n))"
  proof (cases "name = jsonl_name n")
    case True
    then show ?thesis
      using strip_suffix_append [of "''.jsonl''" "pad4 (unat n)"] strip_gz_jsonl [of n] by (simp add: jsonl_name_def)
  next
    case False
    then have "name = pad4 (unat n) @ ''.jsonl.gz''" using assms(2) by (simp add: jsonl_name_def gz_name_def)
    then show ?thesis using strip_suffix_append [of "''.jsonl.gz''" "pad4 (unat n)"] by simp
  qed
  then show ?thesis using parse_i64_pad4 [OF assms(1)] by (simp add: scan_entry_def)
qed

lemma scan_entry_ge: "h \<le> scan_entry name h"
  by (simp add: scan_entry_def split: option.split)

lemma scan_fold_ge: "h \<le> fold scan_entry names h"
proof (induction names arbitrary: h)
  case (Cons name names)
  then show ?case using order_trans [OF scan_entry_ge [of h name]] by simp
qed simp

lemma scan_fold_bound:
  "h < 2 ^ 63 \<Longrightarrow> fold scan_entry names h < 2 ^ 63"
proof (induction names arbitrary: h)
  case (Cons name names)
  have "scan_entry name h < 2 ^ 63"
    using Cons.prems by (auto simp: scan_entry_def parse_i64_def split: option.splits list.splits if_splits)
  then show ?case using Cons.IH by simp
qed simp

lemma scan_fold_mem:
  assumes "name \<in> set names" and "unat n < 2 ^ 63" and "name = jsonl_name n \<or> name = gz_name (jsonl_name n)"
  shows "int (unat n) \<le> fold scan_entry names h"
  using assms(1)
proof (induction names arbitrary: h)
  case (Cons x names)
  show ?case
  proof (cases "x = name")
    case True
    then have "int (unat n) \<le> scan_entry x h" using scan_entry_jsonl [OF assms(2,3)] by simp
    then show ?thesis using order_trans scan_fold_ge by fastforce
  next
    case False
    with Cons show ?thesis by simp
  qed
qed simp

text \<open>The number the writer starts with is above every file of the directory.\<close>

lemma scan_next_seq_fresh:
  assumes "name \<in> set names" and "unat n < 2 ^ 63" and "name = jsonl_name n \<or> name = gz_name (jsonl_name n)"
  shows "n < scan_next_seq names"
proof -
  let ?h = "fold scan_entry names (- 1)"
  have le: "int (unat n) \<le> ?h" by (rule scan_fold_mem [OF assms])
  have lt: "?h < 2 ^ 63" by (rule scan_fold_bound) simp
  have nn: "0 \<le> ?h" using le of_nat_0_le_iff [of "unat n", where 'a = int] by linarith
  have h: "unat (word_of_int ?h :: u64) = nat ?h"
    using nn lt by (simp add: unat_eq_nat_uint uint_word_of_int take_bit_eq_mod)
  have "unat (sat_add (word_of_int ?h) 1 :: u64) = nat ?h + 1"
    using lt nn by (simp add: unat_sat_add h)
  moreover have "unat n \<le> nat ?h" using le by linarith
  ultimately show ?thesis
    using nn by (simp add: scan_next_seq_def Let_def word_less_nat_alt)
qed

definition fresh_from :: "files \<Rightarrow> nat \<Rightarrow> bool" where
  "fresh_from files k \<longleftrightarrow>
     (\<forall>n. k \<le> n \<and> n < 2 ^ 63 \<longrightarrow>
        map_of files (jsonl_name (of_nat n)) = None \<and> map_of files (gz_name (jsonl_name (of_nat n))) = None)"

lemma fresh_start: "fresh_from files (unat (scan_next_seq (map fst files)))"
proof -
  have "name \<notin> set (map fst files)"
    if "unat (scan_next_seq (map fst files)) \<le> n" "n < 2 ^ 63"
      "name = jsonl_name (of_nat n) \<or> name = gz_name (jsonl_name (of_nat n))" for n name
  proof
    assume mem: "name \<in> set (map fst files)"
    have n: "unat (of_nat n :: u64) = n" using that(2) by (simp add: unat_seq)
    from scan_next_seq_fresh [OF mem, of "of_nat n"] that n show False by (simp add: word_less_nat_alt)
  qed
  then show ?thesis unfolding fresh_from_def map_of_eq_None_iff set_map by blast
qed

subsection \<open>The queue\<close>

definition queue_part :: "'rx trace_writer \<Rightarrow> trace_event list \<times> u64 \<times> trace_event list \<times> nat" where
  "queue_part s = (tw_buffer s, tw_dropped s, tw_checked s, tw_buffer_cap s)"

lemma queue_save_manifest [simp]: "queue_part (save_manifest env io s) = queue_part s"
  by (simp add: save_manifest_def queue_part_def)

lemma queue_rotate [simp]: "queue_part (writer_rotate env io c s) = queue_part s"
proof (cases "should_rotate io c (tw_opts s)")
  case True
  obtain files o' where rot: "rotate_trace env io c (tw_files s) = (files, o')" by (cases "rotate_trace env io c (tw_files s)")
  show ?thesis
    using True rot
    by (auto simp: writer_rotate_def queue_part_def save_manifest_def Let_def split: option.split prod.split)
qed (simp add: writer_rotate_def)

lemma queue_open [simp]: "queue_part (writer_open env io s) = queue_part s"
  by (auto simp: writer_open_def queue_part_def save_manifest_def split: option.split prod.split)

lemma queue_select [simp]: "queue_part (writer_select s) = queue_part s"
  by (simp add: writer_select_def queue_part_def)

lemma queue_write: "writer_write env io ev c s = (b, s') \<Longrightarrow> queue_part s' = queue_part s"
  by (auto simp: writer_write_def queue_part_def split: prod.splits)

lemma queue_finish [simp]: "queue_part (writer_finish env io c s) = queue_part s"
  by (simp add: writer_finish_def queue_part_def save_manifest_def)

lemma queue_phase [simp]: "queue_part (s\<lparr> tw_phase := p \<rparr>) = queue_part s"
  by (simp add: queue_part_def)

text \<open>A turn of the writer task either leaves the queue alone or takes its first event.\<close>

lemma drain_turn_queue:
  assumes "drain_turn env io sd c s = (l, s')"
  shows "(l = Internal \<and> queue_part s' = queue_part s) \<or>
    (\<exists>ev rest b. l = Popped ev b \<and> tw_buffer s = ev # rest \<and> queue_part s' = queue_part (s\<lparr> tw_buffer := rest \<rparr>))"
proof (cases "tw_buffer s")
  case Nil
  then show ?thesis using assms by (auto simp: drain_turn_def split: if_splits)
next
  case (Cons ev rest)
  let ?r = "writer_rotate env io c (s\<lparr> tw_buffer := rest \<rparr>)"
  have r: "queue_part ?r = queue_part (s\<lparr> tw_buffer := rest \<rparr>)" by simp
  have "\<exists>b. l = Popped ev b \<and> queue_part s' = queue_part (s\<lparr> tw_buffer := rest \<rparr>)"
    using assms Cons r
    by (auto simp: drain_turn_def Let_def split: prod.splits option.splits writer_phase.splits dest!: queue_write)
  then show ?thesis using Cons by blast
qed

lemma final_turn_queue:
  assumes "final_turn env io c s = (l, s')"
  shows "(l = Internal \<and> queue_part s' = queue_part s) \<or>
    (\<exists>ev rest b. l = Popped ev b \<and> tw_buffer s = ev # rest \<and> queue_part s' = queue_part (s\<lparr> tw_buffer := rest \<rparr>))"
proof (cases "tw_buffer s")
  case Nil
  then show ?thesis using assms by (auto simp: final_turn_def)
next
  case (Cons ev rest)
  then show ?thesis
    using assms by (auto simp: final_turn_def Let_def split: prod.splits dest!: queue_write)
qed

definition labels_of :: "(trace_label \<Rightarrow> 'a list) \<Rightarrow> trace_label list \<Rightarrow> 'a list" where
  "labels_of f ls = concat (map f ls)"

lemma labels_of_snoc [simp]: "labels_of f (ls @ [l]) = labels_of f ls @ f l"
  by (simp add: labels_of_def)

lemma labels_of_Nil [simp]: "labels_of f [] = []"
  by (simp add: labels_of_def)

definition queue_inv :: "nat \<Rightarrow> trace_label list \<Rightarrow> 'rx trace_writer \<Rightarrow> bool" where
  "queue_inv cap ls s \<longleftrightarrow>
     tw_buffer_cap s = cap \<and> length (tw_buffer s) \<le> cap \<and>
     subseq (labels_of popped_of ls @ tw_buffer s) (labels_of pushed_of ls) \<and>
     mset (labels_of checked_of ls) = mset (labels_of pushed_of ls) + mset (tw_checked s) \<and>
     (\<exists>d. tw_dropped s = of_nat d \<and>
        length (labels_of pushed_of ls) + length (labels_of refused_of ls) =
        length (labels_of popped_of ls) + length (tw_buffer s) + d)"

lemma queue_inv_cong:
  "queue_part s = queue_part s' \<Longrightarrow> queue_inv cap ls s \<longleftrightarrow> queue_inv cap ls s'"
  by (simp add: queue_inv_def queue_part_def)

lemma queue_inv_internal: "queue_inv cap (ls @ [Internal]) s \<longleftrightarrow> queue_inv cap ls s"
  by (simp add: queue_inv_def)

lemma queue_inv_pop:
  assumes "queue_inv cap ls s" and "tw_buffer s = ev # rest"
  shows "queue_inv cap (ls @ [Popped ev b]) (s\<lparr> tw_buffer := rest \<rparr>)"
  using assms by (auto simp: queue_inv_def)

lemma queue_inv_check:
  assumes "queue_inv cap ls s"
  shows "queue_inv cap (ls @ [if tw_shutting_down s then Refused ev else Checked ev]) (record_check ev s)"
proof -
  obtain d where d: "tw_dropped s = of_nat d"
    "length (labels_of pushed_of ls) + length (labels_of refused_of ls) =
     length (labels_of popped_of ls) + length (tw_buffer s) + d"
    using assms by (auto simp: queue_inv_def)
  show ?thesis
  proof (cases "tw_shutting_down s")
    case True
    have "tw_dropped (record_check ev s) = of_nat (Suc d)" using True d(1) by (simp add: record_check_def add.commute)
    moreover have "tw_buffer (record_check ev s) = tw_buffer s" "tw_checked (record_check ev s) = tw_checked s"
      "tw_buffer_cap (record_check ev s) = tw_buffer_cap s" using True by (simp_all add: record_check_def)
    ultimately show ?thesis
      using assms d(2) True unfolding queue_inv_def by (auto intro!: exI [of _ "Suc d"] simp del: of_nat_Suc)
  next
    case False
    then show ?thesis using assms by (simp add: queue_inv_def record_check_def)
  qed
qed

lemma queue_inv_drop:
  assumes "queue_inv cap ls s" and "tw_buffer s \<noteq> []"
  shows "queue_inv cap ls (drop_oldest now s)"
proof -
  obtain x rest where b: "tw_buffer s = x # rest" using assms(2) by (cases "tw_buffer s") auto
  obtain d where d: "tw_dropped s = of_nat d"
    "length (labels_of pushed_of ls) + length (labels_of refused_of ls) =
     length (labels_of popped_of ls) + length (tw_buffer s) + d"
    using assms by (auto simp: queue_inv_def)
  have fields: "tw_buffer (drop_oldest now s) = rest" "tw_dropped (drop_oldest now s) = of_nat (Suc d)"
    "tw_checked (drop_oldest now s) = tw_checked s" "tw_buffer_cap (drop_oldest now s) = tw_buffer_cap s"
    using b d(1) by (simp_all add: drop_oldest_def note_drop_for_alarm_def Let_def add.commute)
  have "subseq (labels_of popped_of ls @ rest) (labels_of popped_of ls @ tw_buffer s)"
    unfolding b by (intro list_emb_append_mono) (auto simp: list_emb_Cons)
  then have "subseq (labels_of popped_of ls @ rest) (labels_of pushed_of ls)"
    using assms(1) subseq_order.order_trans by (auto simp: queue_inv_def)
  then show ?thesis
    using assms(1) d(2) b unfolding queue_inv_def fields by (auto intro!: exI [of _ "Suc d"] simp del: of_nat_Suc)
qed

lemma queue_inv_push:
  assumes "queue_inv cap ls s" and "0 < cap" and "ev \<in> set (tw_checked s)"
  shows "queue_inv cap (ls @ [Pushed ev]) (record_push now ev (s\<lparr> tw_checked := remove1 ev (tw_checked s) \<rparr>))"
proof -
  let ?s = "if length (tw_buffer s) \<ge> tw_buffer_cap s then drop_oldest now s else s"
  have inv: "queue_inv cap ls ?s"
  proof (cases "length (tw_buffer s) \<ge> tw_buffer_cap s")
    case True
    then have "tw_buffer s \<noteq> []" using assms(1,2) by (auto simp: queue_inv_def)
    then show ?thesis using True queue_inv_drop [OF assms(1)] by simp
  qed (simp add: assms(1))
  have room: "length (tw_buffer ?s) < cap"
    using assms(1,2) by (auto simp: queue_inv_def drop_oldest_def note_drop_for_alarm_def Let_def)
  have chk: "tw_checked ?s = tw_checked s" by (simp add: drop_oldest_def note_drop_for_alarm_def Let_def)
  have q: "queue_part (record_push now ev (s\<lparr> tw_checked := remove1 ev (tw_checked s) \<rparr>)) =
      queue_part (?s\<lparr> tw_buffer := tw_buffer ?s @ [ev], tw_checked := remove1 ev (tw_checked s) \<rparr>)"
    by (simp add: record_push_def queue_part_def drop_oldest_def note_drop_for_alarm_def Let_def)
  have "mset (tw_checked s) = add_mset ev (mset (remove1 ev (tw_checked s)))" using assms(3) by simp
  moreover have "subseq ((labels_of popped_of ls @ tw_buffer ?s) @ [ev]) (labels_of pushed_of ls @ [ev])"
    using inv unfolding queue_inv_def by (intro list_emb_append_mono subseq_order.order_refl) blast
  ultimately have "queue_inv cap (ls @ [Pushed ev])
      (?s\<lparr> tw_buffer := tw_buffer ?s @ [ev], tw_checked := remove1 ev (tw_checked s) \<rparr>)"
    using inv room unfolding queue_inv_def chk by (simp only: labels_of_snoc append_assoc trace_writer.simps
        trace_writer.update_convs popped_of.simps pushed_of.simps checked_of.simps refused_of.simps append_Nil2
        length_append list.size mset_append mset.simps union_mset_add_mset_right) auto
  then show ?thesis by (simp only: queue_inv_cong [OF q])
qed

lemma step_queue:
  assumes "trace_step env s l s'" and "queue_inv cap ls s" and "0 < cap"
  shows "queue_inv cap (ls @ [l]) s'"
proof -
  have same: "queue_inv cap (ls @ [Internal]) t" if "queue_part t = queue_part s" for t
    using assms(2) by (simp only: queue_inv_internal queue_inv_cong [OF that])
  have turn: "queue_inv cap (ls @ [k]) t"
    if "(k = Internal \<and> queue_part t = queue_part s) \<or>
      (\<exists>ev rest b. k = Popped ev b \<and> tw_buffer s = ev # rest \<and> queue_part t = queue_part (s\<lparr> tw_buffer := rest \<rparr>))" for k t
    using that
  proof (elim disjE exE conjE)
    fix ev rest b
    assume k: "k = Popped ev b" and buf: "tw_buffer s = ev # rest"
      and t: "queue_part t = queue_part (s\<lparr> tw_buffer := rest \<rparr>)"
    show "queue_inv cap (ls @ [k]) t"
      using queue_inv_pop [OF assms(2) buf, of b] by (simp only: k queue_inv_cong [OF t])
  next
    assume "k = Internal" "queue_part t = queue_part s"
    then show "queue_inv cap (ls @ [k]) t" using same by simp
  qed
  from assms(1) show ?thesis
  proof cases
    case (refused ev)
    then show ?thesis using queue_inv_check [OF assms(2), of ev] by simp
  next
    case (checked ev)
    then show ?thesis using queue_inv_check [OF assms(2), of ev] by simp
  next
    case (pushed ev now)
    then show ?thesis using queue_inv_push [OF assms(2,3)] by simp
  next
    case (draining sd c io)
    then show ?thesis using turn [OF drain_turn_queue] by blast
  next
    case (finishing c io)
    then show ?thesis using turn [OF final_turn_queue] by blast
  next
    case shutdown
    then show ?thesis by (simp add: same shutdown_request_def queue_part_def)
  next
    case cleared
    then show ?thesis by (simp add: same clear_alarm_def queue_part_def)
  next
    case (start io)
    then show ?thesis by (simp add: same)
  next
    case selecting
    then show ?thesis by (simp add: same)
  next
    case closed
    then show ?thesis by (simp add: same)
  qed
qed

subsection \<open>The files of a run\<close>

lemma file_bytes_update: "file_bytes (AList.update p b files) q = (if p = q then b else file_bytes files q)"
  by (simp add: file_bytes_def update_conv')

lemma seq_content_other:
  assumes "map_of files' (jsonl_name (of_nat n)) = map_of files (jsonl_name (of_nat n))"
    and "map_of files' (gz_name (jsonl_name (of_nat n))) = map_of files (gz_name (jsonl_name (of_nat n)))"
  shows "seq_content gunzip files' n = seq_content gunzip files n"
  using assms by (simp add: seq_content_def file_bytes_def split: option.split)

lemma contents_cong:
  assumes "\<And>n. n < k \<Longrightarrow> seq_content gunzip files' n = seq_content gunzip files n"
  shows "concat (map (seq_content gunzip files') [a..<k]) = concat (map (seq_content gunzip files) [a..<k])"
  using assms by (intro arg_cong [where f = concat] map_cong) auto

text \<open>The handle \<open>c\<close> is the last file of a run that started at \<open>first\<close>; \<open>outs\<close> is what the files hold.\<close>

definition run_files :: "(u8 list \<Rightarrow> u8 list) \<Rightarrow> u64 \<Rightarrow> current_file \<Rightarrow> files \<Rightarrow> u8 list \<Rightarrow> bool" where
  "run_files gunzip first c files outs \<longleftrightarrow>
     first \<le> cf_seq c \<and> cf_path c = jsonl_name (cf_seq c) \<and> fresh_from files (Suc (unat (cf_seq c))) \<and>
     concat (map (seq_content gunzip files) [unat first..<Suc (unat (cf_seq c))]) = outs"

definition live_file :: "current_file \<Rightarrow> files \<Rightarrow> bool" where
  "live_file c files \<longleftrightarrow> map_of files (gz_name (cf_path c)) = None"

lemma of_nat_seq_neq: "n < unat (q :: u64) \<Longrightarrow> of_nat n \<noteq> q"
proof
  assume "n < unat q" and "of_nat n = q"
  then have "unat q = take_bit 64 n" using unsigned_of_nat [of n, where 'a = nat and 'b = 64] by simp
  then have "unat q \<le> n" by (simp only: take_bit_nat_less_eq_self)
  with \<open>n < unat q\<close> show False by simp
qed

lemma run_files_snoc:
  assumes "first \<le> cf_seq c"
  shows "concat (map (seq_content gunzip files) [unat first..<Suc (unat (cf_seq c))]) =
    concat (map (seq_content gunzip files) [unat first..<unat (cf_seq c)]) @ seq_content gunzip files (unat (cf_seq c))"
  using assms by (simp add: word_le_nat_alt)

lemma run_files_append:
  assumes rf: "run_files gunzip first c files outs" and live: "live_file c files"
    and c': "cf_seq c' = cf_seq c" "cf_path c' = cf_path c"
  shows "run_files gunzip first c' (AList.update (cf_path c) (file_bytes files (cf_path c) @ b) files) (outs @ b)"
    and "live_file c' (AList.update (cf_path c) (file_bytes files (cf_path c) @ b) files)"
proof -
  let ?files = "AList.update (cf_path c) (file_bytes files (cf_path c) @ b) files"
  have path: "cf_path c = jsonl_name (cf_seq c)" and first: "first \<le> cf_seq c"
    using rf by (simp_all add: run_files_def)
  have old: "seq_content gunzip ?files n = seq_content gunzip files n" if "n < unat (cf_seq c)" for n
    using of_nat_seq_neq [OF that] by (intro seq_content_other) (simp_all add: update_conv' path)
  have "seq_content gunzip ?files (unat (cf_seq c)) = seq_content gunzip files (unat (cf_seq c)) @ b"
    using live by (simp add: seq_content_def live_file_def path update_conv' file_bytes_update)
  then have "concat (map (seq_content gunzip ?files) [unat first..<Suc (unat (cf_seq c))]) = outs @ b"
    using rf contents_cong [of "unat (cf_seq c)", OF old, of "unat first"]
    unfolding run_files_def run_files_snoc [OF first] by simp
  moreover have "fresh_from ?files (Suc (unat (cf_seq c)))"
  proof -
    have "of_nat n \<noteq> cf_seq c" if "Suc (unat (cf_seq c)) \<le> n" "n < 2 ^ 63" for n
      using that unat_seq [OF that(2)] by auto
    then show ?thesis using rf by (simp add: run_files_def fresh_from_def update_conv' path)
  qed
  ultimately show "run_files gunzip first c' ?files (outs @ b)"
    using rf c' by (simp add: run_files_def)
  show "live_file c' ?files" using live c' by (simp add: live_file_def update_conv' path)
qed

lemma write_event_files:
  assumes "write_event env io ev c files = (b, c', files')" and "run_files gunzip first c files outs" and "live_file c files"
  shows "run_files gunzip first c' files' (outs @ b) \<and> live_file c' files' \<and> cf_seq c' = cf_seq c"
proof -
  have "(b = [] \<and> c' = c \<and> files' = files) \<or>
      (cf_seq c' = cf_seq c \<and> cf_path c' = cf_path c \<and>
       files' = AList.update (cf_path c) (file_bytes files (cf_path c) @ b) files)"
    using assms(1) by (auto simp: write_event_def Let_def split: option.splits write_outcome.splits)
  then show ?thesis
    using assms(2,3) run_files_append [OF assms(2,3)] by (elim disjE) simp_all
qed

lemma gzip_files:
  assumes rf: "run_files gunzip first c files outs" and live: "live_file c files"
    and inverse: "\<And>b. gunzip (te_gzip env b) = b" and gz: "gzip_file env io (cf_path c) files = (p, files')"
  shows "run_files gunzip first c files' outs"
proof (cases "files' = files")
  case False
  have path: "cf_path c = jsonl_name (cf_seq c)" and first: "first \<le> cf_seq c"
    using rf by (simp_all add: run_files_def)
  obtain b where b: "map_of files (cf_path c) = Some b"
    and f: "map_of files' = (map_of files)(gz_name (cf_path c) \<mapsto> te_gzip env b) \<or>
      map_of files' = (map_of files)(gz_name (cf_path c) \<mapsto> te_gzip env b, cf_path c := None)"
    using gz False by (auto simp: gzip_file_def Let_def update_conv' delete_conv' split: gzip_outcome.splits option.splits)
  have old: "seq_content gunzip files' n = seq_content gunzip files n" if "n < unat (cf_seq c)" for n
    using of_nat_seq_neq [OF that] f by (intro seq_content_other) (auto simp: path)
  have "seq_content gunzip files' (unat (cf_seq c)) = seq_content gunzip files (unat (cf_seq c))"
    using f b live by (auto simp: seq_content_def live_file_def path inverse file_bytes_def)
  then have "concat (map (seq_content gunzip files') [unat first..<Suc (unat (cf_seq c))]) = outs"
    using rf contents_cong [of "unat (cf_seq c)", OF old, of "unat first"]
    unfolding run_files_def run_files_snoc [OF first] by simp
  moreover have "fresh_from files' (Suc (unat (cf_seq c)))"
  proof -
    have "of_nat n \<noteq> cf_seq c" if "Suc (unat (cf_seq c)) \<le> n" "n < 2 ^ 63" for n
      using that unat_seq [OF that(2)] by auto
    then show ?thesis using rf f by (auto simp: run_files_def fresh_from_def path)
  qed
  ultimately show ?thesis using rf by (simp add: run_files_def)
qed (use rf in simp)

lemma open_files:
  assumes op: "open_seq io files q = Some (c, files')" and fresh: "fresh_from files (unat q)" and q: "unat q < 2 ^ 63"
  shows "cf_seq c = q" and "cf_path c = jsonl_name q" and "fresh_from files' (Suc (unat q))" and "live_file c files'"
    and "seq_content gunzip files' (unat q) = []"
    and "\<And>n. n < unat q \<Longrightarrow> seq_content gunzip files' n = seq_content gunzip files n"
proof -
  have none: "map_of files (jsonl_name q) = None" "map_of files (gz_name (jsonl_name q)) = None"
    using fresh q by (auto simp: fresh_from_def dest!: spec [of _ "unat q"])
  have c: "cf_seq c = q" "cf_path c = jsonl_name q" and f: "files' = AList.update (jsonl_name q) [] files"
    using op none by (auto simp: open_seq_def Let_def file_bytes_def split: if_splits)
  show "cf_seq c = q" "cf_path c = jsonl_name q" by (rule c)+
  show "live_file c files'" using none by (simp add: live_file_def c f update_conv')
  show "seq_content gunzip files' (unat q) = []"
    using none by (simp add: seq_content_def f update_conv' file_bytes_update)
  show "seq_content gunzip files' n = seq_content gunzip files n" if "n < unat q" for n
    using of_nat_seq_neq [OF that] by (intro seq_content_other) (simp_all add: f update_conv')
  have "of_nat n \<noteq> q" if "Suc (unat q) \<le> n" "n < 2 ^ 63" for n
    using that unat_seq [OF that(2)] by auto
  then show "fresh_from files' (Suc (unat q))" using fresh by (simp add: fresh_from_def f update_conv')
qed

lemma rotate_files:
  assumes rf: "run_files gunzip first c files outs" and live: "live_file c files"
    and inverse: "\<And>b. gunzip (te_gzip env b) = b" and bound: "Suc (unat (cf_seq c)) < 2 ^ 63"
    and rot: "rotate_trace env io c files = (files', res)"
  shows "case res of
      None \<Rightarrow> run_files gunzip first c files' outs
    | Some (c', mf) \<Rightarrow> run_files gunzip first c' files' outs \<and> live_file c' files' \<and>
        unat (cf_seq c') = Suc (unat (cf_seq c))"
proof -
  obtain p files1 where gz: "gzip_file env io (cf_path c) files = (p, files1)" by force
  have rf1: "run_files gunzip first c files1 outs" by (rule gzip_files [OF rf live inverse gz])
  have succ: "unat (sat_add (cf_seq c) 1) = Suc (unat (cf_seq c))" using bound by (simp add: unat_sat_add)
  show ?thesis
  proof (cases "open_seq io files1 (sat_add (cf_seq c) 1)")
    case None
    then show ?thesis using rot gz rf1 by (auto simp: rotate_trace_def Let_def split: prod.splits option.splits)
  next
    case (Some cf)
    obtain c' files2 where cf: "cf = (c', files2)" by force
    have fresh: "fresh_from files1 (unat (sat_add (cf_seq c) 1))" using rf1 succ by (simp add: run_files_def)
    note op = open_files [OF Some [unfolded cf] fresh, unfolded succ, OF bound]
    have first: "first \<le> cf_seq c'" using rf1 op(1) succ by (simp add: run_files_def word_le_nat_alt)
    have "concat (map (seq_content gunzip files2) [unat first..<Suc (unat (cf_seq c))]) = outs"
      using rf1 contents_cong [of "Suc (unat (cf_seq c))", OF op(6), of gunzip "unat first"]
      unfolding run_files_def by (simp del: upt_Suc)
    then have "run_files gunzip first c' files2 outs"
      using first op(1,2,3,5) succ unfolding run_files_def run_files_snoc [OF first] by simp
    then show ?thesis
      using rot gz Some cf op succ by (auto simp: rotate_trace_def Let_def split: prod.splits option.splits)
  qed
qed

subsection \<open>Runs of the writer\<close>

lemma writer_rotate_files:
  assumes "run_files gunzip first c (tw_files s) outs" and "live_file c (tw_files s)" and "tw_current s = Some c"
    and "\<And>b. gunzip (te_gzip env b) = b" and "Suc (unat (cf_seq c)) < 2 ^ 63"
  shows "\<exists>c'. tw_current (writer_rotate env io c s) = Some c' \<and>
    run_files gunzip first c' (tw_files (writer_rotate env io c s)) outs \<and>
    unat (cf_seq c') \<le> Suc (unat (cf_seq c)) \<and>
    (tw_phase (writer_rotate env io c s) = tw_phase s \<and> live_file c' (tw_files (writer_rotate env io c s)) \<or>
     tw_phase (writer_rotate env io c s) = Aborted)"
proof (cases "should_rotate io c (tw_opts s)")
  case True
  obtain files' res where rot: "rotate_trace env io c (tw_files s) = (files', res)" by force
  note files = rotate_files [OF assms(1,2,4,5) rot]
  show ?thesis
  proof (cases res)
    case None
    then show ?thesis using True rot files assms(3) by (simp add: writer_rotate_def)
  next
    case (Some cm)
    then show ?thesis
      using True rot files by (cases cm) (auto simp: writer_rotate_def Let_def save_manifest_def split: option.split)
  qed
qed (use assms in \<open>auto simp: writer_rotate_def\<close>)

lemma writer_write_files:
  assumes "writer_write env io ev c s = (b, s')" and "run_files gunzip first c (tw_files s) outs" and "live_file c (tw_files s)"
  shows "tw_phase s' = tw_phase s \<and> (\<exists>c'. tw_current s' = Some c' \<and> cf_seq c' = cf_seq c \<and>
    run_files gunzip first c' (tw_files s') (outs @ b) \<and> live_file c' (tw_files s'))"
  using assms(1) by (auto simp: writer_write_def split: prod.splits dest!: write_event_files [OF _ assms(2,3)])

definition disk_inv :: "(u8 list \<Rightarrow> u8 list) \<Rightarrow> u64 \<Rightarrow> nat \<Rightarrow> u8 list \<Rightarrow> 'rx trace_writer \<Rightarrow> bool" where
  "disk_inv gunzip first n outs s \<longleftrightarrow>
     (case tw_current s of
        None \<Rightarrow> outs = [] \<and> tw_phase s \<in> {Starting, Aborted} \<and> tw_next_seq s = first \<and>
          fresh_from (tw_files s) (unat first)
      | Some c \<Rightarrow> run_files gunzip first c (tw_files s) outs \<and> tw_phase s \<noteq> Starting \<and>
          (tw_phase s \<noteq> Aborted \<longrightarrow> live_file c (tw_files s)) \<and> unat (cf_seq c) \<le> unat first + n)"

lemma disk_inv_frame:
  assumes "disk_inv gunzip first n outs s" and "tw_files t = tw_files s" and "tw_current t = tw_current s"
    and "tw_next_seq t = tw_next_seq s"
    and "tw_phase t = tw_phase s \<or> tw_current s \<noteq> None \<and> tw_phase s \<notin> {Starting, Aborted} \<and> tw_phase t \<noteq> Starting"
  shows "disk_inv gunzip first (Suc n) outs t"
  using assms by (auto simp: disk_inv_def split: option.splits)

lemma drain_turn_disk:
  assumes inv: "disk_inv gunzip first n outs s" and bound: "Suc (unat first + n) < 2 ^ 63"
    and inverse: "\<And>b. gunzip (te_gzip env b) = b"
    and s: "tw_phase s = Draining sd" "tw_current s = Some c" and turn: "drain_turn env io sd c s = (l, s')"
  shows "disk_inv gunzip first (Suc n) (outs @ output_of l) s'"
proof -
  have rf: "run_files gunzip first c (tw_files s) outs" and live: "live_file c (tw_files s)"
    and le: "unat (cf_seq c) \<le> unat first + n"
    using inv s by (simp_all add: disk_inv_def)
  have seq: "Suc (unat (cf_seq c)) < 2 ^ 63" using le bound by simp
  show ?thesis
  proof (cases "tw_buffer s")
    case Nil
    note rot = writer_rotate_files [of gunzip first c "s\<lparr> tw_phase := Selecting \<rparr>" outs env io]
    show ?thesis
      using turn Nil rf live le s rot inverse seq
      by (auto simp: drain_turn_def disk_inv_def split: if_splits)
  next
    case (Cons ev rest)
    let ?r = "writer_rotate env io c (s\<lparr> tw_buffer := rest \<rparr>)"
    obtain c' where r: "tw_current ?r = Some c'" "run_files gunzip first c' (tw_files ?r) outs"
      "unat (cf_seq c') \<le> Suc (unat (cf_seq c))"
      "tw_phase ?r = Draining sd \<and> live_file c' (tw_files ?r) \<or> tw_phase ?r = Aborted"
      using writer_rotate_files [of gunzip first c "s\<lparr> tw_buffer := rest \<rparr>" outs env io] rf live s inverse seq by auto
    show ?thesis
    proof (cases "tw_phase ?r = Aborted")
      case True
      then have "l = Popped ev []" "s' = ?r" using turn Cons r(1) by (auto simp: drain_turn_def Let_def)
      then show ?thesis using r True le by (simp add: disk_inv_def)
    next
      case False
      then have ph: "tw_phase ?r = Draining sd" "live_file c' (tw_files ?r)" using r(4) by simp_all
      obtain b where w: "writer_write env io ev c' ?r = (b, s')" and l: "l = Popped ev b"
        using turn Cons r(1) ph by (auto simp: drain_turn_def Let_def split: prod.splits)
      then show ?thesis
        using writer_write_files [OF w r(2) ph(2)] ph r(3) le by (auto simp: disk_inv_def)
    qed
  qed
qed

lemma final_turn_disk:
  assumes inv: "disk_inv gunzip first n outs s" and s: "tw_phase s = FinalDrain" "tw_current s = Some c"
    and turn: "final_turn env io c s = (l, s')"
  shows "disk_inv gunzip first (Suc n) (outs @ output_of l) s'"
proof -
  have rf: "run_files gunzip first c (tw_files s) outs" and live: "live_file c (tw_files s)"
    and le: "unat (cf_seq c) \<le> unat first + n"
    using inv s by (simp_all add: disk_inv_def)
  show ?thesis
  proof (cases "tw_buffer s")
    case Nil
    then show ?thesis
      using turn rf live le s by (auto simp: final_turn_def writer_finish_def save_manifest_def disk_inv_def)
  next
    case (Cons ev rest)
    obtain b where w: "writer_write env io ev c (s\<lparr> tw_buffer := rest \<rparr>) = (b, s')" and l: "l = Popped ev b"
      using turn Cons by (auto simp: final_turn_def Let_def split: prod.splits)
    then show ?thesis
      using writer_write_files [OF w, of gunzip first outs] rf live le s by (auto simp: disk_inv_def)
  qed
qed

lemma writer_open_disk:
  assumes "disk_inv gunzip first n outs s" and "tw_phase s = Starting" and "unat first < 2 ^ 63"
  shows "disk_inv gunzip first (Suc n) outs (writer_open env io s)"
proof -
  have s: "tw_current s = None" "outs = []" "tw_next_seq s = first" "fresh_from (tw_files s) (unat first)"
    using assms(1,2) by (auto simp: disk_inv_def split: option.splits)
  show ?thesis
  proof (cases "open_seq io (tw_files s) first")
    case None
    then show ?thesis using s by (simp add: writer_open_def disk_inv_def)
  next
    case (Some cf)
    then show ?thesis
      using s open_files [OF _ s(4) assms(3), of io "fst cf" "snd cf"]
      by (cases cf) (simp add: writer_open_def save_manifest_def disk_inv_def run_files_def)
  qed
qed

lemma step_disk:
  assumes "trace_step env s l s'" and inv: "disk_inv gunzip first n outs s" and bound: "Suc (unat first + n) < 2 ^ 63"
    and inverse: "\<And>b. gunzip (te_gzip env b) = b"
  shows "disk_inv gunzip first (Suc n) (outs @ output_of l) s'"
proof -
  note defs = record_check_def record_push_def drop_oldest_def note_drop_for_alarm_def shutdown_request_def
    clear_alarm_def writer_select_def Let_def
  have cur: "tw_phase s = Selecting \<Longrightarrow> tw_current s \<noteq> None" using inv by (auto simp: disk_inv_def split: option.splits)
  from assms(1) show ?thesis
  proof cases
    case (draining sd c io)
    then show ?thesis by (rule drain_turn_disk [OF inv bound inverse])
  next
    case (finishing c io)
    then show ?thesis by (rule final_turn_disk [OF inv])
  next
    case (start io)
    then show ?thesis using writer_open_disk [OF inv] bound by simp
  qed (use cur in \<open>auto simp: defs intro!: disk_inv_frame [OF inv]\<close>)
qed

lemma run_queue:
  assumes "trace_run env s0 ls s" and "queue_inv cap [] s0" and "0 < cap"
  shows "queue_inv cap ls s"
  using assms(1)
proof (induction rule: trace_run.induct)
  case run_nil
  then show ?case using assms(2) by simp
next
  case (run_snoc ls s l s')
  then show ?case using step_queue assms(3) by blast
qed

lemma run_disk:
  assumes "trace_run env s0 ls s" and "disk_inv gunzip first 0 [] s0" and "unat first + length ls < 2 ^ 63"
    and inverse: "\<And>b. gunzip (te_gzip env b) = b"
  shows "disk_inv gunzip first (length ls) (labels_of output_of ls) s"
  using assms(1,3)
proof (induction rule: trace_run.induct)
  case run_nil
  then show ?case using assms(2) by simp
next
  case (run_snoc ls s l s')
  then show ?case
    using step_disk [OF run_snoc.hyps(2), of gunzip first "length ls"] inverse by simp
qed

subsection \<open>The manifest of a run\<close>

definition man_inv :: "u64 \<Rightarrow> nat \<Rightarrow> manifest option \<Rightarrow> 'rx trace_writer \<Rightarrow> bool" where
  "man_inv first n on_disk s \<longleftrightarrow>
     (case tw_current s of
        None \<Rightarrow> tw_manifest_files s = [] \<and> tw_next_seq s = first
      | Some c \<Rightarrow> first \<le> cf_seq c \<and> unat (cf_seq c) \<le> unat first + n \<and> tw_phase s \<noteq> Starting \<and>
          sorted_wrt (<) (map mf_seq (tw_manifest_files s)) \<and>
          (\<forall>f \<in> set (tw_manifest_files s). first \<le> mf_seq f \<and>
             (mf_seq f < cf_seq c \<or> tw_phase s = Finished \<and> mf_seq f = cf_seq c))) \<and>
     (tw_manifest s = on_disk \<or>
      (\<exists>m. tw_manifest s = Some m \<and> prefix (mn_files m) (tw_manifest_files s)))"

lemma man_inv_frame:
  assumes "man_inv first n on_disk s" and "tw_current t = tw_current s" and "tw_next_seq t = tw_next_seq s"
    and "tw_manifest_files t = tw_manifest_files s" and "tw_manifest t = tw_manifest s"
    and "tw_phase t = tw_phase s \<or> tw_current s \<noteq> None \<and> tw_phase s \<notin> {Starting, Finished} \<and> tw_phase t \<noteq> Starting"
  shows "man_inv first (Suc n) on_disk t"
  using assms by (auto simp: man_inv_def split: option.splits)

lemma man_inv_buffer [simp]: "man_inv first n on_disk (s\<lparr> tw_buffer := rest \<rparr>) \<longleftrightarrow> man_inv first n on_disk s"
  by (simp add: man_inv_def split: option.split)

lemma save_manifest_inv:
  assumes "man_inv first n on_disk s"
  shows "man_inv first n on_disk (save_manifest env io s)"
  using assms unfolding man_inv_def
  by (auto simp: save_manifest_def write_manifest_def Let_def split: option.splits)

lemma rotate_result:
  assumes "rotate_trace env io c files = (files', Some (c', closed))"
  shows "cf_seq c' = sat_add (cf_seq c) 1" and "closed = Some f \<Longrightarrow> mf_seq f = cf_seq c"
  using assms
  by (auto simp: rotate_trace_def Let_def open_seq_def manifest_for_closed_def split: prod.splits option.splits if_splits)

lemma writer_rotate_man:
  assumes inv: "man_inv first n on_disk s" and cur: "tw_current s = Some c" and ph: "tw_phase s \<noteq> Finished"
    and bound: "Suc (unat first + n) < 2 ^ 63"
  shows "man_inv first (Suc n) on_disk (writer_rotate env io c s) \<and>
    tw_phase (writer_rotate env io c s) \<in> {tw_phase s, Aborted}"
proof (cases "should_rotate io c (tw_opts s)")
  case False
  then show ?thesis using man_inv_frame [OF inv, of s] by (simp add: writer_rotate_def)
next
  case True
  have c: "first \<le> cf_seq c" "unat (cf_seq c) \<le> unat first + n" "tw_phase s \<noteq> Starting"
    "sorted_wrt (<) (map mf_seq (tw_manifest_files s))"
    "\<And>f. f \<in> set (tw_manifest_files s) \<Longrightarrow> first \<le> mf_seq f \<and> mf_seq f < cf_seq c"
    using inv cur ph by (auto simp: man_inv_def)
  have m: "tw_manifest s = on_disk \<or> (\<exists>m. tw_manifest s = Some m \<and> prefix (mn_files m) (tw_manifest_files s))"
    using inv by (simp add: man_inv_def)
  obtain files' res where rot: "rotate_trace env io c (tw_files s) = (files', res)" by force
  show ?thesis
  proof (cases res)
    case None
    then show ?thesis using True rot inv cur ph c(3) by (auto simp: writer_rotate_def man_inv_def)
  next
    case (Some cm)
    obtain c' closed where cm: "cm = (c', closed)" by force
    note res = rotate_result [OF rot [unfolded Some cm]]
    have u: "unat (cf_seq c') = Suc (unat (cf_seq c))" using c(2) bound by (simp add: res(1) unat_sat_add)
    then have lt: "cf_seq c < cf_seq c'" by (simp add: word_less_nat_alt)
    then have first: "first \<le> cf_seq c'" using c(1) by simp
    have below: "first \<le> mf_seq f \<and> mf_seq f < cf_seq c'" if "f \<in> set (tw_manifest_files s)" for f
      using c(5) [OF that] order_less_trans [OF _ lt] by blast
    show ?thesis
    proof (cases closed)
      case None
      then show ?thesis
        using True rot Some cm c first below u m by (auto simp: writer_rotate_def Let_def man_inv_def)
    next
      case (Some f)
      let ?t = "s\<lparr> tw_files := files', tw_current := Some c', tw_manifest_files := tw_manifest_files s @ [f] \<rparr>"
      have "man_inv first (Suc n) on_disk ?t"
        using c first below u m lt res(2) [OF Some] by (auto simp: man_inv_def sorted_wrt_append)
      from save_manifest_inv [OF this, of env io] have "man_inv first (Suc n) on_disk (save_manifest env io ?t)" .
      moreover have "writer_rotate env io c s = save_manifest env io ?t"
        using True rot \<open>res = Some cm\<close> cm Some by (simp add: writer_rotate_def Let_def)
      ultimately show ?thesis by (simp add: save_manifest_def)
    qed
  qed
qed

lemma writer_write_man:
  assumes "writer_write env io ev c s = (b, s')" and "tw_current s = Some c" and "man_inv first n on_disk s"
  shows "man_inv first n on_disk s' \<and> tw_phase s' = tw_phase s"
proof -
  obtain c' files' where w: "write_event env io (redact_for_write (te_lib env) (tw_redactor s) ev) c (tw_files s) = (b, c', files')"
    and s': "s' = s\<lparr> tw_current := Some c', tw_files := files' \<rparr>"
    using assms(1) by (auto simp: writer_write_def split: prod.splits)
  have "cf_seq c' = cf_seq c"
    using w by (auto simp: write_event_def Let_def split: option.splits write_outcome.splits)
  then show ?thesis using assms(2,3) by (simp add: s' man_inv_def)
qed

lemma man_inv_Suc: "man_inv first n on_disk s \<Longrightarrow> man_inv first (Suc n) on_disk s"
  by (rule man_inv_frame [of first n on_disk s s]) simp_all

lemma drain_turn_man:
  assumes inv: "man_inv first n on_disk s" and bound: "Suc (unat first + n) < 2 ^ 63"
    and s: "tw_phase s = Draining sd" "tw_current s = Some c" and turn: "drain_turn env io sd c s = (l, s')"
  shows "man_inv first (Suc n) on_disk s'"
proof (cases "tw_buffer s")
  case Nil
  have "man_inv first n on_disk (s\<lparr> tw_phase := Selecting \<rparr>)" using inv s by (simp add: man_inv_def)
  from writer_rotate_man [OF this _ _ bound, of c env io]
  have "man_inv first (Suc n) on_disk (writer_rotate env io c (s\<lparr> tw_phase := Selecting \<rparr>))" using s by simp
  moreover have "man_inv first (Suc n) on_disk (s\<lparr> tw_phase := FinalDrain \<rparr>)"
    using s by (intro man_inv_frame [OF inv]) auto
  ultimately show ?thesis using turn Nil by (auto simp: drain_turn_def split: if_splits)
next
  case (Cons ev rest)
  let ?r = "writer_rotate env io c (s\<lparr> tw_buffer := rest \<rparr>)"
  have "man_inv first n on_disk (s\<lparr> tw_buffer := rest \<rparr>)" using inv by simp
  from writer_rotate_man [OF this _ _ bound, of c env io]
  have r: "man_inv first (Suc n) on_disk ?r" using s by simp
  have "s' = ?r \<or> (\<exists>c' b. tw_current ?r = Some c' \<and> writer_write env io ev c' ?r = (b, s'))"
    using turn Cons by (auto simp: drain_turn_def Let_def split: prod.splits option.splits writer_phase.splits)
  then show ?thesis using r writer_write_man [OF _ _ r] by blast
qed

lemma final_turn_man:
  assumes inv: "man_inv first n on_disk s"
    and s: "tw_phase s = FinalDrain" "tw_current s = Some c" and turn: "final_turn env io c s = (l, s')"
  shows "man_inv first (Suc n) on_disk s'"
proof (cases "tw_buffer s")
  case Nil
  let ?t = "s\<lparr> tw_phase := Finished, tw_manifest_files := tw_manifest_files s @
    (case manifest_for_closed env io (cf_path c) (cf_seq c) (cf_bytes_written c) False (tw_files s) of
       Some mf \<Rightarrow> [mf] | None \<Rightarrow> []) \<rparr>"
  have "mf_seq mf = cf_seq c"
    if "manifest_for_closed env io (cf_path c) (cf_seq c) (cf_bytes_written c) False (tw_files s) = Some mf" for mf
    using that by (auto simp: manifest_for_closed_def split: option.splits if_splits)
  then have "man_inv first n on_disk ?t"
    using inv s by (auto simp: man_inv_def sorted_wrt_append split: option.split)
  then show ?thesis
    using turn Nil save_manifest_inv man_inv_Suc by (fastforce simp: final_turn_def writer_finish_def)
next
  case (Cons ev rest)
  have "man_inv first n on_disk (s\<lparr> tw_buffer := rest \<rparr>)" using inv by simp
  moreover obtain b where "writer_write env io ev c (s\<lparr> tw_buffer := rest \<rparr>) = (b, s')"
    using turn Cons by (auto simp: final_turn_def Let_def split: prod.splits)
  ultimately show ?thesis using s writer_write_man man_inv_Suc by fastforce
qed

lemma writer_open_man:
  assumes "man_inv first n on_disk s" and "tw_phase s = Starting"
  shows "man_inv first (Suc n) on_disk (writer_open env io s)"
proof -
  have s: "tw_current s = None" "tw_manifest_files s = []" "tw_next_seq s = first"
    using assms by (auto simp: man_inv_def split: option.splits)
  show ?thesis
  proof (cases "open_seq io (tw_files s) first")
    case None
    then show ?thesis using s assms(1) by (simp add: writer_open_def man_inv_def)
  next
    case (Some cf)
    obtain c files where cf: "cf = (c, files)" by force
    have "cf_seq c = first" using Some cf by (auto simp: open_seq_def Let_def split: if_splits)
    then have "man_inv first (Suc n) on_disk
        (s\<lparr> tw_current := Some c, tw_files := files, tw_started := io_unix io, tw_phase := Selecting \<rparr>)"
      using s assms(1) by (simp add: man_inv_def)
    then show ?thesis using Some cf s save_manifest_inv by (simp add: writer_open_def)
  qed
qed

lemma step_man:
  assumes "trace_step env s l s'" and inv: "man_inv first n on_disk s" and bound: "Suc (unat first + n) < 2 ^ 63"
    and cur: "tw_phase s = Selecting \<Longrightarrow> tw_current s \<noteq> None"
  shows "man_inv first (Suc n) on_disk s'"
proof -
  note defs = record_check_def record_push_def drop_oldest_def note_drop_for_alarm_def shutdown_request_def
    clear_alarm_def writer_select_def Let_def
  from assms(1) show ?thesis
  proof cases
    case (draining sd c io)
    then show ?thesis by (rule drain_turn_man [OF inv bound])
  next
    case (finishing c io)
    then show ?thesis by (rule final_turn_man [OF inv])
  next
    case (start io)
    then show ?thesis using writer_open_man [OF inv] by simp
  qed (use cur in \<open>auto simp: defs intro!: man_inv_frame [OF inv]\<close>)
qed

lemma run_man:
  assumes "trace_run env s0 ls s" and "man_inv first 0 on_disk s0" and "unat first + length ls < 2 ^ 63"
    and "tw_phase s0 = Starting"
  shows "man_inv first (length ls) on_disk s \<and> (tw_phase s \<notin> {Starting, Aborted} \<longrightarrow> tw_current s \<noteq> None)"
  using assms(1,3)
proof (induction rule: trace_run.induct)
  case run_nil
  then show ?case using assms(2,4) by simp
next
  case (run_snoc ls s l s')
  then have IH: "man_inv first (length ls) on_disk s"
    "tw_phase s \<notin> {Starting, Aborted} \<longrightarrow> tw_current s \<noteq> None" by simp_all
  have "tw_phase s' \<notin> {Starting, Aborted} \<longrightarrow> tw_current s' \<noteq> None"
    using run_snoc.hyps(2)
  proof cases
    case (start io)
    then show ?thesis by (auto simp: writer_open_def save_manifest_def split: option.splits prod.splits)
  next
    case (draining sd c io)
    have rot: "tw_current (writer_rotate env io c t) \<noteq> None" if "tw_current t = Some c" for t
      using that by (auto simp: writer_rotate_def save_manifest_def Let_def split: prod.splits option.splits)
    have "tw_current s' \<noteq> None"
      using draining rot [of "s\<lparr> tw_phase := Selecting \<rparr>"] rot [of "s\<lparr> tw_buffer := tl (tw_buffer s) \<rparr>"]
      by (cases "tw_buffer s")
        (auto simp: drain_turn_def writer_write_def Let_def split: if_splits prod.splits option.splits writer_phase.splits)
    then show ?thesis by simp
  next
    case (finishing c io)
    then show ?thesis
      by (auto simp: final_turn_def writer_finish_def save_manifest_def writer_write_def Let_def split: list.splits prod.splits)
  qed (use IH in \<open>auto simp: record_check_def record_push_def drop_oldest_def note_drop_for_alarm_def
      shutdown_request_def clear_alarm_def writer_select_def Let_def\<close>)
  moreover have "man_inv first (Suc (length ls)) on_disk s'"
    using run_snoc.hyps(2) IH run_snoc.prems by (intro step_man [OF run_snoc.hyps(2) IH(1)]) auto
  ultimately show ?case by simp
qed

subsection \<open>Redaction does not depend on secrets\<close>

text \<open>Two values that differ only below keys of the denylist.\<close>

inductive public_eq :: "(string \<Rightarrow> bool) \<Rightarrow> json \<Rightarrow> json \<Rightarrow> bool" for deny where
  same: "public_eq deny v v"
| array: "list_all2 (public_eq deny) xs ys \<Longrightarrow> public_eq deny (JArray xs) (JArray ys)"
| object: "list_all2 (\<lambda>p q. fst p = fst q \<and> (deny (fst p) \<or> public_eq deny (snd p) (snd q))) m n \<Longrightarrow>
    public_eq deny (JObject m) (JObject n)"

inductive event_public_eq :: "(string \<Rightarrow> bool) \<Rightarrow> trace_event \<Rightarrow> trace_event \<Rightarrow> bool" for deny where
  "event_public_eq deny ev ev"
| "public_eq deny p q \<Longrightarrow> event_public_eq deny (CdpRequest ts sid t i mth p) (CdpRequest ts sid t i mth q)"
| "rel_option (public_eq deny) r r' \<Longrightarrow> rel_option (public_eq deny) e e' \<Longrightarrow>
    event_public_eq deny (CdpResponse ts sid t i r e) (CdpResponse ts sid t i r' e')"
| "public_eq deny p q \<Longrightarrow> event_public_eq deny (CdpEvent ts sid t mth p) (CdpEvent ts sid t mth q)"
| "public_eq deny a a' \<Longrightarrow> public_eq deny r r' \<Longrightarrow>
    event_public_eq deny (Action ts sid tab tool a r) (Action ts sid tab tool a' r')"

lemma redact_value_public:
  "public_eq (is_denylisted_key r) v w \<Longrightarrow> redact_value lib r v = redact_value lib r w"
proof (induction rule: public_eq.induct)
  case (array xs ys)
  then have "map (redact_value lib r) xs = map (redact_value lib r) ys"
    by (auto simp: list_all2_conv_all_nth intro: nth_equalityI)
  then show ?case by simp
next
  case (object m n)
  then have "map (\<lambda>p. (fst p, if is_denylisted_key r (fst p) then JString REDACTED else redact_value lib r (snd p))) m =
      map (\<lambda>p. (fst p, if is_denylisted_key r (fst p) then JString REDACTED else redact_value lib r (snd p))) n"
    by (auto simp: list_all2_conv_all_nth intro!: nth_equalityI)
  then show ?case by simp
qed simp

lemma redact_event_public:
  "event_public_eq (is_denylisted_key r) ev ev' \<Longrightarrow> redact_event lib r ev = redact_event lib r ev'"
  by (induction rule: event_public_eq.induct)
    (auto simp: redact_value_public option_rel_Some1 elim!: option.rel_cases)

subsection \<open>Properties\<close>

lemma start_inv:
  shows "queue_inv (max (to_buffer_cap opts) 1) [] (start_in_dir lib sid opts files on_disk)"
    and "disk_inv gunzip (scan_next_seq (map fst files)) 0 [] (start_in_dir lib sid opts files on_disk)"
    and "man_inv (scan_next_seq (map fst files)) 0 on_disk (start_in_dir lib sid opts files on_disk)"
  by (simp_all add: queue_inv_def disk_inv_def man_inv_def start_in_dir_def fresh_start)

text \<open>
  C22. Accounting of a trace, for every interleaving of recording threads, shutdown and writer and every
  outcome of the file operations. Events leave the buffer in the order they entered it; every event that
  entered it or was refused after the shutdown has left through the writer, is still in the buffer, or is
  counted in the drop counter; an event that passed the check of the shutdown flag has entered the buffer or
  is about to; the buffer never exceeds its capacity; and the files of the run, read in the order of their
  numbers (compressed ones through the decompressor), hold exactly the bytes the writer put out, in order.
\<close>

theorem trace_accounting:
  assumes "trace_run env (start_in_dir (te_lib env) sid opts files on_disk) ls s"
    and "unat (scan_next_seq (map fst files)) + length ls < 2 ^ 63"
    and "\<And>b. gunzip (te_gzip env b) = b"
  shows "subseq (labels_of popped_of ls @ tw_buffer s) (labels_of pushed_of ls) \<and>
    tw_dropped s = of_nat (length (labels_of pushed_of ls) + length (labels_of refused_of ls)
                           - (length (labels_of popped_of ls) + length (tw_buffer s))) \<and>
    mset (labels_of checked_of ls) = mset (labels_of pushed_of ls) + mset (tw_checked s) \<and>
    length (tw_buffer s) \<le> max (to_buffer_cap opts) 1 \<and>
    run_content gunzip (scan_next_seq (map fst files)) s = labels_of output_of ls"
proof -
  note q = run_queue [OF assms(1) start_inv(1)]
  note d = run_disk [OF assms(1) start_inv(2) assms(2,3)]
  have "run_content gunzip (scan_next_seq (map fst files)) s = labels_of output_of ls"
    using d by (auto simp: disk_inv_def run_content_def run_files_def split: option.splits simp del: upt_Suc)
  moreover have "queue_inv (max (to_buffer_cap opts) 1) ls s" using q by simp
  ultimately show ?thesis by (auto simp: queue_inv_def)
qed

text \<open>
  A sample run in a directory that already holds a file: one event is recorded and written, and the file,
  whose size limit is one byte, is rotated.
\<close>

definition sample_lib :: "string regex_lib" where
  "sample_lib = \<lparr> rl_new = Some, rl_set_ok = (\<lambda>_. True), rl_set_match = (\<lambda>_ _. False), rl_replace_all = (\<lambda>_ s _. s) \<rparr>"

definition sample_env :: "string trace_env" where
  "sample_env =
     \<lparr> te_lib = sample_lib, te_to_vec = (\<lambda>_. Some [123, 125]), te_gzip = (\<lambda>b. 31 # b), te_sha256 = (\<lambda>_. ''00''),
       te_canonical = (\<lambda>_. []), te_hmac = (\<lambda>_ _. []) \<rparr>"

definition sample_io :: trace_io where
  "sample_io =
     \<lparr> io_now = 0, io_unix = 0, io_open_ok = True, io_meta_ok = True, io_read_ok = True, io_manifest_ok = True,
       io_gzip = GzipDone True, io_write = WriteOk \<rparr>"

definition sample_opts :: trace_options where
  "sample_opts = \<lparr> to_max_bytes = 1, to_max_age_ms = 1, to_buffer_cap = 2, to_redact_patterns = [], to_hmac_key = None \<rparr>"

definition sample_event :: trace_event where
  "sample_event = Screenshot 0 ''s'' ''t'' ''page.click'' ''screenshots/a.png''"

definition sample_start :: "string trace_writer" where
  "sample_start = start_in_dir sample_lib ''s'' sample_opts [(''0000.jsonl'', [1])] None"

definition sample_pushed :: "string trace_writer" where
  "sample_pushed =
     (let s = record_check sample_event (writer_open sample_env sample_io sample_start)
      in writer_select (record_push 0 sample_event (s\<lparr> tw_checked := remove1 sample_event (tw_checked s) \<rparr>)))"

definition sample_current :: "string trace_writer \<Rightarrow> current_file" where
  "sample_current s = (case tw_current s of Some c \<Rightarrow> c | None \<Rightarrow> \<lparr> cf_path = [], cf_bytes_written = 0, cf_opened_at = 0, cf_seq = 0 \<rparr>)"

definition sample_written :: "string trace_writer" where
  "sample_written = snd (drain_turn sample_env sample_io False (sample_current sample_pushed) sample_pushed)"

definition sample_rotated :: "string trace_writer" where
  "sample_rotated = snd (drain_turn sample_env sample_io False (sample_current sample_written) sample_written)"

lemma sample_turn:
  assumes "tw_phase s = Draining False \<and> tw_current s \<noteq> None \<and>
      fst (drain_turn sample_env sample_io False (sample_current s) s) = l"
    and "t = snd (drain_turn sample_env sample_io False (sample_current s) s)"
  shows "trace_step sample_env s l t"
  using assms by (intro trace_step.draining [of s False "sample_current s"]) (auto simp: sample_current_def prod_eq_iff)

lemma sample_run:
  "trace_run sample_env (start_in_dir (te_lib sample_env) ''s'' sample_opts [(''0000.jsonl'', [1])] None)
     [Internal, Checked sample_event, Pushed sample_event, Internal, Popped sample_event [123, 125, 10], Internal]
     sample_rotated"
proof -
  let ?s0 = "start_in_dir (te_lib sample_env) ''s'' sample_opts [(''0000.jsonl'', [1])] None"
  let ?s1 = "writer_open sample_env sample_io ?s0"
  let ?s2 = "record_check sample_event ?s1"
  let ?s3 = "record_push 0 sample_event (?s2\<lparr> tw_checked := remove1 sample_event (tw_checked ?s2) \<rparr>)"
  have s0: "?s0 = sample_start" by (simp add: sample_start_def sample_env_def)
  have "trace_run sample_env ?s0 ([] @ [Internal]) ?s1"
    by (rule trace_run.run_snoc [OF trace_run.run_nil trace_step.start]) (simp add: start_in_dir_def)
  then have "trace_run sample_env ?s0 (([] @ [Internal]) @ [Checked sample_event]) ?s2"
    by (rule trace_run.run_snoc) (rule trace_step.checked, unfold s0, code_simp)
  then have "trace_run sample_env ?s0 ((([] @ [Internal]) @ [Checked sample_event]) @ [Pushed sample_event]) ?s3"
    by (rule trace_run.run_snoc) (rule trace_step.pushed, unfold s0, code_simp)
  then have "trace_run sample_env ?s0 (((([] @ [Internal]) @ [Checked sample_event]) @ [Pushed sample_event]) @ [Internal])
      (writer_select ?s3)"
    by (rule trace_run.run_snoc) (rule trace_step.selecting, unfold s0, code_simp)
  moreover have "writer_select ?s3 = sample_pushed" unfolding sample_pushed_def s0 Let_def ..
  ultimately have run: "trace_run sample_env ?s0 (((([] @ [Internal]) @ [Checked sample_event]) @ [Pushed sample_event]) @ [Internal])
      sample_pushed" by (simp only:)
  have wrote: "trace_step sample_env sample_pushed (Popped sample_event [123, 125, 10]) sample_written"
    by (rule sample_turn) (code_simp, simp add: sample_written_def)
  have rotated: "trace_step sample_env sample_written Internal sample_rotated"
    by (rule sample_turn) (code_simp, simp add: sample_rotated_def)
  show ?thesis using trace_run.run_snoc [OF trace_run.run_snoc [OF run wrote] rotated] by (simp only: append_Nil append_Cons)
qed

text \<open>Witness: the sample run; the event is in the compressed file with number one.\<close>

theorem trace_accounting_witness:
  "run_content tl 1 sample_rotated = [123, 125, 10] \<and> tw_dropped sample_rotated = 0 \<and> tw_buffer sample_rotated = []"
proof -
  have "scan_next_seq (map fst [(''0000.jsonl'', [1 :: u8])]) = 1" by code_simp
  moreover have "tl (te_gzip sample_env b) = b" for b by (simp add: sample_env_def)
  moreover have "tw_buffer sample_rotated = []" by code_simp
  ultimately show ?thesis
    using trace_accounting [OF sample_run, of tl] by (simp add: labels_of_def)
qed


text \<open>Witness: two requests with different cookies, with and without a pattern.\<close>

definition cookie_event :: "string \<Rightarrow> trace_event" where
  "cookie_event v = CdpRequest 0 ''s'' None 1 ''Network.setExtraHTTPHeaders'' (JObject [(''Cookie'', JString v)])"




end
