(* ===== verification/Page_Snapshot.thy ===== *)
theory Page_Snapshot
  imports Json "HOL-Library.Sublist"
begin

text \<open>
  Snapshots of a page (\<^verbatim>\<open>browser-engine/src/snapshot.rs\<close>) with the mutation log in the page
  (\<^verbatim>\<open>ax-engine/src/mutation.rs\<close>): the log the injected script keeps, its drain, the elements built from
  the accessibility tree, full snapshots and deltas, and the anchor that ties the two together. What the
  browser answers to each protocol call of a snapshot is a field of \<open>snap_io\<close>. The sequence numbers of the
  page and of its script are natural numbers: the counters are incremented only.
\<close>

subsection \<open>The log in the page\<close>

record mutation_record =
  mu_seq :: nat
  mu_kind :: string
  mu_tag :: string
  mu_cb :: string

record js_log =
  jl_seq :: nat
  jl_log :: "mutation_record list"

definition MAX_LOG :: nat where "MAX_LOG = 4096"

definition js_bootstrap :: js_log where
  "js_bootstrap = \<lparr> jl_seq = 0, jl_log = [] \<rparr>"

text \<open>\<^verbatim>\<open>record\<close>: one mutation is logged, and the oldest entries above the limit are cut off.\<close>

type_synonym mutation = "string \<times> string \<times> string"

definition js_record :: "mutation \<Rightarrow> js_log \<Rightarrow> js_log" where
  "js_record m j =
     (let seq = jl_seq j + 1;
          log = jl_log j @ [\<lparr> mu_seq = seq, mu_kind = fst m, mu_tag = fst (snd m), mu_cb = snd (snd m) \<rparr>]
      in \<lparr> jl_seq = seq,
           jl_log = (if length log > MAX_LOG then drop (length log - MAX_LOG) log else log) \<rparr>)"

definition js_drain :: "js_log \<Rightarrow> mutation_record list \<times> js_log" where
  "js_drain j = (jl_log j, j\<lparr> jl_log := [] \<rparr>)"

text \<open>
  \<^verbatim>\<open>drain_log\<close>: the call is answered with the records, is answered without a value (which counts as an empty
  log), fails, or is answered with something that is not a list of records. The flag says whether the script
  emptied the log all the same.
\<close>

datatype drain_answer = Drained | NoValue bool | TransportError bool | Unparsable

datatype mutation_error = Transport | ParseError

definition drain_log :: "drain_answer \<Rightarrow> js_log \<Rightarrow> (mutation_error + mutation_record list) \<times> js_log" where
  "drain_log ans j =
     (case ans of
        Drained \<Rightarrow> (case js_drain j of (out, j) \<Rightarrow> (Inr out, j))
      | NoValue executed \<Rightarrow> (Inr [], if executed then snd (js_drain j) else j)
      | TransportError executed \<Rightarrow> (Inl Transport, if executed then snd (js_drain j) else j)
      | Unparsable \<Rightarrow> (Inl ParseError, snd (js_drain j)))"

subsection \<open>Elements\<close>

record elem_bbox =
  bb_x :: f64
  bb_y :: f64
  bb_w :: f64
  bb_h :: f64

record elem_state =
  es_checked :: "bool option"
  es_expanded :: "bool option"
  es_pressed :: "bool option"
  es_selected :: "bool option"
  es_disabled :: bool

record element =
  el_index :: nat
  el_ref :: string
  el_role :: string
  el_name :: string
  el_value :: "string option"
  el_description :: "string option"
  el_state :: elem_state
  el_bbox :: elem_bbox
  el_interactable :: bool
  el_frame_id :: string
  el_stable_id :: string

definition element_ref :: "nat \<Rightarrow> string" where "element_ref i = ''e'' @ nat_to_dec i"

definition or_else :: "'a option \<Rightarrow> 'a option \<Rightarrow> 'a option" where
  "or_else a b = (case a of Some x \<Rightarrow> Some x | None \<Rightarrow> b)"

definition ax_string :: "json \<Rightarrow> string \<Rightarrow> string option" where
  "ax_string node key =
     or_else (Option.bind (jget key node) (get_str ''value'')) (get_str key node)"

definition ax_bool :: "json \<Rightarrow> string \<Rightarrow> bool option" where
  "ax_bool node key =
     or_else (Option.bind (jget key node) (get_bool ''value'')) (get_bool key node)"

definition or_default :: "'a \<Rightarrow> 'a option \<Rightarrow> 'a" where
  "or_default d v = (case v of Some x \<Rightarrow> x | None \<Rightarrow> d)"

definition f64_gt_zero :: "f64 \<Rightarrow> bool" where
  "f64_gt_zero b \<longleftrightarrow> \<not> f64_is_nan b \<and> \<not> f64_le_zero b"

definition bbox_from_dom :: "json \<Rightarrow> elem_bbox option" where
  "bbox_from_dom node =
     (case jget ''boundingBox'' node of
        None \<Rightarrow> None
      | Some bb \<Rightarrow>
          let get = (\<lambda>k. or_default 0 (Option.bind (jget k bb) as_f64)); w = get ''width''; h = get ''height''
          in if f64_gt_zero w \<or> f64_gt_zero h
             then Some \<lparr> bb_x = get ''x'', bb_y = get ''y'', bb_w = w, bb_h = h \<rparr> else None)"

definition UNIT_SEP :: char where "UNIT_SEP = CHR 0x1F"

definition stable_id_hash :: "(string \<Rightarrow> string) \<Rightarrow> string \<Rightarrow> string \<Rightarrow> string \<Rightarrow> nat \<Rightarrow> string" where
  "stable_id_hash sha role name parent_role sibling_idx =
     sha (role @ [UNIT_SEP] @ name @ [UNIT_SEP] @ parent_role @ [UNIT_SEP] @ nat_to_dec sibling_idx)"

definition remix_stable_id_with_frame :: "(string \<Rightarrow> string) \<Rightarrow> string \<Rightarrow> string \<Rightarrow> string" where
  "remix_stable_id_with_frame sha i frame_id = sha (i @ [UNIT_SEP] @ frame_id)"

definition parent_role_of :: "json list \<Rightarrow> json \<Rightarrow> string" where
  "parent_role_of nodes node =
     or_default [] (Option.bind
       (Option.bind (get_str ''parentId'' node) (\<lambda>pid. find (\<lambda>n. get_str ''nodeId'' n = Some pid) nodes))
       (\<lambda>p. ax_string p ''role''))"

definition INTERACTABLE_ROLES :: "string list" where
  "INTERACTABLE_ROLES =
     [''button'', ''link'', ''textbox'', ''checkbox'', ''combobox'', ''menuitem'', ''tab'', ''switch'', ''slider'',
      ''searchbox'', ''spinbutton'']"

definition element_of :: "(string \<Rightarrow> string) \<Rightarrow> json list \<Rightarrow> nat \<Rightarrow> nat \<Rightarrow> json \<Rightarrow> element" where
  "element_of sha nodes i sibling_idx node =
     (let role = or_default [] (ax_string node ''role'');
          name = or_default [] (ax_string node ''name'');
          parent_role = parent_role_of nodes node;
          bbox = or_default \<lparr> bb_x = 0, bb_y = 0, bb_w = 0, bb_h = 0 \<rparr> (bbox_from_dom node);
          state = \<lparr> es_checked = ax_bool node ''checked'', es_expanded = ax_bool node ''expanded'',
                    es_pressed = ax_bool node ''pressed'', es_selected = ax_bool node ''selected'',
                    es_disabled = or_default False (ax_bool node ''disabled'') \<rparr>
      in \<lparr> el_index = i, el_ref = element_ref i, el_role = role, el_name = name,
           el_value = ax_string node ''value'', el_description = ax_string node ''description'',
           el_state = state, el_bbox = bbox,
           el_interactable = role \<in> set INTERACTABLE_ROLES \<and> \<not> es_disabled state \<and>
             f64_gt_zero (bb_w bbox) \<and> f64_gt_zero (bb_h bbox),
           el_frame_id = or_default [] (ax_string node ''frameId''),
           el_stable_id = stable_id_hash sha role name parent_role sibling_idx \<rparr>)"

text \<open>The loop over the nodes, with the counter of siblings per role and role of the parent.\<close>

fun build_elements ::
  "(string \<Rightarrow> string) \<Rightarrow> json list \<Rightarrow> nat \<Rightarrow> ((string \<times> string) \<times> nat) list \<Rightarrow> json list \<Rightarrow> element list" where
  "build_elements sha nodes i counter [] = []"
| "build_elements sha nodes i counter (node # rest) =
     (let key = (or_default [] (ax_string node ''role''), parent_role_of nodes node);
          sibling_idx = or_default 0 (map_of counter key)
      in element_of sha nodes i sibling_idx node
         # build_elements sha nodes (i + 1) (AList.update key (sibling_idx + 1) counter) rest)"

definition snapshot_parts :: "(string \<Rightarrow> string) \<Rightarrow> json \<Rightarrow> element list" where
  "snapshot_parts sha nodes_val =
     (let nodes = or_default [] (as_array nodes_val) in build_elements sha nodes 0 [] nodes)"

definition child_frame_targets :: "string \<Rightarrow> json \<Rightarrow> string list" where
  "child_frame_targets page_target res =
     List.map_filter
       (\<lambda>info.
          if get_str ''type'' info \<noteq> Some ''iframe'' then None
          else if get_str ''parentId'' info \<noteq> Some page_target then None
          else if get_str ''parentFrameId'' info = None then None
          else get_str ''targetId'' info)
       (or_default [] (Option.bind (jget ''targetInfos'' res) as_array))"

text \<open>\<^verbatim>\<open>snapshot_child_frame\<close>; \<open>None\<close> is a frame that could not be attached or read.\<close>

definition snapshot_child_frame :: "(string \<Rightarrow> string) \<Rightarrow> string \<Rightarrow> json option \<Rightarrow> element list option" where
  "snapshot_child_frame sha target_id ax =
     map_option (\<lambda>nodes_val.
       map (\<lambda>e. let e = (if el_frame_id e = [] then e\<lparr> el_frame_id := target_id \<rparr> else e)
                 in e\<lparr> el_stable_id := remix_stable_id_with_frame sha (el_stable_id e) (el_frame_id e) \<rparr>)
         (snapshot_parts sha nodes_val)) ax"

definition splice_snapshot_elements :: "element list \<Rightarrow> element list \<Rightarrow> element list" where
  "splice_snapshot_elements parent child =
     parent @ map (\<lambda>(i, e). e\<lparr> el_index := length parent + i, el_ref := element_ref (length parent + i) \<rparr>)
                (enumerate 0 child)"

subsection \<open>The page and its snapshots\<close>

record delta_anchor =
  da_snapshot_seq :: nat
  da_high_water :: nat

record mutation_metrics =
  mm_drain_failures :: u64
  mm_drain_overflows :: u64
  mm_anchor_invalidations :: u64

record page_state =
  ps_target_id :: string
  ps_js :: js_log
  ps_seq :: nat
  ps_anchor :: "delta_anchor option"
  ps_url :: string
  ps_title :: string
  ps_console :: "json list"
  ps_exceptions :: "json list"
  ps_in_flight :: "string list"
  ps_completed :: u64
  ps_failed :: u64
  ps_metrics :: mutation_metrics

record snapshot =
  sn_seq :: nat
  sn_base_seq :: nat
  sn_partial :: bool
  sn_anchor_stale :: bool
  sn_url :: string
  sn_title :: string
  sn_elements :: "element list"
  sn_tree :: json
  sn_console :: "json list"
  sn_exceptions :: "json list"
  sn_network :: "nat \<times> u64 \<times> u64"
  sn_focused_ref :: "string option"
  sn_viewport :: json

record snapshot_delta =
  sd_seq :: nat
  sd_base_seq :: nat
  sd_partial :: bool
  sd_mutations :: "mutation_record list"
  sd_url :: string
  sd_title :: string

datatype snapshot_response = Full snapshot | Delta snapshot_delta

text \<open>
  The answers of the browser during one call: the targets asked for by the delta path, the two drains it may
  make, the accessibility tree, the targets and trees of the child frames, and what the viewport and focus
  scripts give.
\<close>

record snap_io =
  si_targets_first :: "json option"
  si_drain_first :: drain_answer
  si_drain :: drain_answer
  si_ax :: "json option"
  si_targets :: "json option"
  si_child :: "string \<Rightarrow> json option"
  si_viewport :: json
  si_focus :: "element list \<Rightarrow> string option"

definition next_snapshot_seq :: "page_state \<Rightarrow> nat \<times> page_state" where
  "next_snapshot_seq s = (ps_seq s + 1, s\<lparr> ps_seq := ps_seq s + 1 \<rparr>)"

definition set_delta_anchor :: "delta_anchor \<Rightarrow> page_state \<Rightarrow> page_state" where
  "set_delta_anchor a s = s\<lparr> ps_anchor := Some a \<rparr>"

definition clear_delta_anchor :: "page_state \<Rightarrow> page_state" where
  "clear_delta_anchor s = s\<lparr> ps_anchor := None \<rparr>"

definition record_drain_failure :: "page_state \<Rightarrow> page_state" where
  "record_drain_failure s =
     s\<lparr> ps_metrics := (ps_metrics s)\<lparr> mm_drain_failures := mm_drain_failures (ps_metrics s) + 1 \<rparr> \<rparr>"

definition record_drain_overflow :: "page_state \<Rightarrow> page_state" where
  "record_drain_overflow s =
     s\<lparr> ps_metrics := (ps_metrics s)\<lparr> mm_drain_overflows := mm_drain_overflows (ps_metrics s) + 1 \<rparr> \<rparr>"

definition record_anchor_invalidation :: "page_state \<Rightarrow> page_state" where
  "record_anchor_invalidation s =
     s\<lparr> ps_metrics := (ps_metrics s)\<lparr> mm_anchor_invalidations := mm_anchor_invalidations (ps_metrics s) + 1 \<rparr> \<rparr>"

definition drain_mutation_log ::
  "drain_answer \<Rightarrow> page_state \<Rightarrow> (mutation_error + mutation_record list) \<times> page_state" where
  "drain_mutation_log ans s = (case drain_log ans (ps_js s) of (r, j) \<Rightarrow> (r, s\<lparr> ps_js := j \<rparr>))"

definition max_seq :: "mutation_record list \<Rightarrow> nat option" where
  "max_seq ms = (if ms = [] then None else Some (foldl max 0 (map mu_seq ms)))"

definition drain_mutation_high_water :: "drain_answer \<Rightarrow> page_state \<Rightarrow> nat \<times> page_state" where
  "drain_mutation_high_water ans s =
     (case drain_mutation_log ans s of
        (Inr ms, s) \<Rightarrow> (or_default 0 (max_seq ms), s)
      | (Inl _, s) \<Rightarrow> (0, s))"

definition drain_snapshot_extras :: "page_state \<Rightarrow> (json list \<times> json list \<times> u64 \<times> u64) \<times> page_state" where
  "drain_snapshot_extras s =
     ((ps_console s, ps_exceptions s, ps_completed s, ps_failed s),
      s\<lparr> ps_console := [], ps_exceptions := [], ps_completed := 0, ps_failed := 0 \<rparr>)"

definition splice_child :: "(string \<Rightarrow> string) \<Rightarrow> snap_io \<Rightarrow> string \<Rightarrow> element list \<Rightarrow> element list" where
  "splice_child sha io target elements =
     (case snapshot_child_frame sha target (si_child io target) of
        Some child \<Rightarrow> splice_snapshot_elements elements child | None \<Rightarrow> elements)"

definition do_snapshot ::
  "(string \<Rightarrow> string) \<Rightarrow> snap_io \<Rightarrow> nat \<Rightarrow> nat \<Rightarrow> bool \<Rightarrow> bool \<Rightarrow> page_state \<Rightarrow> (string + snapshot) \<times> page_state" where
  "do_snapshot sha io high_water base_seq partial anchor_stale s =
     (case next_snapshot_seq s of (seq, s) \<Rightarrow>
        case si_ax io of
          None \<Rightarrow> (Inl ''Accessibility.getFullAXTree'', s)
        | Some nodes_val \<Rightarrow>
            (case si_targets io of
               None \<Rightarrow> (Inl ''Target.getTargets'', s)
             | Some targets \<Rightarrow>
                 (let elements = fold (splice_child sha io) (child_frame_targets (ps_target_id s) targets)
                                   (snapshot_parts sha nodes_val)
                  in case drain_snapshot_extras s of ((console, exceptions, completed, failed), s) \<Rightarrow>
                       (Inr \<lparr> sn_seq = seq, sn_base_seq = base_seq, sn_partial = partial,
                              sn_anchor_stale = anchor_stale, sn_url = ps_url s, sn_title = ps_title s,
                              sn_elements = elements, sn_tree = JObject [(''nodes'', nodes_val)],
                              sn_console = console, sn_exceptions = exceptions,
                              sn_network = (length (ps_in_flight s), completed, failed),
                              sn_focused_ref = si_focus io elements, sn_viewport = si_viewport io \<rparr>,
                        set_delta_anchor \<lparr> da_snapshot_seq = seq, da_high_water = high_water \<rparr> s))))"

definition page_snapshot :: "(string \<Rightarrow> string) \<Rightarrow> snap_io \<Rightarrow> page_state \<Rightarrow> (string + snapshot) \<times> page_state" where
  "page_snapshot sha io s =
     (case drain_mutation_high_water (si_drain io) s of (high_water, s) \<Rightarrow> do_snapshot sha io high_water 0 False False s)"

definition mutation_log_overflowed :: "nat \<Rightarrow> mutation_record list \<Rightarrow> bool" where
  "mutation_log_overflowed high_water drained =
     (case drained of [] \<Rightarrow> False | m # ms \<Rightarrow> foldl min (mu_seq m) (map mu_seq ms) > high_water + 1)"

definition full_response :: "(string + snapshot) \<times> page_state \<Rightarrow> (string + snapshot_response) \<times> page_state" where
  "full_response r = (map_sum id Full (fst r), snd r)"

text \<open>The fall-back of the delta path: drain, then a full snapshot marked as stale.\<close>

definition stale_full ::
  "(string \<Rightarrow> string) \<Rightarrow> snap_io \<Rightarrow> nat \<Rightarrow> page_state \<Rightarrow> (string + snapshot_response) \<times> page_state" where
  "stale_full sha io since_seq s =
     (case drain_mutation_high_water (si_drain io) s of (high_water, s) \<Rightarrow>
        full_response (do_snapshot sha io high_water since_seq False True s))"

definition delta_response ::
  "nat \<Rightarrow> nat \<Rightarrow> mutation_record list \<Rightarrow> page_state \<Rightarrow> (string + snapshot_response) \<times> page_state" where
  "delta_response since_seq high_water drained s =
     (let mutations = filter (\<lambda>m. mu_seq m > high_water) drained;
          new_high_water = or_default high_water (max_seq mutations)
      in case next_snapshot_seq s of (new_seq, s) \<Rightarrow>
           (Inr (Delta \<lparr> sd_seq = new_seq, sd_base_seq = since_seq, sd_partial = True,
                         sd_mutations = mutations, sd_url = ps_url s, sd_title = ps_title s \<rparr>),
            set_delta_anchor \<lparr> da_snapshot_seq = new_seq, da_high_water = new_high_water \<rparr> s))"

definition snapshot_delta_since ::
  "(string \<Rightarrow> string) \<Rightarrow> snap_io \<Rightarrow> nat \<Rightarrow> page_state \<Rightarrow> (string + snapshot_response) \<times> page_state" where
  "snapshot_delta_since sha io since_seq s =
     (if since_seq = 0 then full_response (page_snapshot sha io s)
      else
        case si_targets_first io of
          None \<Rightarrow> (Inl ''Target.getTargets'', s)
        | Some targets \<Rightarrow>
            if child_frame_targets (ps_target_id s) targets \<noteq> [] then stale_full sha io since_seq (record_anchor_invalidation s)
            else
              (case ps_anchor s of
                 None \<Rightarrow> stale_full sha io since_seq (record_anchor_invalidation s)
               | Some anchor \<Rightarrow>
                   if da_snapshot_seq anchor \<noteq> since_seq then stale_full sha io since_seq (record_anchor_invalidation s)
                   else
                     (case drain_mutation_log (si_drain_first io) s of
                        (Inl _, s) \<Rightarrow> stale_full sha io since_seq (record_drain_failure s)
                      | (Inr drained, s) \<Rightarrow>
                          if mutation_log_overflowed (da_high_water anchor) drained
                          then full_response (do_snapshot sha io (or_default (da_high_water anchor) (max_seq drained))
                                 since_seq False True (record_drain_overflow s))
                          else delta_response since_seq (da_high_water anchor) drained s)))"

text \<open>The two entry points as one: \<^verbatim>\<open>page.snapshot\<close> with or without \<^verbatim>\<open>since_seq\<close>.\<close>

definition take_snapshot ::
  "(string \<Rightarrow> string) \<Rightarrow> snap_io \<Rightarrow> nat option \<Rightarrow> page_state \<Rightarrow> (string + snapshot_response) \<times> page_state" where
  "take_snapshot sha io since_seq s =
     (case since_seq of
        Some n \<Rightarrow> snapshot_delta_since sha io n s
      | None \<Rightarrow> full_response (page_snapshot sha io s))"

fun response_seq :: "snapshot_response \<Rightarrow> nat" where
  "response_seq (Full sn) = sn_seq sn"
| "response_seq (Delta d) = sd_seq d"

subsection \<open>Runs of a page\<close>

text \<open>
  The page changes, navigates (a new document, and the event that clears the anchor), or is asked for a
  snapshot.
\<close>

datatype page_op = Mutate mutation | Navigated | TakeSnapshot snap_io "nat option" | ClearAnchor

definition mutate :: "mutation \<Rightarrow> page_state \<Rightarrow> page_state" where
  "mutate m s = s\<lparr> ps_js := js_record m (ps_js s) \<rparr>"

fun page_step :: "(string \<Rightarrow> string) \<Rightarrow> page_op \<Rightarrow> page_state \<Rightarrow> page_state" where
  "page_step sha (Mutate m) s = mutate m s"
| "page_step sha Navigated s = clear_delta_anchor (s\<lparr> ps_js := js_bootstrap \<rparr>)"
| "page_step sha (TakeSnapshot io since) s = snd (take_snapshot sha io since s)"
| "page_step sha ClearAnchor s = clear_delta_anchor s"

definition page_new :: "string \<Rightarrow> page_state" where
  "page_new target =
     \<lparr> ps_target_id = target, ps_js = js_bootstrap, ps_seq = 0, ps_anchor = None, ps_url = [], ps_title = [],
       ps_console = [], ps_exceptions = [], ps_in_flight = [], ps_completed = 0, ps_failed = 0,
       ps_metrics = \<lparr> mm_drain_failures = 0, mm_drain_overflows = 0, mm_anchor_invalidations = 0 \<rparr> \<rparr>"

subsection \<open>The log is contiguous\<close>

definition content :: "mutation_record \<Rightarrow> mutation" where
  "content r = (mu_kind r, mu_tag r, mu_cb r)"

definition js_inv :: "js_log \<Rightarrow> bool" where
  "js_inv j \<longleftrightarrow> length (jl_log j) \<le> jl_seq j \<and> length (jl_log j) \<le> MAX_LOG \<and>
     map mu_seq (jl_log j) = [Suc (jl_seq j) - length (jl_log j)..<Suc (jl_seq j)]"

lemma js_inv_bootstrap [simp]: "js_inv js_bootstrap"
  by (simp add: js_inv_def js_bootstrap_def)

lemma js_inv_drain [simp]: "js_inv j \<Longrightarrow> js_inv (snd (js_drain j))"
  by (simp add: js_inv_def js_drain_def)

lemma js_drain_records [simp]: "fst (js_drain j) = jl_log j"
  by (simp add: js_drain_def)

lemma js_drain_seq [simp]: "jl_seq (snd (js_drain j)) = jl_seq j"
  by (simp add: js_drain_def)

lemma js_record_log:
  assumes "js_inv j"
  shows "length (jl_log (js_record m j)) = min MAX_LOG (Suc (length (jl_log j)))"
    and "suffix (map content (jl_log (js_record m j))) (map content (jl_log j) @ [m])"
    and "jl_seq (js_record m j) = Suc (jl_seq j)"
proof -
  let ?r = "\<lparr> mu_seq = Suc (jl_seq j), mu_kind = fst m, mu_tag = fst (snd m), mu_cb = snd (snd m) \<rparr>"
  have "suffix (jl_log (js_record m j)) (jl_log j @ [?r])"
  proof -
    have "jl_log (js_record m j) = drop (if MAX_LOG < Suc (length (jl_log j))
        then Suc (length (jl_log j)) - MAX_LOG else 0) (jl_log j @ [?r])"
      by (simp add: js_record_def Let_def)
    then show ?thesis by (simp only: suffix_drop)
  qed
  then have "suffix (map content (jl_log (js_record m j))) (map content (jl_log j @ [?r]))"
    by (rule map_mono_suffix)
  then show "suffix (map content (jl_log (js_record m j))) (map content (jl_log j) @ [m])"
    by (simp add: content_def)
qed (use assms in \<open>auto simp: js_record_def Let_def js_inv_def\<close>)

lemma js_inv_record:
  assumes "js_inv j"
  shows "js_inv (js_record m j)"
proof -
  have seqs: "map mu_seq (jl_log j) @ [Suc (jl_seq j)] = [Suc (jl_seq j) - length (jl_log j)..<Suc (Suc (jl_seq j))]"
    using assms by (simp add: js_inv_def)
  show ?thesis
    using assms seqs
    by (auto simp: js_inv_def js_record_def Let_def drop_map [symmetric] Suc_diff_le)
qed

lemma fold_record:
  assumes "js_inv j"
  shows "js_inv (fold js_record ms j) \<and> jl_seq (fold js_record ms j) = jl_seq j + length ms \<and>
    length (jl_log (fold js_record ms j)) = min MAX_LOG (length (jl_log j) + length ms) \<and>
    suffix (map content (jl_log (fold js_record ms j))) (map content (jl_log j) @ ms)"
  using assms
proof (induction ms arbitrary: j)
  case Nil
  then show ?case by (auto simp: js_inv_def)
next
  case (Cons m ms)
  note rec = js_record_log [OF Cons.prems, of m]
  note IH = Cons.IH [OF js_inv_record [OF Cons.prems, of m]]
  from rec(2) have "suffix (map content (jl_log (js_record m j)) @ ms) (map content (jl_log j) @ m # ms)"
    by (auto simp: suffix_def)
  with IH rec show ?case by (auto intro: suffix_order.trans)
qed

text \<open>
  After any mutations, a log that shows no gap after the high-water mark ends with all of them, above the mark.
\<close>

lemma foldl_min: "foldl min (a :: nat) (map mu_seq ms) = Min (insert a (mu_seq ` set ms))"
proof (induction ms arbitrary: a)
  case (Cons m ms)
  then show ?case by (cases "ms = []") (simp_all add: min.assoc)
qed simp

lemma no_gap_long_enough:
  assumes inv: "js_inv j" and hw: "hw \<le> jl_seq j"
    and gap: "\<not> mutation_log_overflowed hw (jl_log (fold js_record ms j))"
  shows "length ms \<le> length (jl_log (fold js_record ms j))"
proof (cases "jl_log (fold js_record ms j)")
  case Nil
  with fold_record [OF inv, of ms] show ?thesis by (simp add: MAX_LOG_def min_def split: if_splits)
next
  case (Cons r rs)
  note f = fold_record [OF inv, of ms]
  let ?S = "mu_seq ` set (jl_log (fold js_record ms j))"
  from gap Cons have min: "Min ?S \<le> hw + 1"
    by (simp add: mutation_log_overflowed_def foldl_min del: Min_gr_iff Min_insert)
  from f have "map mu_seq (jl_log (fold js_record ms j)) =
      [Suc (jl_seq j + length ms) - length (jl_log (fold js_record ms j))..<Suc (jl_seq j + length ms)]"
    by (simp add: js_inv_def del: upt_Suc)
  then have "?S = {Suc (jl_seq j + length ms) - length (jl_log (fold js_record ms j))..<Suc (jl_seq j + length ms)}"
    by (metis list.set_map set_upt)
  moreover have "Min ?S \<in> ?S" using Cons by (intro Min_in) auto
  ultimately have "Suc (jl_seq j + length ms) - length (jl_log (fold js_record ms j)) \<le> Min ?S"
    by simp
  with min hw show ?thesis by simp
qed

lemma no_gap_complete:
  assumes inv: "js_inv j" and hw: "hw \<le> jl_seq j"
    and gap: "\<not> mutation_log_overflowed hw (jl_log (fold js_record ms j))"
  shows "\<exists>pre. map content (filter (\<lambda>m. mu_seq m > hw) (jl_log (fold js_record ms j))) = pre @ ms"
proof -
  let ?log = "jl_log (fold js_record ms j)"
  note f = fold_record [OF inv, of ms]
  note len = no_gap_long_enough [OF inv hw gap]
  let ?R = "drop (length ?log - length ms) ?log"
  from f len have "suffix ms (map content ?log)"
    by (metis length_map suffix_appendI suffix_length_suffix suffix_order.refl)
  then obtain zs where zs: "map content ?log = zs @ ms"
    by (auto simp: suffix_def)
  then have "length zs = length ?log - length ms"
    by (metis add_diff_cancel_right' length_append length_map)
  with zs have R: "map content ?R = ms"
    by (simp add: drop_map [symmetric])
  have "map mu_seq ?R = drop (length ?log - length ms) (map mu_seq ?log)"
    by (simp add: drop_map)
  with f len have "map mu_seq ?R = [Suc (jl_seq j)..<Suc (jl_seq j + length ms)]"
    by (simp add: js_inv_def drop_upt del: upt_Suc)
  then have "\<forall>r\<in>set ?R. mu_seq r > hw"
    using hw by (metis (no_types, lifting) Suc_le_eq atLeastLessThan_iff imageI le_trans Suc_le_mono list.set_map set_upt)
  then have "filter (\<lambda>m. mu_seq m > hw) ?R = ?R" by simp
  then have "filter (\<lambda>m. mu_seq m > hw) ?log =
      filter (\<lambda>m. mu_seq m > hw) (take (length ?log - length ms) ?log) @ ?R"
    by (metis append_take_drop_id filter_append)
  with R show ?thesis by auto
qed

subsection \<open>Every step of a page keeps the anchor behind the log\<close>

definition page_inv :: "page_state \<Rightarrow> bool" where
  "page_inv s \<longleftrightarrow> js_inv (ps_js s) \<and> (\<forall>a. ps_anchor s = Some a \<longrightarrow> da_high_water a \<le> jl_seq (ps_js s))"

lemma drain_log_inv:
  assumes "js_inv j" "drain_log ans j = (r, j')"
  shows "js_inv j' \<and> jl_seq j' = jl_seq j \<and> (\<forall>ms. r = Inr ms \<longrightarrow> (\<forall>m\<in>set ms. mu_seq m \<le> jl_seq j))"
proof -
  from assms(1) have "\<forall>m\<in>set (jl_log j). mu_seq m \<le> jl_seq j"
    by (metis atLeastLessThan_iff imageI js_inv_def less_Suc_eq_le list.set_map set_upt)
  with assms show ?thesis
    by (auto simp: drain_log_def case_prod_beta split: drain_answer.splits)
qed

lemma drain_mutation_log_inv:
  assumes "page_inv s" "drain_mutation_log ans s = (r, s')"
  shows "page_inv s' \<and> jl_seq (ps_js s') = jl_seq (ps_js s) \<and> ps_anchor s' = ps_anchor s \<and> ps_seq s' = ps_seq s \<and>
    (\<forall>ms. r = Inr ms \<longrightarrow> (\<forall>m\<in>set ms. mu_seq m \<le> jl_seq (ps_js s')))"
  using assms drain_log_inv [of "ps_js s" ans]
  by (auto simp: drain_mutation_log_def page_inv_def split: prod.splits)

lemma max_seq_le:
  assumes "\<forall>m\<in>set ms. mu_seq m \<le> b" "d \<le> b"
  shows "or_default d (max_seq ms) \<le> b"
proof -
  have "foldl max a (map mu_seq ms) \<le> b" if "a \<le> b" for a
    using that assms(1) by (induction ms arbitrary: a) auto
  with assms(2) show ?thesis by (auto simp: max_seq_def or_default_def)
qed

lemma drain_high_water_inv:
  assumes "page_inv s" "drain_mutation_high_water ans s = (hw, s')"
  shows "page_inv s' \<and> hw \<le> jl_seq (ps_js s') \<and> jl_seq (ps_js s') = jl_seq (ps_js s)"
proof -
  obtain r t where d: "drain_mutation_log ans s = (r, t)" by fastforce
  from drain_mutation_log_inv [OF assms(1) d] assms(2) d show ?thesis
    by (auto simp: drain_mutation_high_water_def intro: max_seq_le split: sum.splits)
qed

lemma do_snapshot_inv:
  assumes "page_inv s" "hw \<le> jl_seq (ps_js s)" "do_snapshot sha io hw base partial stale s = (r, s')"
  shows "page_inv s' \<and>
    (\<forall>sn. r = Inr sn \<longrightarrow> sn_seq sn \<noteq> 0 \<and> sn_base_seq sn = base \<and> sn_anchor_stale sn = stale \<and>
       ps_anchor s' = Some \<lparr> da_snapshot_seq = sn_seq sn, da_high_water = hw \<rparr>)"
  using assms
  by (auto simp: do_snapshot_def next_snapshot_seq_def drain_snapshot_extras_def set_delta_anchor_def page_inv_def
      Let_def split: option.splits)

text \<open>What an answered call leaves behind: an anchor with the number of the answer.\<close>

definition answered :: "(string + snapshot_response) \<Rightarrow> page_state \<Rightarrow> bool" where
  "answered r s \<longleftrightarrow> page_inv s \<and>
     (\<forall>resp. r = Inr resp \<longrightarrow> response_seq resp \<noteq> 0 \<and>
        (\<exists>a. ps_anchor s = Some a \<and> da_snapshot_seq a = response_seq resp))"

lemma answered_error: "page_inv s \<Longrightarrow> answered (Inl e) s"
  by (simp add: answered_def)

lemma full_answered:
  assumes "page_inv s" "hw \<le> jl_seq (ps_js s)"
  shows "answered (fst (full_response (do_snapshot sha io hw base partial stale s)))
    (snd (full_response (do_snapshot sha io hw base partial stale s)))"
proof -
  obtain r t where d: "do_snapshot sha io hw base partial stale s = (r, t)" by fastforce
  from do_snapshot_inv [OF assms d] d show ?thesis
    by (cases r) (auto simp: full_response_def answered_def)
qed

lemma page_snapshot_answered:
  assumes "page_inv s"
  shows "answered (fst (full_response (page_snapshot sha io s))) (snd (full_response (page_snapshot sha io s)))"
proof -
  obtain hw t where d: "drain_mutation_high_water (si_drain io) s = (hw, t)" by fastforce
  from drain_high_water_inv [OF assms d] d show ?thesis
    by (simp add: page_snapshot_def full_answered)
qed

lemma page_inv_metrics [simp]:
  "page_inv (record_drain_failure s) = page_inv s"
  "page_inv (record_drain_overflow s) = page_inv s"
  "page_inv (record_anchor_invalidation s) = page_inv s"
  by (simp_all add: page_inv_def record_drain_failure_def record_drain_overflow_def record_anchor_invalidation_def)

lemma metrics_frame [simp]:
  "ps_js (record_drain_failure s) = ps_js s" "ps_js (record_drain_overflow s) = ps_js s"
  "ps_js (record_anchor_invalidation s) = ps_js s"
  by (simp_all add: record_drain_failure_def record_drain_overflow_def record_anchor_invalidation_def)

lemma stale_full_answered:
  assumes "page_inv s"
  shows "answered (fst (stale_full sha io n s)) (snd (stale_full sha io n s))"
proof -
  obtain hw t where d: "drain_mutation_high_water (si_drain io) s = (hw, t)" by fastforce
  from drain_high_water_inv [OF assms d] d show ?thesis
    by (simp add: stale_full_def full_answered)
qed

lemma delta_answered:
  assumes "page_inv s" "hw \<le> jl_seq (ps_js s)" "\<forall>m\<in>set drained. mu_seq m \<le> jl_seq (ps_js s)"
  shows "answered (fst (delta_response n hw drained s)) (snd (delta_response n hw drained s))"
proof -
  have "or_default hw (max_seq (filter (\<lambda>m. hw < mu_seq m) drained)) \<le> jl_seq (ps_js s)"
    using assms by (intro max_seq_le) auto
  with assms show ?thesis
    by (auto simp: delta_response_def answered_def page_inv_def next_snapshot_seq_def set_delta_anchor_def Let_def)
qed

lemma snapshot_delta_since_answered:
  assumes inv: "page_inv s"
  shows "answered (fst (snapshot_delta_since sha io n s)) (snd (snapshot_delta_since sha io n s))"
proof -
  obtain r t where d: "drain_mutation_log (si_drain_first io) s = (r, t)" by fastforce
  note t = drain_mutation_log_inv [OF inv d]
  show ?thesis
  proof (cases "ps_anchor s")
    case None
    with inv show ?thesis
      by (auto simp: snapshot_delta_since_def page_snapshot_answered stale_full_answered answered_error
          split: option.split)
  next
    case (Some a)
    with inv have hw: "da_high_water a \<le> jl_seq (ps_js s)" by (simp add: page_inv_def)
    with inv t Some d show ?thesis
      by (cases r)
        (auto simp: snapshot_delta_since_def page_snapshot_answered stale_full_answered delta_answered
          full_answered max_seq_le answered_error split: option.split)
  qed
qed

lemma take_snapshot_answered:
  "page_inv s \<Longrightarrow> answered (fst (take_snapshot sha io since s)) (snd (take_snapshot sha io since s))"
  by (auto simp: take_snapshot_def page_snapshot_answered snapshot_delta_since_answered split: option.split)

lemma page_step_inv: "page_inv s \<Longrightarrow> page_inv (page_step sha op s)"
  using take_snapshot_answered [of s sha]
  by (cases op)
    (auto simp: answered_def mutate_def clear_delta_anchor_def page_inv_def js_inv_record js_record_log(3)
      dest: le_SucI)

lemma page_run_inv: "page_inv (fold (page_step sha) ops (page_new target))"
proof -
  have "page_inv s \<Longrightarrow> page_inv (fold (page_step sha) ops s)" for s
    by (induction ops arbitrary: s) (auto simp: page_step_inv)
  then show ?thesis by (simp add: page_inv_def page_new_def)
qed

lemma fold_mutate: "fold mutate ms s = s\<lparr> ps_js := fold js_record ms (ps_js s) \<rparr>"
  by (induction ms arbitrary: s) (simp_all add: mutate_def)

subsection \<open>Elements have dense indices\<close>

text \<open>The element at a position carries that position as its index and reference.\<close>

definition refs_wf :: "element list \<Rightarrow> bool" where
  "refs_wf es \<longleftrightarrow> map el_index es = [0..<length es] \<and> map el_ref es = map element_ref [0..<length es]"

lemma build_elements_refs:
  "map el_index (build_elements sha nodes i c ns) = [i..<i + length ns] \<and>
   map el_ref (build_elements sha nodes i c ns) = map element_ref [i..<i + length ns]"
  by (induction ns arbitrary: i c) (simp_all add: Let_def element_of_def upt_conv_Cons del: upt_Suc)

lemma snapshot_parts_refs: "refs_wf (snapshot_parts sha v)"
proof -
  have "length (build_elements sha ns i c ms) = length ms" for ns i c ms
    by (induction ms arbitrary: i c) (simp_all add: Let_def)
  then show ?thesis
    using build_elements_refs [where i = 0] by (simp add: refs_wf_def snapshot_parts_def Let_def)
qed

lemma map_enumerate_index: "map (\<lambda>x. g (fst x)) (enumerate 0 xs) = map g [0..<length xs]"
proof -
  have "map g (map fst (enumerate 0 xs)) = map g [0..<length xs]"
    by (simp only: map_fst_enumerate add_0)
  then show ?thesis unfolding map_map comp_def .
qed

lemma splice_refs:
  assumes "refs_wf parent"
  shows "refs_wf (splice_snapshot_elements parent child)"
proof -
  let ?p = "length parent" and ?c = "length child"
  have upt: "[0..<?p + ?c] = [0..<?p] @ map (\<lambda>i. ?p + i) [0..<?c]"
    using upt_add_eq_append [of 0 ?p ?c] map_add_upt [of ?p ?c] by (simp add: add.commute)
  have index: "map el_index (map (\<lambda>(i, e). e\<lparr> el_index := ?p + i, el_ref := element_ref (?p + i) \<rparr>) (enumerate 0 child)) =
      map (\<lambda>i. ?p + i) [0..<?c]"
    by (simp add: comp_def case_prod_beta map_enumerate_index [of "\<lambda>i. length parent + i"])
  have ref: "map el_ref (map (\<lambda>(i, e). e\<lparr> el_index := ?p + i, el_ref := element_ref (?p + i) \<rparr>) (enumerate 0 child)) =
      map element_ref (map (\<lambda>i. ?p + i) [0..<?c])"
    by (simp add: comp_def case_prod_beta map_enumerate_index [of "\<lambda>i. element_ref (length parent + i)"])
  have len: "length (splice_snapshot_elements parent child) = ?p + ?c"
    by (simp add: splice_snapshot_elements_def)
  show ?thesis
    unfolding refs_wf_def len unfolding splice_snapshot_elements_def map_append index ref upt
    using assms by (simp add: refs_wf_def)
qed

lemma splice_child_refs: "refs_wf es \<Longrightarrow> refs_wf (splice_child sha io target es)"
  by (simp add: splice_child_def splice_refs split: option.split)

lemma splice_children_refs: "refs_wf es \<Longrightarrow> refs_wf (fold (splice_child sha io) targets es)"
  by (induction targets arbitrary: es) (simp_all add: splice_child_refs)

lemma do_snapshot_elements:
  "do_snapshot sha io hw base partial stale s = (Inr sn, s') \<Longrightarrow>
   refs_wf (sn_elements sn) \<and> sn_base_seq sn = base \<and> sn_anchor_stale sn = stale"
  by (auto simp: do_snapshot_def next_snapshot_seq_def drain_snapshot_extras_def Let_def
      splice_children_refs snapshot_parts_refs split: option.splits)

lemma full_response_Inr:
  assumes "full_response p = (Inr resp, s')"
  obtains sn where "p = (Inr sn, s')" "resp = Full sn"
  using assms by (cases p; cases "fst p") (auto simp: full_response_def)

lemma page_snapshot_elements: "page_snapshot sha io s = (Inr sn, s') \<Longrightarrow> refs_wf (sn_elements sn)"
  by (auto simp: page_snapshot_def dest: do_snapshot_elements split: prod.splits)

lemma stale_full_shape:
  assumes "stale_full sha io n s = (Inr resp, s')"
  shows "\<exists>sn. resp = Full sn \<and> sn_anchor_stale sn \<and> sn_base_seq sn = n \<and> refs_wf (sn_elements sn)"
  using assms
  by (auto simp: stale_full_def dest!: do_snapshot_elements split: prod.splits elim!: full_response_Inr)

lemma snapshot_delta_since_elements:
  assumes "snapshot_delta_since sha io n s = (Inr (Full sn), s')"
  shows "refs_wf (sn_elements sn)"
proof -
  have no_delta: "\<not> delta_response n hw ms t = (Inr (Full sn), s')" for hw ms t
    by (simp add: delta_response_def next_snapshot_seq_def Let_def)
  show ?thesis
    using assms no_delta stale_full_shape [of sha io n _ "Full sn" s']
    by (auto simp: snapshot_delta_since_def dest: page_snapshot_elements do_snapshot_elements
        elim!: full_response_Inr split: if_splits option.splits prod.splits sum.splits)
qed

text \<open>A page from an answered call on: a delta that is not a stale full snapshot is the drained log.\<close>

lemma delta_cases:
  assumes anchor: "ps_anchor s = Some a" "da_snapshot_seq a = n" "n \<noteq> 0"
    and drain: "si_drain_first io \<noteq> NoValue True" "si_drain_first io \<noteq> NoValue False"
    and res: "snapshot_delta_since sha io n s = (Inr resp, s')"
  shows "(\<exists>sn. resp = Full sn \<and> sn_anchor_stale sn \<and> sn_base_seq sn = n) \<or>
    (\<not> mutation_log_overflowed (da_high_water a) (jl_log (ps_js s)) \<and>
     (\<exists>d. resp = Delta d \<and> sd_base_seq d = n \<and>
        sd_mutations d = filter (\<lambda>m. mu_seq m > da_high_water a) (jl_log (ps_js s))))"
proof -
  consider "si_drain_first io = Drained"
    | e t where "drain_mutation_log (si_drain_first io) s = (Inl e, t)"
  proof (cases "si_drain_first io")
    case (NoValue b)
    with drain show ?thesis by (cases b) auto
  qed (auto simp: drain_mutation_log_def drain_log_def)
  then show ?thesis
  proof cases
    case 1
    with res anchor show ?thesis
      by (auto simp: snapshot_delta_since_def drain_mutation_log_def drain_log_def js_drain_def delta_response_def
          next_snapshot_seq_def Let_def dest!: do_snapshot_elements stale_full_shape elim!: full_response_Inr
          split: option.splits if_splits)
  next
    case 2
    with res anchor show ?thesis
      by (auto simp: snapshot_delta_since_def dest!: stale_full_shape split: option.splits if_splits)
  qed
qed

text \<open>A failed snapshot leaves the anchor, but not the log.\<close>

lemma failed_snapshot_state:
  assumes "page_snapshot sha io s = (Inl e, s1)" "si_drain io = Drained"
  shows "ps_anchor s1 = ps_anchor s" "jl_log (ps_js s1) = []" "ps_target_id s1 = ps_target_id s"
  using assms
  by (auto simp: page_snapshot_def drain_mutation_high_water_def drain_mutation_log_def drain_log_def js_drain_def
      do_snapshot_def next_snapshot_seq_def drain_snapshot_extras_def Let_def split: option.splits)

text \<open>A page with one button, one mutation before the first snapshot and one after it.\<close>

definition snap_sample_io :: snap_io where
  "snap_sample_io =
     \<lparr> si_targets_first = Some (JObject []), si_drain_first = Drained, si_drain = Drained,
       si_ax = Some (JArray [JObject [(''role'', JString ''button'')]]), si_targets = Some (JObject []),
       si_child = (\<lambda>_. None), si_viewport = JNull, si_focus = (\<lambda>_. None) \<rparr>"

definition snap_sample_page :: page_state where
  "snap_sample_page = fold (page_step (\<lambda>x. x)) [Mutate (''childList'', ''DIV'', [])] (page_new ''t1'')"

definition snap_sample_first :: "(string + snapshot_response) \<times> page_state" where
  "snap_sample_first = take_snapshot (\<lambda>x. x) snap_sample_io None snap_sample_page"

definition snap_sample_second :: "(string + snapshot_response) \<times> page_state" where
  "snap_sample_second = snapshot_delta_since (\<lambda>x. x) snap_sample_io (response_seq (projr (fst snap_sample_first)))
     (fold mutate [(''added'', ''P'', [])] (snd snap_sample_first))"

definition snap_sample_failed :: "(string + snapshot) \<times> page_state" where
  "snap_sample_failed = page_snapshot (\<lambda>x. x) (snap_sample_io\<lparr> si_ax := None \<rparr>)
     (mutate (''added'', ''P'', []) (snd snap_sample_first))"

lemmas page_eval = take_snapshot_def page_snapshot_def full_response_def do_snapshot_def next_snapshot_seq_def
  drain_mutation_high_water_def drain_mutation_log_def drain_log_def js_drain_def max_seq_def or_default_def
  drain_snapshot_extras_def set_delta_anchor_def snapshot_parts_def child_frame_targets_def Let_def
  mutate_def js_record_def js_bootstrap_def page_new_def MAX_LOG_def snap_sample_io_def List.map_filter_def

lemma snap_sample_first_eval:
  "\<exists>sn. snap_sample_first = (Inr (Full sn), snd snap_sample_first) \<and> sn_seq sn = 1 \<and> length (sn_elements sn) = 1"
  "ps_anchor (snd snap_sample_first) = Some \<lparr> da_snapshot_seq = 1, da_high_water = 1 \<rparr>"
  "jl_log (ps_js (snd snap_sample_first)) = []" "jl_seq (ps_js (snd snap_sample_first)) = 1"
  by (simp_all add: snap_sample_first_def snap_sample_page_def page_eval)

lemma answered_pair: "\<not> isl (fst p) \<Longrightarrow> p = (Inr (projr (fst p)), snd p)"
  by (cases p; cases "fst p") auto

subsection \<open>Properties\<close>



text \<open>
  C26. Every full snapshot names its elements well: the element at position \<open>i\<close> has index \<open>i\<close> and reference
  \<open>e<i>\<close>, also when elements of child frames were appended, and the reference is found at that element only.
\<close>

theorem snapshot_refs_wellformed:
  assumes "take_snapshot sha io since s = (Inr (Full sn), s')" "i < length (sn_elements sn)"
  shows "el_index (sn_elements sn ! i) = i \<and> el_ref (sn_elements sn ! i) = element_ref i \<and>
    find (\<lambda>e. el_ref e = element_ref i) (sn_elements sn) = Some (sn_elements sn ! i)"
proof -
  have wf: "refs_wf (sn_elements sn)"
    using assms(1)
    by (auto simp: take_snapshot_def dest: page_snapshot_elements snapshot_delta_since_elements
        elim!: full_response_Inr split: option.splits)
  have nth: "el_index (sn_elements sn ! k) = k \<and> el_ref (sn_elements sn ! k) = element_ref k"
    if "k < length (sn_elements sn)" for k
    using wf that by (metis (no_types, lifting) add_0 diff_zero length_upt nth_map nth_upt refs_wf_def)
  have "el_ref (sn_elements sn ! k) \<noteq> element_ref i" if "k < i" for k
    using nth [of k] that assms(2) by (simp add: element_ref_def nat_to_dec_inj)
  with nth [OF assms(2)] assms(2) show ?thesis
    by (auto simp: find_Some_iff)
qed

theorem snapshot_refs_wellformed_witness:
  "\<exists>sn. fst snap_sample_first = Inr (Full sn) \<and> el_ref (sn_elements sn ! 0) = ''e0''"
proof -
  obtain sn s' where f: "snap_sample_first = (Inr (Full sn), s')" and l: "length (sn_elements sn) = 1"
    using snap_sample_first_eval(1) by blast
  have "element_ref 0 = ''e0''" by code_simp
  with snapshot_refs_wellformed [OF f [unfolded snap_sample_first_def], of 0] l
  have "el_ref (sn_elements sn ! 0) = ''e0''" by simp
  moreover have "fst snap_sample_first = Inr (Full sn)" by (simp add: f)
  ultimately show ?thesis by blast
qed

text \<open>
  C27. A failed snapshot loses mutations. \<^verbatim>\<open>snapshot\<close> empties the log in the page before it reads the tree and
  moves the anchor only after; when reading fails, the old anchor is still valid, and the next delta since its
  number reports no mutation at all, whatever the log held.
\<close>

theorem failed_snapshot_loses_mutations:
  assumes "ps_anchor s = Some a" "da_snapshot_seq a \<noteq> 0"
    and "page_snapshot sha io s = (Inl e, s1)" "si_drain io = Drained"
    and "si_targets_first io2 = Some targets" "child_frame_targets (ps_target_id s) targets = []"
    and "si_drain_first io2 = Drained"
  shows "\<exists>d s2. snapshot_delta_since sha io2 (da_snapshot_seq a) s1 = (Inr (Delta d), s2) \<and> sd_mutations d = []"
  using assms failed_snapshot_state [OF assms(3,4)]
  by (simp add: snapshot_delta_since_def drain_mutation_log_def drain_log_def js_drain_def
      mutation_log_overflowed_def delta_response_def next_snapshot_seq_def Let_def)

theorem failed_snapshot_loses_mutations_witness:
  "map content (jl_log (ps_js (mutate (''added'', ''P'', []) (snd snap_sample_first)))) = [(''added'', ''P'', [])] \<and>
   (\<exists>d s2. snapshot_delta_since (\<lambda>x. x) snap_sample_io 1 (snd snap_sample_failed) = (Inr (Delta d), s2) \<and> sd_mutations d = [])"
proof
  let ?s = "mutate (''added'', ''P'', []) (snd snap_sample_first)"
  let ?a = "\<lparr> da_snapshot_seq = 1, da_high_water = 1 \<rparr>"
  show "map content (jl_log (ps_js ?s)) = [(''added'', ''P'', [])]"
    by (simp add: snap_sample_first_eval page_eval content_def)
  have anchor: "ps_anchor ?s = Some ?a" by (simp add: mutate_def snap_sample_first_eval)
  have "isl (fst snap_sample_failed)" by (simp add: snap_sample_failed_def page_eval)
  then have failed: "page_snapshot (\<lambda>x. x) (snap_sample_io\<lparr> si_ax := None \<rparr>) ?s = (Inl (projl (fst snap_sample_failed)), snd snap_sample_failed)"
    unfolding snap_sample_failed_def by (metis prod.collapse sum.collapse(1))
  show "\<exists>d s2. snapshot_delta_since (\<lambda>x. x) snap_sample_io 1 (snd snap_sample_failed) = (Inr (Delta d), s2) \<and> sd_mutations d = []"
    using failed_snapshot_loses_mutations [OF anchor _ failed, of snap_sample_io "JObject []"]
    by (simp add: snap_sample_io_def child_frame_targets_def or_default_def List.map_filter_def)
qed

end
