(* ===== verification/Router_Core.thy ===== *)
theory Router_Core
  imports Page_Snapshot Broker_Wire
begin

text \<open>
  What the tool handlers of the broker share (\<^verbatim>\<open>broker/src/router/mod.rs\<close> and the head of
  \<^verbatim>\<open>router/page.rs\<close>): errors, parameters, the lookup of a tab, the check of a snapshot number and of an
  element reference. A handler is a function on the state of a session (\<open>tool\<close>) that ends with an error or a
  result; every call to the browser it makes is recorded. What the browser answers, and how it leaves the page,
  are fields of \<open>tool_env\<close>. The last section is a small logic on handlers: which of them end with a rejection
  only before they have called the browser.
\<close>

subsection \<open>Errors\<close>

record router_error =
  re_code :: error_code
  re_message :: string
  re_data :: "json option"

definition router_error_of :: "error_code \<Rightarrow> string \<Rightarrow> json option \<Rightarrow> router_error" where
  "router_error_of c msg d = \<lparr> re_code = c, re_message = msg, re_data = d \<rparr>"

definition method_not_found :: "string \<Rightarrow> router_error" where
  "method_not_found m = router_error_of MethodNotFound (''method not found: '' @ m) None"

definition invalid_params :: "string \<Rightarrow> router_error" where
  "invalid_params msg = router_error_of InvalidParams msg None"

definition internal :: "string \<Rightarrow> router_error" where
  "internal msg = router_error_of InternalError msg None"

definition tab_not_found :: router_error where
  "tab_not_found = router_error_of TabNotFound ''tab not found'' None"

definition not_actionable :: router_error where
  "not_actionable = router_error_of ElementNotActionable ''element not actionable'' None"

definition nav_error :: "string \<Rightarrow> router_error" where
  "nav_error msg = router_error_of NavigationFailed msg None"

definition timeout_error :: "string \<Rightarrow> router_error" where
  "timeout_error msg = router_error_of TimeoutCode msg None"

lemmas router_errors = router_error_of_def method_not_found_def invalid_params_def internal_def tab_not_found_def
  not_actionable_def nav_error_def timeout_error_def

subsection \<open>Calls to the browser\<close>

datatype page_button = Left | Right | Middle

datatype scroll_easing = Linear | EaseOut | EaseInOut

record pointer_details =
  pd_force :: "f64 option"
  pd_tangential_pressure :: "f64 option"
  pd_tilt_x :: "f64 option"
  pd_tilt_y :: "f64 option"
  pd_twist :: "int option"

type_synonym point = "f64 \<times> f64"

text \<open>The scripts for a storage area of the page; the expected value of a compare-and-set may be \<^verbatim>\<open>null\<close>.\<close>

datatype storage_script =
    ScriptGet string
  | ScriptGetAll
  | ScriptSet string string
  | ScriptDelete string
  | ScriptClear
  | ScriptCas string "string option" string

text \<open>The methods of \<^verbatim>\<open>Page\<close> the handlers call, with their arguments.\<close>

datatype page_call =
    CallClick element page_button u32 bool u64
  | CallTypeText element string "u64 option" bool u64
  | CallKeypress string int
  | CallScroll "element option" f64 f64
  | CallHover element
  | CallDrag element element u64
  | CallTouchTap f64 f64 u64 u32
  | CallTouchSwipe point point u32 u64
  | CallTouchPinch point f64 f64 u32 u64
  | CallTouchRotate point f64 f64 u32 u64
  | CallPointerPress point page_button u32 pointer_details
  | CallPointerMove point int pointer_details
  | CallPointerRelease point page_button u32 pointer_details
  | CallGesturePinch point f64 f64 u32 u64
  | CallGestureRotate point f64 f64 u32 u64
  | CallGestureLongpress point u64
  | CallFileDrop point "string list"
  | CallKeyboardShortcut string
  | CallKeyboardIme string string
  | CallDeadKey string char
  | CallPreciseScroll "element option" f64 f64 bool scroll_easing
  | CallTabTraversal string u32
  | CallRightClickMenu element "string list"
  | CallScreenshot string "u8 option" bool "elem_bbox option"
  | CallReadText "element option"
  | CallEval string bool
  | CallStorage string storage_script
  | CallCdp string "json option"
  | CallRoot string json
  | CallSetViewport u32 u32 f64 bool
  | CallSetUserAgent string "string option" "string option"
  | CallSetGeo f64 f64 f64
  | CallSetDarkMode bool
  | CallTool string "json list"

subsection \<open>The state of a session's tools\<close>

datatype vision_mode = VisionOff | OnDemand | Continuous

record session_view =
  sv_session_id :: string
  sv_capabilities :: "string list"
  sv_vision_mode :: vision_mode

text \<open>
  A vision pipeline as the handlers see it: how many frames it has taken in, and the last decoded one.
\<close>

record vision_pipeline =
  vp_frames :: nat
  vp_last :: "json option"

record tool_state =
  ts_pages :: "(string \<times> page_state) list"
  ts_calls :: "(string \<times> page_call) list"
  ts_pipelines :: "(string \<times> vision_pipeline) list"
  ts_storage :: "(string \<times> (string \<times> string) list) list"

record tool_env =
  te_sha :: "string \<Rightarrow> string"
  te_snap :: "string \<Rightarrow> tool_state \<Rightarrow> snap_io"
  te_answer :: "string \<Rightarrow> page_call \<Rightarrow> tool_state \<Rightarrow> string + json"
  te_after :: "string \<Rightarrow> page_call \<Rightarrow> tool_state \<Rightarrow> page_state"
  te_default_realistic :: bool
  te_path_exists :: "string \<Rightarrow> bool"
  te_center :: "f64 \<Rightarrow> f64 \<Rightarrow> f64"
  te_current_session :: "session_view option"
  te_user_data_root :: "string option"
  te_temp_dir :: string
  te_print :: "json \<Rightarrow> string"
  te_parse :: "string \<Rightarrow> string + json"
  te_area :: "string \<Rightarrow> string \<Rightarrow> tool_state \<Rightarrow> string option"
  te_set_fits :: "string \<Rightarrow> string \<Rightarrow> string \<Rightarrow> tool_state \<Rightarrow> bool"
  te_timed_out :: "u64 \<Rightarrow> page_call \<Rightarrow> tool_state \<Rightarrow> bool"

type_synonym 'a tool = "tool_state \<Rightarrow> (router_error + 'a) \<times> tool_state"

definition tret :: "'a \<Rightarrow> 'a tool" where "tret x = (\<lambda>s. (Inr x, s))"

definition tfail :: "router_error \<Rightarrow> 'a tool" where "tfail e = (\<lambda>s. (Inl e, s))"

definition tlift :: "router_error + 'a \<Rightarrow> 'a tool" where "tlift r = (\<lambda>s. (r, s))"

definition tbind :: "'a tool \<Rightarrow> ('a \<Rightarrow> 'b tool) \<Rightarrow> 'b tool" where
  "tbind m f = (\<lambda>s. case m s of (Inl e, s') \<Rightarrow> (Inl e, s') | (Inr x, s') \<Rightarrow> f x s')"

text \<open>\<^verbatim>\<open>ok_or_else\<close> on a missing value.\<close>

definition need :: "router_error \<Rightarrow> 'a option \<Rightarrow> router_error + 'a" where
  "need e v = (case v of Some x \<Rightarrow> Inr x | None \<Rightarrow> Inl e)"

text \<open>\<^verbatim>\<open>collect::<Result<_, _>>\<close>: the first error wins.\<close>

fun collect_results :: "('a \<Rightarrow> router_error + 'b) \<Rightarrow> 'a list \<Rightarrow> router_error + 'b list" where
  "collect_results f [] = Inr []"
| "collect_results f (x # xs) =
     (case f x of Inl e \<Rightarrow> Inl e | Inr y \<Rightarrow> map_sum id (Cons y) (collect_results f xs))"

text \<open>A call to the browser: it is recorded, and leaves the page as the browser leaves it.\<close>

definition perform :: "tool_env \<Rightarrow> string \<Rightarrow> page_call \<Rightarrow> (string \<Rightarrow> router_error) \<Rightarrow> json tool" where
  "perform env tab c on_error s =
     (map_sum on_error id (te_answer env tab c s),
      s\<lparr> ts_pages := AList.update tab (te_after env tab c s) (ts_pages s), ts_calls := ts_calls s @ [(tab, c)] \<rparr>)"

definition ok_true :: json where "ok_true = JObject [(''ok'', JBool True)]"

text \<open>The last call of a handler, and how its answer becomes the result.\<close>

definition run_with ::
  "tool_env \<Rightarrow> string \<Rightarrow> page_call \<Rightarrow> (string \<Rightarrow> router_error) \<Rightarrow> (json \<Rightarrow> json) \<Rightarrow> json tool" where
  "run_with env tab c on_error result = tbind (perform env tab c on_error) (\<lambda>v. tret (result v))"

definition run_ok :: "tool_env \<Rightarrow> string \<Rightarrow> page_call \<Rightarrow> string \<Rightarrow> json tool" where
  "run_ok env tab c context = run_with env tab c (\<lambda>e. internal (context @ '': '' @ e)) (\<lambda>_. ok_true)"

subsection \<open>Parameters\<close>

definition required_str :: "json \<Rightarrow> string \<Rightarrow> router_error + string" where
  "required_str params field = need (invalid_params (''missing '' @ field)) (get_str field params)"

definition get_f64 :: "string \<Rightarrow> json \<Rightarrow> f64 option" where
  "get_f64 k v = Option.bind (jget k v) as_f64"

definition get_i64 :: "string \<Rightarrow> json \<Rightarrow> int option" where
  "get_i64 k v = Option.bind (jget k v) as_i64"

definition get_array :: "string \<Rightarrow> json \<Rightarrow> json list option" where
  "get_array k v = Option.bind (jget k v) as_array"

definition required_f64 :: "json \<Rightarrow> string \<Rightarrow> router_error + f64" where
  "required_f64 params field = need (invalid_params (field @ '' must be a number'')) (get_f64 field params)"

definition u32_param :: "json \<Rightarrow> string \<Rightarrow> u64 \<Rightarrow> u32" where
  "u32_param params field d = ucast (or_default d (get_u64 field params))"

definition json_type_name :: "json \<Rightarrow> string" where
  "json_type_name v =
     (case v of JNull \<Rightarrow> ''null'' | JBool _ \<Rightarrow> ''bool'' | JPos _ \<Rightarrow> ''number'' | JNeg _ \<Rightarrow> ''number'' | JFloat _ \<Rightarrow> ''number''
      | JString _ \<Rightarrow> ''string'' | JArray _ \<Rightarrow> ''array'' | JObject _ \<Rightarrow> ''object'')"

datatype wait_until = WaitLoad | WaitDomContentLoaded | WaitNetworkIdle | WaitNone

definition parse_wait_until :: "json option \<Rightarrow> router_error + wait_until" where
  "parse_wait_until v =
     (case v of
        None \<Rightarrow> Inr WaitNone
      | Some JNull \<Rightarrow> Inr WaitNone
      | Some (JString s) \<Rightarrow>
          if s = ''load'' then Inr WaitLoad
          else if s = ''domcontentloaded'' then Inr WaitDomContentLoaded
          else if s = ''networkidle'' then Inr WaitNetworkIdle
          else Inl (invalid_params (''invalid wait_until '' @ debug_str s @ ''; expected one of: ''
                 @ debug_str ''load'' @ '', '' @ debug_str ''domcontentloaded'' @ '', '' @ debug_str ''networkidle''))
      | Some other \<Rightarrow> Inl (invalid_params (''invalid wait_until: expected string, got '' @ json_type_name other)))"

subsection \<open>Tabs, snapshot numbers and references\<close>

definition locate_page :: "json \<Rightarrow> string tool" where
  "locate_page params s =
     (case required_str params ''tab_id'' of
        Inl e \<Rightarrow> (Inl e, s)
      | Inr tab \<Rightarrow> if map_of (ts_pages s) tab = None then (Inl tab_not_found, s) else (Inr tab, s))"

definition page_of :: "string \<Rightarrow> tool_state \<Rightarrow> page_state" where
  "page_of tab s = or_default (page_new tab) (map_of (ts_pages s) tab)"

definition current_snapshot_seq :: "page_state \<Rightarrow> nat" where
  "current_snapshot_seq p = ps_seq p"

definition stale_seq :: "nat \<Rightarrow> u64 \<Rightarrow> router_error" where
  "stale_seq current provided =
     router_error_of ElementStale
       (''ref minted from snapshot_seq='' @ nat_to_dec (unat provided) @ ''; page is at snapshot_seq=''
        @ nat_to_dec current)
       (Some (JObject [(''expected'', JPos (of_nat current)), (''got'', JPos provided)]))"

definition validate_snapshot_seq :: "string \<Rightarrow> json \<Rightarrow> u64 option tool" where
  "validate_snapshot_seq tab params s =
     (case jget ''snapshot_seq'' params of
        None \<Rightarrow> (Inr None, s)
      | Some raw \<Rightarrow>
          (case as_u64 raw of
             None \<Rightarrow> (Inl (invalid_params ''snapshot_seq must be a u64''), s)
           | Some provided \<Rightarrow>
               if unat provided < current_snapshot_seq (page_of tab s)
               then (Inl (stale_seq (current_snapshot_seq (page_of tab s)) provided), s)
               else (Inr (Some provided), s)))"

text \<open>The snapshot a handler takes before it acts on an element.\<close>

definition take_page_snapshot :: "tool_env \<Rightarrow> string \<Rightarrow> string \<Rightarrow> snapshot tool" where
  "take_page_snapshot env tab context s =
     (case page_snapshot (te_sha env) (te_snap env tab s) (page_of tab s) of
        (r, p) \<Rightarrow> (map_sum (\<lambda>e. internal (context @ '': '' @ e)) id r,
                   s\<lparr> ts_pages := AList.update tab p (ts_pages s) \<rparr>))"

definition resolve_ref_str :: "element list \<Rightarrow> string \<Rightarrow> router_error + element" where
  "resolve_ref_str elements r =
     need (router_error_of ElementStale (''ref '' @ debug_str r @ '' not found in current snapshot'') None)
       (find (\<lambda>e. el_ref e = r) elements)"

definition resolve_ref :: "element list \<Rightarrow> json \<Rightarrow> router_error + element" where
  "resolve_ref elements params =
     (case need (invalid_params ''missing ref'') (get_str ''ref'' params) of
        Inl e \<Rightarrow> Inl e | Inr r \<Rightarrow> resolve_ref_str elements r)"

definition deterministic_seed :: "snapshot \<Rightarrow> u64" where
  "deterministic_seed snap =
     xor (xor 0x9E3779B97F4A7C15 (of_nat (sn_seq snap) * 0xBF58476D1CE4E5B9))
         (of_nat (length (utf8_bytes (sn_url snap))) * 0x94D049BB133111EB)"

text \<open>The three steps together: check the number, take a snapshot, find the element.\<close>

definition fresh_snapshot :: "tool_env \<Rightarrow> string \<Rightarrow> json \<Rightarrow> string \<Rightarrow> snapshot tool" where
  "fresh_snapshot env tab params context =
     tbind (validate_snapshot_seq tab params) (\<lambda>_. take_page_snapshot env tab context)"

definition optional_element :: "tool_env \<Rightarrow> string \<Rightarrow> json \<Rightarrow> string \<Rightarrow> element option tool" where
  "optional_element env tab params context =
     (if jget ''ref'' params \<noteq> None
      then tbind (fresh_snapshot env tab params context)
             (\<lambda>snap. tbind (tlift (resolve_ref (sn_elements snap) params)) (\<lambda>e. tret (Some e)))
      else tret None)"

subsection \<open>Rejections before any call\<close>

text \<open>
  The codes with which a request is turned away; a handler \<open>rejects\<close> when it ends with one of them only before
  it has called the browser.
\<close>

definition is_rejection :: "error_code \<Rightarrow> bool" where
  "is_rejection c \<longleftrightarrow> c \<in> {InvalidParams, ElementStale, TabNotFound, PermissionDenied}"

definition silent :: "'a tool \<Rightarrow> bool" where
  "silent m \<longleftrightarrow> (\<forall>s. ts_calls (snd (m s)) = ts_calls s)"

definition late :: "'a tool \<Rightarrow> bool" where
  "late m \<longleftrightarrow> (\<forall>s e. fst (m s) = Inl e \<longrightarrow> \<not> is_rejection (re_code e))"

definition rejects :: "'a tool \<Rightarrow> bool" where
  "rejects m \<longleftrightarrow> (\<forall>s e. fst (m s) = Inl e \<and> is_rejection (re_code e) \<longrightarrow> ts_calls (snd (m s)) = ts_calls s)"

named_theorems tool_intros

lemma silent_tret [tool_intros]: "silent (tret x)"
  by (simp add: silent_def tret_def)

lemma silent_tfail [tool_intros]: "silent (tfail e)"
  by (simp add: silent_def tfail_def)

lemma silent_tlift [tool_intros]: "silent (tlift r)"
  by (simp add: silent_def tlift_def)

lemma silent_tbind [tool_intros]: "silent m \<Longrightarrow> (\<And>x. silent (f x)) \<Longrightarrow> silent (tbind m f)"
  by (auto simp: silent_def tbind_def split: prod.split sum.split) (metis snd_conv)+

lemma silent_locate_page [tool_intros]: "silent (locate_page params)"
  by (auto simp: silent_def locate_page_def split: sum.split)

lemma silent_validate [tool_intros]: "silent (validate_snapshot_seq tab params)"
  by (auto simp: silent_def validate_snapshot_seq_def split: option.split)

lemma silent_take_snapshot [tool_intros]: "silent (take_page_snapshot env tab context)"
  by (auto simp: silent_def take_page_snapshot_def split: prod.split)

lemma silent_fresh_snapshot [tool_intros]: "silent (fresh_snapshot env tab params context)"
  unfolding fresh_snapshot_def by (intro tool_intros)

lemma silent_optional_element [tool_intros]: "silent (optional_element env tab params context)"
  unfolding optional_element_def by (simp add: tool_intros)

lemma late_tret: "late (tret x)"
  by (simp add: late_def tret_def)

lemma late_tbind: "late m \<Longrightarrow> (\<And>x. late (f x)) \<Longrightarrow> late (tbind m f)"
  by (auto simp: late_def tbind_def split: prod.splits sum.splits) (metis fst_conv)+

lemma late_perform: "(\<And>e. \<not> is_rejection (re_code (f e))) \<Longrightarrow> late (perform env tab c f)"
  by (auto simp: late_def perform_def map_sum_def split: sum.splits)

lemma late_tfail: "\<not> is_rejection (re_code e) \<Longrightarrow> late (tfail e)"
  by (simp add: late_def tfail_def)

lemma internal_not_rejection [simp]: "\<not> is_rejection (re_code (internal msg))"
  by (simp add: is_rejection_def router_errors)

lemma late_run_with: "(\<And>e. \<not> is_rejection (re_code (f e))) \<Longrightarrow> late (run_with env tab c f g)"
  unfolding run_with_def by (intro late_tbind late_perform late_tret)

lemma late_run_ok: "late (run_ok env tab c context)"
  by (simp add: run_ok_def late_run_with)

lemma rejects_silent: "silent m \<Longrightarrow> rejects m"
  by (simp add: silent_def rejects_def)

lemma rejects_late: "late m \<Longrightarrow> rejects m"
  by (auto simp: late_def rejects_def)

lemma rejects_tbind: "silent m \<Longrightarrow> (\<And>x. rejects (f x)) \<Longrightarrow> rejects (tbind m f)"
  by (auto simp: silent_def rejects_def tbind_def split: prod.splits sum.splits) (metis fst_conv snd_conv)+

lemma rejects_run_with [tool_intros]:
  "(\<And>e. \<not> is_rejection (re_code (f e))) \<Longrightarrow> rejects (run_with env tab c f g)"
  by (intro rejects_late late_run_with)

lemma rejects_run_ok [tool_intros]: "rejects (run_ok env tab c context)"
  by (intro rejects_late late_run_ok)

lemma rejects_if [tool_intros]: "(b \<Longrightarrow> rejects m) \<Longrightarrow> (\<not> b \<Longrightarrow> rejects n) \<Longrightarrow> rejects (if b then m else n)"
  by simp

lemma rejects_tret [tool_intros]: "rejects (tret x)"
  by (intro rejects_silent tool_intros)

lemma rejects_tfail [tool_intros]: "rejects (tfail e)"
  by (intro rejects_silent tool_intros)

declare rejects_tbind [tool_intros]

subsection \<open>One call at most\<close>

text \<open>A handler that makes no call and fails, or makes one call and does not reject the request afterwards.\<close>

definition acts_once :: "'a tool \<Rightarrow> bool" where
  "acts_once m \<longleftrightarrow>
     (\<forall>s. (isl (fst (m s)) \<and> ts_calls (snd (m s)) = ts_calls s) \<or>
          ((\<exists>c. ts_calls (snd (m s)) = ts_calls s @ [c]) \<and> (\<forall>e. fst (m s) = Inl e \<longrightarrow> \<not> is_rejection (re_code e))))"

named_theorems once_intros

lemma acts_once_run_with [once_intros]:
  "(\<And>e. \<not> is_rejection (re_code (f e))) \<Longrightarrow> acts_once (run_with env tab c f g)"
  by (auto simp: acts_once_def run_with_def tbind_def perform_def tret_def map_sum_def split: sum.splits)

lemma acts_once_run_ok [once_intros]: "acts_once (run_ok env tab c context)"
  by (simp add: run_ok_def acts_once_run_with)

lemma acts_once_tbind [once_intros]:
  assumes "silent m" "\<And>x. acts_once (f x)"
  shows "acts_once (tbind m f)"
  unfolding acts_once_def
proof
  fix s
  obtain r t where m: "m s = (r, t)" by fastforce
  have calls: "ts_calls t = ts_calls s" using assms(1) m by (metis silent_def snd_conv)
  show "(isl (fst (tbind m f s)) \<and> ts_calls (snd (tbind m f s)) = ts_calls s) \<or>
      ((\<exists>c. ts_calls (snd (tbind m f s)) = ts_calls s @ [c]) \<and>
       (\<forall>e. fst (tbind m f s) = Inl e \<longrightarrow> \<not> is_rejection (re_code e)))"
  proof (cases r)
    case (Inl e)
    with m calls show ?thesis by (simp add: tbind_def)
  next
    case (Inr x)
    have "tbind m f s = f x t" using m Inr by (simp add: tbind_def)
    with assms(2) [of x, unfolded acts_once_def, rule_format, of t] calls show ?thesis by simp
  qed
qed

subsection \<open>Snapshot numbers\<close>

text \<open>A handler that leaves the snapshot numbers of all pages alone, when the calls to the browser do.\<close>

definition keeps_seq :: "'a tool \<Rightarrow> bool" where
  "keeps_seq m \<longleftrightarrow> (\<forall>s tab. ps_seq (page_of tab (snd (m s))) = ps_seq (page_of tab s))"

named_theorems keeps_intros

lemma keeps_tlift [keeps_intros]: "keeps_seq (tlift r)"
  by (simp add: keeps_seq_def tlift_def)

lemma keeps_tret [keeps_intros]: "keeps_seq (tret x)"
  by (simp add: keeps_seq_def tret_def)

lemma keeps_tbind [keeps_intros]: "keeps_seq m \<Longrightarrow> (\<And>x. keeps_seq (f x)) \<Longrightarrow> keeps_seq (tbind m f)"
  by (auto simp: keeps_seq_def tbind_def split: prod.split sum.split) (metis snd_conv)+

definition calls_keep_seq :: "tool_env \<Rightarrow> bool" where
  "calls_keep_seq env \<longleftrightarrow> (\<forall>tab c s. ps_seq (te_after env tab c s) = ps_seq (page_of tab s))"

lemma keeps_run_with: "calls_keep_seq env \<Longrightarrow> keeps_seq (run_with env tab c f g)"
  by (auto simp: keeps_seq_def calls_keep_seq_def run_with_def tbind_def perform_def tret_def map_sum_def page_of_def
      update_conv' or_default_def split: sum.split)

lemma keeps_run_ok: "calls_keep_seq env \<Longrightarrow> keeps_seq (run_ok env tab c context)"
  by (simp add: run_ok_def keeps_run_with)

lemma page_snapshot_seq: "ps_seq (snd (page_snapshot sha io p)) = Suc (ps_seq p)"
  by (auto simp: page_snapshot_def do_snapshot_def next_snapshot_seq_def drain_snapshot_extras_def set_delta_anchor_def
      drain_mutation_high_water_def drain_mutation_log_def Let_def split: prod.split option.split sum.split)

text \<open>Whatever follows it, a snapshot taken for an action uses up the next number.\<close>

lemma fresh_snapshot_seq:
  assumes located: "get_str ''tab_id'' params = Some tab" "map_of (ts_pages s) tab = Some p"
    and seq: "get_u64 ''snapshot_seq'' params = Some n" "ps_seq p \<le> unat n"
    and k: "\<And>tab snap. keeps_seq (k tab snap)"
    and m: "m = tbind (locate_page params) (\<lambda>tab. tbind (fresh_snapshot env tab params context) (k tab))"
  shows "ps_seq (page_of tab (snd (m s))) = Suc (ps_seq p)"
proof -
  let ?s1 = "s\<lparr> ts_pages := AList.update tab (snd (page_snapshot (te_sha env) (te_snap env tab s) p)) (ts_pages s) \<rparr>"
  have page: "page_of tab s = p" using located by (simp add: page_of_def or_default_def)
  have s1: "ps_seq (page_of tab ?s1) = Suc (ps_seq p)"
    by (simp add: page_of_def or_default_def update_conv' page_snapshot_seq)
  have "validate_snapshot_seq tab params s = (Inr (Some n), s)"
    using seq page by (auto simp: validate_snapshot_seq_def get_u64_def current_snapshot_seq_def bind_eq_Some_conv)
  then have fresh: "snd (fresh_snapshot env tab params context s) = ?s1"
    using page by (simp add: fresh_snapshot_def tbind_def take_page_snapshot_def case_prod_beta)
  have "locate_page params s = (Inr tab, s)"
    using located by (simp add: locate_page_def required_str_def need_def)
  then have "m s = (case fresh_snapshot env tab params context s of
      (Inl e, t) \<Rightarrow> (Inl e, t) | (Inr snap, t) \<Rightarrow> k tab snap t)"
    by (simp add: m tbind_def)
  then show ?thesis
    using fresh s1 k unfolding keeps_seq_def by (auto split: prod.splits sum.splits)
qed

end
