(* ===== verification/Page_Input.thy ===== *)
theory Page_Input
  imports Router_Core
begin

text \<open>
  The handlers of \<^verbatim>\<open>broker/src/router/page.rs\<close> that read a page or act on it: snapshot, screenshot, text,
  mouse, touch, pointer, gesture and keyboard. Each checks its parameters in the order of the source and ends
  with one call to the browser.
\<close>

subsection \<open>Parameters of the input handlers\<close>

definition parse_modifier_name :: "string \<Rightarrow> int option" where
  "parse_modifier_name name =
     (let n = to_ascii_lowercase (trim name)
      in if n \<in> {''alt'', ''option''} then Some 1
         else if n \<in> {''ctrl'', ''control''} then Some 2
         else if n \<in> {''cmd'', ''meta'', ''command''} then Some 4
         else if n = ''shift'' then Some 8
         else None)"

fun parse_modifier_list :: "int \<Rightarrow> string list \<Rightarrow> string + int" where
  "parse_modifier_list bits [] = Inr bits"
| "parse_modifier_list bits (m # ms) =
     (case parse_modifier_name m of
        None \<Rightarrow> Inl (''unsupported modifier '' @ debug_str m)
      | Some b \<Rightarrow> parse_modifier_list (or bits b) ms)"

definition parse_modifiers :: "json \<Rightarrow> router_error + int" where
  "parse_modifiers params =
     (case get_array ''modifiers'' params of
        None \<Rightarrow> Inr 0
      | Some values \<Rightarrow>
          (case collect_results (\<lambda>v. need (invalid_params ''modifiers must be strings'') (as_str v)) values of
             Inl e \<Rightarrow> Inl e
           | Inr names \<Rightarrow> map_sum invalid_params id (parse_modifier_list 0 names)))"

definition parse_easing :: "json \<Rightarrow> router_error + scroll_easing" where
  "parse_easing params =
     (let e = or_default ''linear'' (get_str ''easing'' params)
      in if e = ''linear'' then Inr Linear
         else if e = ''ease_out'' then Inr EaseOut
         else if e = ''ease_in_out'' then Inr EaseInOut
         else Inl (invalid_params (''unsupported easing '' @ debug_str e)))"

definition parse_button :: "json \<Rightarrow> page_button" where
  "parse_button params =
     (let b = or_default ''left'' (get_str ''button'' params)
      in if b = ''right'' then Right else if b = ''middle'' then Middle else Left)"

text \<open>The order of doubles, on their bit patterns.\<close>

definition f64_key :: "f64 \<Rightarrow> int" where
  "f64_key b = (let m = int (unat b mod 2 ^ 63) in if unat b \<ge> 2 ^ 63 then - m else m)"

definition f64_le :: "f64 \<Rightarrow> f64 \<Rightarrow> bool" where
  "f64_le a b \<longleftrightarrow> \<not> f64_is_nan a \<and> \<not> f64_is_nan b \<and> f64_key a \<le> f64_key b"

definition ranged_f64 :: "json \<Rightarrow> string \<Rightarrow> string \<times> f64 \<Rightarrow> string \<times> f64 \<Rightarrow> router_error + f64 option" where
  "ranged_f64 params field lo hi =
     (case jget field params of
        None \<Rightarrow> Inr None
      | Some value \<Rightarrow>
          (case as_f64 value of
             None \<Rightarrow> Inl (invalid_params (field @ '' must be a number''))
           | Some parsed \<Rightarrow>
               if f64_le (snd lo) parsed \<and> f64_le parsed (snd hi) then Inr (Some parsed)
               else Inl (invalid_params (field @ '' must be in ['' @ fst lo @ '', '' @ fst hi @ '']''))))"

definition ranged_i64 :: "json \<Rightarrow> string \<Rightarrow> string \<times> int \<Rightarrow> string \<times> int \<Rightarrow> router_error + int option" where
  "ranged_i64 params field lo hi =
     (case jget field params of
        None \<Rightarrow> Inr None
      | Some value \<Rightarrow>
          (case as_i64 value of
             None \<Rightarrow> Inl (invalid_params (field @ '' must be an integer''))
           | Some parsed \<Rightarrow>
               if snd lo \<le> parsed \<and> parsed \<le> snd hi then Inr (Some parsed)
               else Inl (invalid_params (field @ '' must be in ['' @ fst lo @ '', '' @ fst hi @ '']''))))"

definition F_ONE :: f64 where "F_ONE = 0x3FF0000000000000"
definition F_MINUS_ONE :: f64 where "F_MINUS_ONE = 0xBFF0000000000000"
definition F_NINETY :: f64 where "F_NINETY = 0x4056800000000000"
definition F_MINUS_NINETY :: f64 where "F_MINUS_NINETY = 0xC056800000000000"

definition parse_pointer :: "json \<Rightarrow> router_error + pointer_details" where
  "parse_pointer params =
     (case ranged_f64 params ''pressure'' (''0'', 0) (''1'', F_ONE) of Inl e \<Rightarrow> Inl e | Inr force \<Rightarrow>
      case ranged_f64 params ''tangential_pressure'' (''-1'', F_MINUS_ONE) (''1'', F_ONE) of Inl e \<Rightarrow> Inl e | Inr tp \<Rightarrow>
      case ranged_f64 params ''tilt_x'' (''-90'', F_MINUS_NINETY) (''90'', F_NINETY) of Inl e \<Rightarrow> Inl e | Inr tx \<Rightarrow>
      case ranged_f64 params ''tilt_y'' (''-90'', F_MINUS_NINETY) (''90'', F_NINETY) of Inl e \<Rightarrow> Inl e | Inr ty \<Rightarrow>
      case ranged_i64 params ''twist'' (''0'', 0) (''359'', 359) of Inl e \<Rightarrow> Inl e | Inr tw \<Rightarrow>
        Inr \<lparr> pd_force = force, pd_tangential_pressure = tp, pd_tilt_x = tx, pd_tilt_y = ty, pd_twist = tw \<rparr>)"

subsection \<open>Answers\<close>

definition json_opt :: "('a \<Rightarrow> json) \<Rightarrow> 'a option \<Rightarrow> json" where
  "json_opt f v = (case v of None \<Rightarrow> JNull | Some x \<Rightarrow> f x)"

definition json_nat :: "nat \<Rightarrow> json" where "json_nat n = JPos (of_nat n)"

definition bbox_to_json :: "elem_bbox \<Rightarrow> json" where
  "bbox_to_json b = JObject [(''x'', json_f64 (bb_x b)), (''y'', json_f64 (bb_y b)), (''w'', json_f64 (bb_w b)),
     (''h'', json_f64 (bb_h b))]"

definition state_to_json :: "elem_state \<Rightarrow> json" where
  "state_to_json st = JObject [(''checked'', json_opt JBool (es_checked st)), (''expanded'', json_opt JBool (es_expanded st)),
     (''pressed'', json_opt JBool (es_pressed st)), (''selected'', json_opt JBool (es_selected st)),
     (''disabled'', JBool (es_disabled st))]"

definition element_to_json :: "element \<Rightarrow> json" where
  "element_to_json e =
     JObject [(''index'', json_nat (el_index e)), (''ref'', JString (el_ref e)), (''role'', JString (el_role e)),
       (''name'', JString (el_name e)), (''value'', json_opt JString (el_value e)),
       (''description'', json_opt JString (el_description e)), (''state'', state_to_json (el_state e)),
       (''bbox'', bbox_to_json (el_bbox e)), (''interactable'', JBool (el_interactable e)),
       (''frame_id'', JString (el_frame_id e)), (''stable_id'', JString (el_stable_id e))]"

definition network_to_json :: "nat \<times> u64 \<times> u64 \<Rightarrow> json" where
  "network_to_json n = JObject [(''in_flight'', json_nat (fst n)), (''completed_since_last'', JPos (fst (snd n))),
     (''failed_since_last'', JPos (snd (snd n)))]"

definition snapshot_to_json :: "snapshot \<Rightarrow> json" where
  "snapshot_to_json sn =
     JObject [(''snapshot_seq'', json_nat (sn_seq sn)), (''base_seq'', json_nat (sn_base_seq sn)),
       (''partial'', JBool (sn_partial sn)), (''anchor_stale'', JBool (sn_anchor_stale sn)),
       (''url'', JString (sn_url sn)), (''title'', JString (sn_title sn)),
       (''elements'', JArray (map element_to_json (sn_elements sn))), (''tree'', sn_tree sn),
       (''console'', JArray (sn_console sn)), (''exceptions'', JArray (sn_exceptions sn)),
       (''network'', network_to_json (sn_network sn)), (''focused_ref'', json_opt JString (sn_focused_ref sn)),
       (''viewport'', sn_viewport sn)]"

definition mutation_to_json :: "mutation_record \<Rightarrow> json" where
  "mutation_to_json r = JObject [(''seq'', json_nat (mu_seq r)), (''kind'', JString (mu_kind r)),
     (''tag'', JString (mu_tag r)), (''cb'', JString (mu_cb r))]"

fun response_to_json :: "snapshot_response \<Rightarrow> json" where
  "response_to_json (Full sn) = snapshot_to_json sn"
| "response_to_json (Delta d) =
     JObject [(''snapshot_seq'', json_nat (sd_seq d)), (''base_seq'', json_nat (sd_base_seq d)),
       (''partial'', JBool (sd_partial d)), (''mutations'', JArray (map mutation_to_json (sd_mutations d))),
       (''url'', JString (sd_url d)), (''title'', JString (sd_title d))]"

subsection \<open>Reading a page\<close>

definition handle_snapshot :: "tool_env \<Rightarrow> json \<Rightarrow> json tool" where
  "handle_snapshot env params =
     tbind (locate_page params) (\<lambda>tab s.
       let since = map_option unat (get_u64 ''since_seq'' params);
           context = (if since = None then ''snapshot'' else ''snapshot_delta'')
       in case take_snapshot (te_sha env) (te_snap env tab s) since (page_of tab s) of
            (r, p) \<Rightarrow> (map_sum (\<lambda>e. internal (context @ '': '' @ e)) response_to_json r,
                       s\<lparr> ts_pages := AList.update tab p (ts_pages s) \<rparr>))"

definition handle_screenshot :: "tool_env \<Rightarrow> json \<Rightarrow> json tool" where
  "handle_screenshot env params =
     tbind (locate_page params) (\<lambda>tab.
       let format = or_default ''png'' (get_str ''format'' params);
           quality = map_option ucast (get_u64 ''quality'' params);
           cbv = or_default False (get_bool ''capture_beyond_viewport'' params)
       in tbind (optional_element env tab params ''screenshot pre-snapshot'') (\<lambda>elem.
          run_with env tab (CallScreenshot format quality cbv (map_option el_bbox elem)) (\<lambda>e. internal (''screenshot: '' @ e))
            (\<lambda>data. JObject [(''format'', JString format), (''data_base64'', data), (''width'', JPos 0), (''height'', JPos 0)])))"

definition handle_read_text :: "tool_env \<Rightarrow> json \<Rightarrow> json tool" where
  "handle_read_text env params =
     tbind (locate_page params) (\<lambda>tab.
     tbind (optional_element env tab params ''read_text pre-snapshot'') (\<lambda>elem.
     run_with env tab (CallReadText elem) (\<lambda>e. internal (''read_text: '' @ e)) (\<lambda>text. JObject [(''text'', text)])))"

subsection \<open>Mouse and keyboard\<close>

text \<open>An element without area is reported as not actionable.\<close>

definition actionable_error :: "string \<Rightarrow> string \<Rightarrow> router_error" where
  "actionable_error context e =
     (if contains_text ''zero area'' e then not_actionable else internal (context @ '': '' @ e))"

definition handle_click :: "tool_env \<Rightarrow> json \<Rightarrow> json tool" where
  "handle_click env params =
     tbind (locate_page params) (\<lambda>tab.
     tbind (fresh_snapshot env tab params ''click pre-snapshot'') (\<lambda>snap.
     tbind (tlift (resolve_ref (sn_elements snap) params)) (\<lambda>elem.
     run_with env tab
       (CallClick elem (parse_button params) (u32_param params ''click_count'' 1)
          (or_default (te_default_realistic env) (get_bool ''realistic'' params)) (deterministic_seed snap))
       (actionable_error ''click'') (\<lambda>nav. JObject [(''ok'', JBool True), (''navigation'', nav)]))))"

definition handle_type :: "tool_env \<Rightarrow> json \<Rightarrow> json tool" where
  "handle_type env params =
     tbind (locate_page params) (\<lambda>tab.
     tbind (fresh_snapshot env tab params ''type pre-snapshot'') (\<lambda>snap.
     tbind (tlift (resolve_ref (sn_elements snap) params)) (\<lambda>elem.
     tbind (tlift (required_str params ''text'')) (\<lambda>text.
     run_ok env tab
       (CallTypeText elem text (get_u64 ''delay_ms'' params) (or_default False (get_bool ''clear_first'' params))
          (deterministic_seed snap)) ''type''))))"

definition handle_keypress :: "tool_env \<Rightarrow> json \<Rightarrow> json tool" where
  "handle_keypress env params =
     tbind (locate_page params) (\<lambda>tab.
     tbind (tlift (required_str params ''key'')) (\<lambda>key.
     tbind (tlift (parse_modifiers params)) (\<lambda>modifiers.
     run_ok env tab (CallKeypress key modifiers) ''keypress'')))"

definition handle_scroll :: "tool_env \<Rightarrow> json \<Rightarrow> json tool" where
  "handle_scroll env params =
     tbind (locate_page params) (\<lambda>tab.
     tbind (optional_element env tab params ''scroll pre-snapshot'') (\<lambda>elem.
     run_ok env tab (CallScroll elem (or_default 0 (get_f64 ''dx'' params)) (or_default 0 (get_f64 ''dy'' params))) ''scroll''))"

definition handle_hover :: "tool_env \<Rightarrow> json \<Rightarrow> json tool" where
  "handle_hover env params =
     tbind (locate_page params) (\<lambda>tab.
     tbind (fresh_snapshot env tab params ''hover pre-snapshot'') (\<lambda>snap.
     tbind (tlift (resolve_ref (sn_elements snap) params)) (\<lambda>elem.
     run_with env tab (CallHover elem) (actionable_error ''hover'') (\<lambda>_. ok_true))))"

definition handle_drag :: "tool_env \<Rightarrow> json \<Rightarrow> json tool" where
  "handle_drag env params =
     tbind (locate_page params) (\<lambda>tab.
     tbind (fresh_snapshot env tab params ''drag pre-snapshot'') (\<lambda>snap.
     tbind (tlift (need (invalid_params ''from_ref'') (get_str ''from_ref'' params))) (\<lambda>from_ref.
     tbind (tlift (need (invalid_params ''to_ref'') (get_str ''to_ref'' params))) (\<lambda>to_ref.
     tbind (tlift (resolve_ref_str (sn_elements snap) from_ref)) (\<lambda>src.
     tbind (tlift (resolve_ref_str (sn_elements snap) to_ref)) (\<lambda>dst.
     run_ok env tab (CallDrag src dst (deterministic_seed snap)) ''drag''))))))"

definition handle_keyboard_shortcut :: "tool_env \<Rightarrow> json \<Rightarrow> json tool" where
  "handle_keyboard_shortcut env params =
     tbind (locate_page params) (\<lambda>tab.
     tbind (tlift (required_str params ''accel'')) (\<lambda>accel.
     run_ok env tab (CallKeyboardShortcut accel) ''keyboard.shortcut''))"

definition handle_keyboard_ime :: "tool_env \<Rightarrow> json \<Rightarrow> json tool" where
  "handle_keyboard_ime env params =
     tbind (locate_page params) (\<lambda>tab.
     tbind (tlift (required_str params ''composition_string'')) (\<lambda>composition.
     run_ok env tab (CallKeyboardIme composition (or_default [] (get_str ''commit'' params))) ''keyboard.ime''))"

definition one_char :: "string \<Rightarrow> router_error + char" where
  "one_char s = (case s of [c] \<Rightarrow> Inr c | _ \<Rightarrow> Inl (invalid_params ''base must be one character''))"

definition handle_dead_key :: "tool_env \<Rightarrow> json \<Rightarrow> json tool" where
  "handle_dead_key env params =
     tbind (locate_page params) (\<lambda>tab.
     tbind (tlift (required_str params ''accent'')) (\<lambda>accent.
     tbind (tlift (required_str params ''base'')) (\<lambda>base_str.
     tbind (tlift (one_char base_str)) (\<lambda>base.
     run_with env tab (CallDeadKey accent base) (\<lambda>e. internal (''dead_key: '' @ e))
       (\<lambda>composed. JObject [(''ok'', JBool True), (''text'', composed)])))))"

definition handle_scroll_precise :: "tool_env \<Rightarrow> json \<Rightarrow> json tool" where
  "handle_scroll_precise env params =
     tbind (locate_page params) (\<lambda>tab.
     tbind (optional_element env tab params ''scroll.precise pre-snapshot'') (\<lambda>elem.
     tbind (tlift (parse_easing params)) (\<lambda>easing.
     run_ok env tab
       (CallPreciseScroll elem (or_default 0 (get_f64 ''dx'' params)) (or_default 0 (get_f64 ''dy'' params))
          (or_default False (get_bool ''momentum'' params)) easing) ''scroll.precise'')))"

definition parse_direction :: "json \<Rightarrow> router_error + string" where
  "parse_direction params =
     (let d = or_default ''forward'' (get_str ''direction'' params)
      in if d \<in> {''forward'', ''backward''} then Inr d
         else Inl (invalid_params (''unsupported direction '' @ debug_str d)))"

definition handle_tab_traversal :: "tool_env \<Rightarrow> json \<Rightarrow> json tool" where
  "handle_tab_traversal env params =
     tbind (locate_page params) (\<lambda>tab.
     tbind (tlift (parse_direction params)) (\<lambda>direction.
     run_ok env tab (CallTabTraversal direction (u32_param params ''count'' 1)) ''tab_traversal''))"

definition string_items :: "string \<Rightarrow> json \<Rightarrow> router_error + string list" where
  "string_items field params =
     (case need (invalid_params (field @ '' must be an array'')) (get_array field params) of
        Inl e \<Rightarrow> Inl e
      | Inr values \<Rightarrow>
          collect_results (\<lambda>v. need (invalid_params (field @ '' must contain strings'')) (as_str v)) values)"

definition handle_right_click_menu_navigate :: "tool_env \<Rightarrow> json \<Rightarrow> json tool" where
  "handle_right_click_menu_navigate env params =
     tbind (locate_page params) (\<lambda>tab.
     tbind (fresh_snapshot env tab params ''context-menu pre-snapshot'') (\<lambda>snap.
     tbind (tlift (resolve_ref (sn_elements snap) params)) (\<lambda>elem.
     tbind (tlift (string_items ''item_path'' params)) (\<lambda>item_path.
     run_ok env tab (CallRightClickMenu elem item_path) ''right_click_menu_navigate''))))"

definition file_path_item :: "tool_env \<Rightarrow> json \<Rightarrow> router_error + string" where
  "file_path_item env v =
     (case need (invalid_params ''file_paths must contain strings'') (as_str v) of
        Inl e \<Rightarrow> Inl e
      | Inr path \<Rightarrow> if te_path_exists env path then Inr path
                    else Inl (invalid_params (''file path does not exist: '' @ path)))"

definition handle_file_drop :: "tool_env \<Rightarrow> json \<Rightarrow> json tool" where
  "handle_file_drop env params =
     tbind (locate_page params) (\<lambda>tab.
     tbind (fresh_snapshot env tab params ''file_drop pre-snapshot'') (\<lambda>snap.
     tbind (tlift (required_str params ''target_ref'')) (\<lambda>r.
     tbind (tlift (resolve_ref_str (sn_elements snap) r)) (\<lambda>elem.
     tbind (tlift (need (invalid_params ''file_paths must be an array'') (get_array ''file_paths'' params))) (\<lambda>values.
     tbind (tlift (collect_results (file_path_item env) values)) (\<lambda>file_paths.
     run_ok env tab
       (CallFileDrop (te_center env (bb_x (el_bbox elem)) (bb_w (el_bbox elem)),
                      te_center env (bb_y (el_bbox elem)) (bb_h (el_bbox elem))) file_paths) ''drag.file_drop''))))))"

subsection \<open>Touch, pointer and gestures\<close>

definition handle_touch_tap :: "tool_env \<Rightarrow> json \<Rightarrow> json tool" where
  "handle_touch_tap env params =
     tbind (locate_page params) (\<lambda>tab.
     tbind (tlift (required_f64 params ''x'')) (\<lambda>x.
     tbind (tlift (required_f64 params ''y'')) (\<lambda>y.
     run_ok env tab (CallTouchTap x y (or_default 50 (get_u64 ''duration_ms'' params)) (u32_param params ''tap_count'' 1))
       ''touch.tap'')))"

definition handle_touch_swipe :: "tool_env \<Rightarrow> json \<Rightarrow> json tool" where
  "handle_touch_swipe env params =
     tbind (locate_page params) (\<lambda>tab.
     tbind (tlift (required_f64 params ''start_x'')) (\<lambda>start_x.
     tbind (tlift (required_f64 params ''start_y'')) (\<lambda>start_y.
     tbind (tlift (required_f64 params ''end_x'')) (\<lambda>end_x.
     tbind (tlift (required_f64 params ''end_y'')) (\<lambda>end_y.
     run_ok env tab
       (CallTouchSwipe (start_x, start_y) (end_x, end_y) (u32_param params ''steps'' 10)
          (or_default 180 (get_u64 ''duration_ms'' params))) ''touch.swipe'')))))"

text \<open>The two-finger handlers: a centre, two more numbers, steps and a duration.\<close>

definition two_finger ::
  "string \<Rightarrow> string \<Rightarrow> (point \<Rightarrow> f64 \<Rightarrow> f64 \<Rightarrow> u32 \<Rightarrow> u64 \<Rightarrow> page_call) \<Rightarrow> string \<Rightarrow> tool_env \<Rightarrow> json \<Rightarrow> json tool" where
  "two_finger a b c context env params =
     tbind (locate_page params) (\<lambda>tab.
     tbind (tlift (required_f64 params ''center_x'')) (\<lambda>x.
     tbind (tlift (required_f64 params ''center_y'')) (\<lambda>y.
     tbind (tlift (required_f64 params a)) (\<lambda>p.
     tbind (tlift (required_f64 params b)) (\<lambda>q.
     run_ok env tab (c (x, y) p q (u32_param params ''steps'' 10) (or_default 180 (get_u64 ''duration_ms'' params)))
       context)))))"

definition handle_touch_pinch :: "tool_env \<Rightarrow> json \<Rightarrow> json tool" where
  "handle_touch_pinch = two_finger ''start_radius'' ''end_radius'' CallTouchPinch ''touch.pinch''"

definition handle_touch_rotate :: "tool_env \<Rightarrow> json \<Rightarrow> json tool" where
  "handle_touch_rotate = two_finger ''radius'' ''angle_deg'' CallTouchRotate ''touch.rotate''"

definition handle_gesture_pinch :: "tool_env \<Rightarrow> json \<Rightarrow> json tool" where
  "handle_gesture_pinch = two_finger ''start_radius'' ''scale_factor'' CallGesturePinch ''gesture.pinch''"

definition handle_gesture_rotate :: "tool_env \<Rightarrow> json \<Rightarrow> json tool" where
  "handle_gesture_rotate = two_finger ''radius'' ''angle_deg'' CallGestureRotate ''gesture.rotate''"

definition handle_gesture_longpress :: "tool_env \<Rightarrow> json \<Rightarrow> json tool" where
  "handle_gesture_longpress env params =
     tbind (locate_page params) (\<lambda>tab.
     tbind (tlift (required_f64 params ''x'')) (\<lambda>x.
     tbind (tlift (required_f64 params ''y'')) (\<lambda>y.
     run_ok env tab (CallGestureLongpress (x, y) (or_default 500 (get_u64 ''duration_ms'' params))) ''gesture.longpress'')))"

definition handle_pointer_press :: "tool_env \<Rightarrow> json \<Rightarrow> json tool" where
  "handle_pointer_press env params =
     tbind (locate_page params) (\<lambda>tab.
     tbind (tlift (required_f64 params ''x'')) (\<lambda>x.
     tbind (tlift (required_f64 params ''y'')) (\<lambda>y.
     tbind (tlift (parse_pointer params)) (\<lambda>pointer.
     run_ok env tab (CallPointerPress (x, y) (parse_button params) (u32_param params ''click_count'' 1) pointer)
       ''pointer.press''))))"

definition handle_pointer_move :: "tool_env \<Rightarrow> json \<Rightarrow> json tool" where
  "handle_pointer_move env params =
     tbind (locate_page params) (\<lambda>tab.
     tbind (tlift (required_f64 params ''x'')) (\<lambda>x.
     tbind (tlift (required_f64 params ''y'')) (\<lambda>y.
     tbind (tlift (parse_pointer params)) (\<lambda>pointer.
     run_ok env tab (CallPointerMove (x, y) (or_default 1 (get_i64 ''buttons'' params)) pointer) ''pointer.move''))))"

definition handle_pointer_release :: "tool_env \<Rightarrow> json \<Rightarrow> json tool" where
  "handle_pointer_release env params =
     tbind (locate_page params) (\<lambda>tab.
     tbind (tlift (required_f64 params ''x'')) (\<lambda>x.
     tbind (tlift (required_f64 params ''y'')) (\<lambda>y.
     tbind (tlift (parse_pointer params)) (\<lambda>pointer.
     run_ok env tab (CallPointerRelease (x, y) (parse_button params) (u32_param params ''click_count'' 1) pointer)
       ''pointer.release''))))"

subsection \<open>The table\<close>

text \<open>The handlers that act on the element of a reference.\<close>

definition ref_handlers :: "(string \<times> (tool_env \<Rightarrow> json \<Rightarrow> json tool)) list" where
  "ref_handlers =
     [(''page.click'', handle_click), (''page.type'', handle_type), (''page.hover'', handle_hover),
      (''page.drag'', handle_drag), (''page.drag.file_drop'', handle_file_drop),
      (''page.right_click_menu_navigate'', handle_right_click_menu_navigate)]"

text \<open>The handlers for which the reference is optional.\<close>

definition optional_ref_handlers :: "(string \<times> (tool_env \<Rightarrow> json \<Rightarrow> json tool)) list" where
  "optional_ref_handlers =
     [(''page.screenshot'', handle_screenshot), (''page.read_text'', handle_read_text), (''page.scroll'', handle_scroll),
      (''page.scroll.precise'', handle_scroll_precise)]"

definition plain_input_handlers :: "(string \<times> (tool_env \<Rightarrow> json \<Rightarrow> json tool)) list" where
  "plain_input_handlers =
     [(''page.snapshot'', handle_snapshot), (''page.keypress'', handle_keypress),
      (''page.touch.tap'', handle_touch_tap), (''page.touch.swipe'', handle_touch_swipe),
      (''page.touch.pinch'', handle_touch_pinch), (''page.touch.rotate'', handle_touch_rotate),
      (''page.pointer.press'', handle_pointer_press), (''page.pointer.move'', handle_pointer_move),
      (''page.pointer.release'', handle_pointer_release), (''page.gesture.pinch'', handle_gesture_pinch),
      (''page.gesture.rotate'', handle_gesture_rotate), (''page.gesture.longpress'', handle_gesture_longpress),
      (''page.keyboard.shortcut'', handle_keyboard_shortcut), (''page.keyboard.ime'', handle_keyboard_ime),
      (''page.dead_key'', handle_dead_key), (''page.tab_traversal'', handle_tab_traversal)]"

definition input_handlers :: "(string \<times> (tool_env \<Rightarrow> json \<Rightarrow> json tool)) list" where
  "input_handlers = ref_handlers @ optional_ref_handlers @ plain_input_handlers"

subsection \<open>Rejections\<close>

lemma actionable_not_rejection: "\<not> is_rejection (re_code (actionable_error context e))"
  by (simp add: actionable_error_def is_rejection_def router_errors)

lemma silent_handle_snapshot: "silent (handle_snapshot env params)"
  unfolding handle_snapshot_def
  by (intro tool_intros) (auto simp: silent_def Let_def split: prod.split)

lemma two_finger_once [once_intros]: "acts_once (two_finger a b c context env params)"
  unfolding two_finger_def by (intro once_intros tool_intros)

lemmas ref_handler_defs = handle_click_def handle_type_def handle_hover_def handle_drag_def handle_file_drop_def
  handle_right_click_menu_navigate_def

lemmas optional_ref_handler_defs = handle_screenshot_def handle_read_text_def handle_scroll_def handle_scroll_precise_def

lemmas plain_handler_defs = handle_keypress_def handle_touch_tap_def handle_touch_swipe_def handle_pointer_press_def
  handle_pointer_move_def handle_pointer_release_def handle_gesture_longpress_def handle_keyboard_shortcut_def
  handle_keyboard_ime_def handle_dead_key_def handle_tab_traversal_def handle_touch_pinch_def handle_touch_rotate_def
  handle_gesture_pinch_def handle_gesture_rotate_def

lemma ref_handlers_once: "(name, h) \<in> set ref_handlers \<Longrightarrow> acts_once (h env params)"
  unfolding ref_handlers_def ref_handler_defs
  by (simp, elim disjE conjE; hypsubst; intro once_intros tool_intros actionable_not_rejection)

lemma optional_ref_handlers_once: "(name, h) \<in> set optional_ref_handlers \<Longrightarrow> acts_once (h env params)"
  unfolding optional_ref_handlers_def optional_ref_handler_defs Let_def
  by (simp, elim disjE conjE; hypsubst; intro once_intros tool_intros internal_not_rejection)

lemma plain_input_handlers_once:
  "(name, h) \<in> set plain_input_handlers \<Longrightarrow> name \<noteq> ''page.snapshot'' \<Longrightarrow> acts_once (h env params)"
  unfolding plain_input_handlers_def plain_handler_defs
  by (simp, elim disjE conjE; (simp; fail)?; hypsubst; intro once_intros tool_intros internal_not_rejection)

lemma ref_handlers_bump:
  assumes "(name, h) \<in> set ref_handlers" "calls_keep_seq env"
    and "get_str ''tab_id'' params = Some tab" "map_of (ts_pages s) tab = Some p"
    and "get_u64 ''snapshot_seq'' params = Some n" "ps_seq p \<le> unat n"
  shows "ps_seq (page_of tab (snd (h env params s))) = Suc (ps_seq p)"
  using assms(1)
  unfolding ref_handlers_def ref_handler_defs
  by (simp, elim disjE conjE; hypsubst;
      intro fresh_snapshot_seq [OF assms(3-6) _ refl] keeps_intros keeps_run_with [OF assms(2)] keeps_run_ok [OF assms(2)])

lemma fresh_snapshot_stale:
  assumes "map_of (ts_pages s) tab = Some p" "get_u64 ''snapshot_seq'' params = Some n" "unat n < ps_seq p"
  shows "fresh_snapshot env tab params context s = (Inl (stale_seq (ps_seq p) n), s)"
  using assms
  by (auto simp: fresh_snapshot_def tbind_def validate_snapshot_seq_def get_u64_def bind_eq_Some_conv page_of_def
      or_default_def current_snapshot_seq_def)

lemma locate_page_found:
  "get_str ''tab_id'' params = Some tab \<Longrightarrow> map_of (ts_pages s) tab = Some p \<Longrightarrow> locate_page params s = (Inr tab, s)"
  by (simp add: locate_page_def required_str_def need_def)

text \<open>A browser that answers every call and leaves the page alone, and a page whose last snapshot has number 1.\<close>

definition calm_env :: tool_env where
  "calm_env =
     \<lparr> te_sha = (\<lambda>x. x), te_snap = (\<lambda>_ _. snap_sample_io), te_answer = (\<lambda>_ _ _. Inr JNull),
       te_after = (\<lambda>tab _ s. page_of tab s), te_default_realistic = False, te_path_exists = (\<lambda>_. True),
       te_center = (\<lambda>x _. x), te_current_session = None, te_user_data_root = None, te_temp_dir = ''/tmp'',
       te_print = (\<lambda>_. []), te_parse = (\<lambda>_. Inl []), te_area = (\<lambda>g _ _. Some g), te_set_fits = (\<lambda>_ _ _ _. True),
       te_timed_out = (\<lambda>_ _ _. False) \<rparr>"

definition one_page :: tool_state where
  "one_page = \<lparr> ts_pages = [(''t1'', (page_new ''t1'')\<lparr> ps_seq := 1 \<rparr>)], ts_calls = [], ts_pipelines = [], ts_storage = [] \<rparr>"

definition hover_params :: "u64 \<Rightarrow> json" where
  "hover_params n = JObject [(''tab_id'', JString ''t1''), (''ref'', JString ''e0''), (''snapshot_seq'', JPos n)]"

lemma hover_params_simps [simp]:
  "get_str ''tab_id'' (hover_params n) = Some ''t1''" "get_str ''ref'' (hover_params n) = Some ''e0''"
  "get_u64 ''snapshot_seq'' (hover_params n) = Some n" "jget ''snapshot_seq'' (hover_params n) = Some (JPos n)"
  by (simp_all add: hover_params_def get_str_def get_u64_def)

lemma one_page_pages [simp]: "map_of (ts_pages one_page) ''t1'' = Some ((page_new ''t1'')\<lparr> ps_seq := 1 \<rparr>)"
  by (simp add: one_page_def)

lemma hover_in_ref_handlers: "(''page.hover'', handle_hover) \<in> set ref_handlers"
  by (simp add: ref_handlers_def)

lemma hover_sample: "\<exists>v s'. handle_hover calm_env (hover_params 1) one_page = (Inr v, s')"
proof -
  have "element_ref 0 = ''e0''" by code_simp
  then show ?thesis
    by (simp add: handle_hover_def tbind_def locate_page_found fresh_snapshot_def validate_snapshot_seq_def
        current_snapshot_seq_def page_of_def take_page_snapshot_def calm_env_def page_eval resolve_ref_def
        resolve_ref_str_def need_def tlift_def element_of_def tret_def run_with_def perform_def)
qed

subsection \<open>Properties\<close>

text \<open>
  C28. A stale reference does nothing. A request to any of the handlers that act on an element, with the number
  of a snapshot older than the last one of the page, is answered with the error \<open>ElementStale\<close> that carries
  both numbers; the page and all other state stay as they are and the browser is not called. Handlers with an
  optional reference behave so whenever a reference is given.
\<close>

theorem stale_ref_rejected:
  assumes "(name, h) \<in> set ref_handlers \<or> (name, h) \<in> set optional_ref_handlers \<and> jget ''ref'' params \<noteq> None"
    and "get_str ''tab_id'' params = Some tab" "map_of (ts_pages s) tab = Some p"
    and "get_u64 ''snapshot_seq'' params = Some n" "unat n < ps_seq p"
  shows "h env params s = (Inl (stale_seq (ps_seq p) n), s)"
proof -
  note locate = locate_page_found [OF assms(2,3)]
  note stale = fresh_snapshot_stale [OF assms(3-5)]
  from assms(1) show ?thesis
  proof (elim disjE conjE)
    assume "(name, h) \<in> set ref_handlers"
    then show ?thesis
      unfolding ref_handlers_def ref_handler_defs
      by (simp, elim disjE conjE; hypsubst; simp add: tbind_def locate stale)
  next
    assume "(name, h) \<in> set optional_ref_handlers" "jget ''ref'' params \<noteq> None"
    then show ?thesis
      unfolding optional_ref_handlers_def optional_ref_handler_defs Let_def
      by (simp, elim disjE conjE; hypsubst; simp add: tbind_def locate optional_element_def stale)
  qed
qed

theorem stale_ref_rejected_witness:
  "handle_hover calm_env (hover_params 0) one_page = (Inl (stale_seq 1 0), one_page)"
  using stale_ref_rejected [of "''page.hover''" handle_hover "hover_params 0" "''t1''" one_page "(page_new ''t1'')\<lparr> ps_seq := 1 \<rparr>" 0 calm_env]
    hover_in_ref_handlers
  by simp



text \<open>
  An action uses up the snapshot it refers to. When two actions in a row name the same, current snapshot,
  the second is always refused as stale, whatever the first did to the page, because the first takes a
  snapshot of its own before it acts.
\<close>

theorem second_action_stale:
  assumes "(name, h) \<in> set ref_handlers" "(name2, h2) \<in> set ref_handlers" "calls_keep_seq env"
    and "get_str ''tab_id'' params = Some tab" "map_of (ts_pages s) tab = Some p"
    and "get_u64 ''snapshot_seq'' params = Some n" "unat n = ps_seq p"
    and "get_str ''tab_id'' params2 = Some tab" "get_u64 ''snapshot_seq'' params2 = Some n"
    and "h env params s = (Inr v, s')"
  shows "h2 env params2 s' = (Inl (stale_seq (Suc (ps_seq p)) n), s')"
proof -
  have bump: "ps_seq (page_of tab s') = Suc (ps_seq p)"
    using ref_handlers_bump [OF assms(1,3-6)] assms(7,10) by simp
  obtain p' where p': "map_of (ts_pages s') tab = Some p'" "ps_seq p' = Suc (ps_seq p)"
  proof (cases "map_of (ts_pages s') tab")
    case None
    with bump show ?thesis by (simp add: page_of_def or_default_def page_new_def)
  next
    case (Some p')
    with bump that show ?thesis by (simp add: page_of_def or_default_def)
  qed
  note locate = locate_page_found [OF assms(8) p'(1)]
  note stale = fresh_snapshot_stale [OF p'(1) assms(9), unfolded p'(2) assms(7), simplified]
  from assms(2) show ?thesis
    unfolding ref_handlers_def ref_handler_defs
    by (simp, elim disjE conjE; hypsubst; simp add: tbind_def locate stale)
qed

theorem second_action_stale_witness:
  "\<exists>s'. snd (handle_hover calm_env (hover_params 1) one_page) = s' \<and>
    handle_hover calm_env (hover_params 1) s' = (Inl (stale_seq 2 1), s')"
proof -
  obtain v s' where first: "handle_hover calm_env (hover_params 1) one_page = (Inr v, s')"
    using hover_sample by blast
  have "calls_keep_seq calm_env" by (simp add: calls_keep_seq_def calm_env_def)
  from second_action_stale [OF hover_in_ref_handlers hover_in_ref_handlers this _ one_page_pages _ _ _ _ first,
      of 1 "hover_params 1"] first
  show ?thesis by (simp add: numeral_2_eq_2)
qed

end
