(* ===== verification/Page_Storage.thy ===== *)
theory Page_Storage
  imports Page_Input
begin

text \<open>
  The handlers of \<^verbatim>\<open>broker/src/router/page.rs\<close> for scripts, cookies, web storage, permissions, IndexedDB and
  the cache API, with the cookie shapes of \<^verbatim>\<open>browser-engine/src/cookies.rs\<close>. The scripts for
  \<^verbatim>\<open>localStorage\<close> and \<^verbatim>\<open>sessionStorage\<close> are run on a model of a storage area; which area a page sees, and
  whether a new value fits into it, are fields of \<open>tool_env\<close>. The result of such a script is taken as the value
  the page made (it is printed there and parsed here). The advice at the end of the two texts about a missing
  capability is left out.
\<close>

subsection \<open>Scripts (page.eval)\<close>

definition MAX_EVAL_EXPR_LEN :: nat where "MAX_EVAL_EXPR_LEN = 64 * 1024"
definition DEFAULT_EVAL_TIMEOUT_MS :: u64 where "DEFAULT_EVAL_TIMEOUT_MS = 30000"
definition MIN_EVAL_TIMEOUT_MS :: u64 where "MIN_EVAL_TIMEOUT_MS = 100"
definition MAX_EVAL_TIMEOUT_MS :: u64 where "MAX_EVAL_TIMEOUT_MS = 60000"

definition permission_denied :: "string \<Rightarrow> json \<Rightarrow> router_error" where
  "permission_denied msg data = router_error_of PermissionDenied msg (Some data)"

definition require_eval_capability :: "tool_env \<Rightarrow> router_error + unit" where
  "require_eval_capability env =
     (let data = JObject [(''capability'', JString ''eval'')]
      in case te_current_session env of
           None \<Rightarrow> Inl (permission_denied ''no session bound for page.eval'' data)
         | Some session \<Rightarrow>
             if ''eval'' \<in> set (sv_capabilities session) then Inr ()
             else Inl (permission_denied ''session lacks 'eval' capability'' data))"

definition eval_timeout :: "json \<Rightarrow> u64" where
  "eval_timeout params =
     (case get_u64 ''timeout_ms'' params of
        Some v \<Rightarrow> min (max v MIN_EVAL_TIMEOUT_MS) MAX_EVAL_TIMEOUT_MS
      | None \<Rightarrow> DEFAULT_EVAL_TIMEOUT_MS)"

definition check_expr_len :: "string \<Rightarrow> router_error + unit" where
  "check_expr_len expr =
     (if length (utf8_bytes expr) > MAX_EVAL_EXPR_LEN
      then Inl (router_error_of InvalidParams
             (''expression exceeds '' @ nat_to_dec MAX_EVAL_EXPR_LEN @ '' byte cap (''
              @ nat_to_dec (length (utf8_bytes expr)) @ '' bytes)'')
             (Some (JObject [(''max_bytes'', json_nat MAX_EVAL_EXPR_LEN),
                             (''got_bytes'', json_nat (length (utf8_bytes expr)))])))
      else Inr ())"

text \<open>A call under a time limit: when the limit is reached, the call goes on in the browser.\<close>

definition eval_with_timeout :: "tool_env \<Rightarrow> string \<Rightarrow> string \<Rightarrow> bool \<Rightarrow> u64 \<Rightarrow> json tool" where
  "eval_with_timeout env tab expr by_value timeout_ms s =
     (let c = CallEval expr by_value
      in if te_timed_out env timeout_ms c s
         then (Inl (router_error_of TimeoutCode
                  (''page.eval timed out after '' @ nat_to_dec (unat timeout_ms) @ ''ms'')
                  (Some (JObject [(''timeout_ms'', JPos timeout_ms),
                                  (''expr_len'', json_nat (length (utf8_bytes expr)))]))),
               snd (perform env tab c internal s))
         else run_with env tab c (\<lambda>e. internal (''eval: '' @ e)) (\<lambda>v. JObject [(''value'', v)]) s)"

definition handle_eval :: "tool_env \<Rightarrow> json \<Rightarrow> json tool" where
  "handle_eval env params =
     tbind (tlift (require_eval_capability env)) (\<lambda>_.
     tbind (locate_page params) (\<lambda>tab.
     tbind (optional_element env tab params ''eval pre-snapshot'') (\<lambda>_.
     tbind (tlift (required_str params ''expression'')) (\<lambda>expr.
     tbind (tlift (check_expr_len expr)) (\<lambda>_.
     eval_with_timeout env tab expr (or_default True (get_bool ''return_by_value'' params)) (eval_timeout params))))))"

subsection \<open>Capability and origin\<close>

definition require_storage_state_capability :: "tool_env \<Rightarrow> string \<Rightarrow> router_error + unit" where
  "require_storage_state_capability env method =
     (let data = JObject [(''capability'', JString ''storage_state''), (''method'', JString method)]
      in case te_current_session env of
           None \<Rightarrow> Inl (permission_denied (''no session bound for '' @ method) data)
         | Some session \<Rightarrow>
             if ''storage_state'' \<in> set (sv_capabilities session) then Inr ()
             else Inl (permission_denied (''session lacks 'storage_state' capability for '' @ method) data))"

definition parse_http_origin :: "string \<Rightarrow> string option" where
  "parse_http_origin url =
     (let trimmed = trim url
      in case find_text ''://'' trimmed of
           None \<Rightarrow> None
         | Some scheme_end \<Rightarrow>
             let scheme = take scheme_end trimmed; rest = drop (scheme_end + 3) trimmed
             in if scheme \<noteq> ''http'' \<and> scheme \<noteq> ''https'' then None
                else Some (scheme @ ''://'' @ takeWhile (\<lambda>c. c \<noteq> CHR ''/'') rest))"

definition page_origin :: "string \<Rightarrow> string tool" where
  "page_origin tab s =
     (let url = ps_url (page_of tab s)
      in (need (router_error_of ProtocolErrorCode (''active page has no http/https origin: '' @ url)
                 (Some (JObject [(''url'', JString url)]))) (parse_http_origin url), s))"

definition strip_null_fields :: "json \<Rightarrow> json" where
  "strip_null_fields v = (case v of JObject m \<Rightarrow> JObject (filter (\<lambda>p. snd p \<noteq> JNull) m) | other \<Rightarrow> other)"

definition permission_origin_or_current :: "string \<Rightarrow> string option \<Rightarrow> string \<Rightarrow> router_error + string" where
  "permission_origin_or_current current_origin requested field =
     (case requested of
        Some origin \<Rightarrow> need (invalid_params (field @ '' must be an http/https origin'')) (parse_http_origin origin)
      | None \<Rightarrow> Inr current_origin)"

definition protocol_error :: "string \<Rightarrow> json \<Rightarrow> string \<Rightarrow> router_error" where
  "protocol_error context data e = router_error_of ProtocolErrorCode (context @ '': '' @ e) (Some data)"

text \<open>A script that answers with JSON text; an answer with an \<^verbatim>\<open>error\<close> text is an error.\<close>

definition script_result :: "string \<Rightarrow> json \<Rightarrow> json \<Rightarrow> router_error + json" where
  "script_result context data parsed =
     (case get_str ''error'' parsed of
        Some err \<Rightarrow> Inl (protocol_error context data err) | None \<Rightarrow> Inr parsed)"

definition parse_raw :: "tool_env \<Rightarrow> string \<Rightarrow> json \<Rightarrow> json \<Rightarrow> router_error + json" where
  "parse_raw env context data raw =
     (case as_str raw of
        Some txt \<Rightarrow> map_sum (\<lambda>e. protocol_error context data (''invalid JSON result: '' @ e)) id (te_parse env txt)
      | None \<Rightarrow> Inr raw)"

definition run_json_eval :: "tool_env \<Rightarrow> string \<Rightarrow> page_call \<Rightarrow> string \<Rightarrow> json \<Rightarrow> json tool" where
  "run_json_eval env tab c context data =
     tbind (perform env tab c (protocol_error context data)) (\<lambda>raw.
     tbind (tlift (parse_raw env context data raw)) (\<lambda>parsed.
     tlift (script_result context data parsed)))"

subsection \<open>Web storage\<close>

definition json_null_or :: "string option \<Rightarrow> json" where "json_null_or v = json_opt JString v"

text \<open>The scripts on the contents of an area; \<open>fits\<close> says whether \<^verbatim>\<open>setItem\<close> succeeds.\<close>

fun run_script :: "(string \<Rightarrow> string \<Rightarrow> bool) \<Rightarrow> storage_script \<Rightarrow> (string \<times> string) list \<Rightarrow> json \<times> (string \<times> string) list" where
  "run_script fits (ScriptGet k) a = (JObject [(''value'', json_null_or (map_of a k))], a)"
| "run_script fits ScriptGetAll a =
     (JObject [(''value'', JObject (map (\<lambda>(k, v). (k, JString v)) (filter (\<lambda>(k, v). k \<noteq> ''__proto__'') a)))], a)"
| "run_script fits (ScriptSet k v) a =
     (if fits k v
      then (JObject [(''ok'', JBool True), (''previous'', json_null_or (map_of a k))], AList.update k v a)
      else (JObject [(''error'', JString ''QuotaExceededError'')], a))"
| "run_script fits (ScriptDelete k) a =
     (JObject [(''ok'', JBool True), (''previous'', json_null_or (map_of a k))], AList.delete k a)"
| "run_script fits ScriptClear a =
     (JObject [(''ok'', JBool True), (''cleared_count'', json_nat (length a))], [])"
| "run_script fits (ScriptCas k expected v) a =
     (if map_of a k \<noteq> expected
      then (JObject [(''ok'', JBool False), (''matched'', JBool False), (''current'', json_null_or (map_of a k))], a)
      else if fits k v
      then (JObject [(''ok'', JBool True), (''matched'', JBool True), (''previous'', json_null_or (map_of a k))],
            AList.update k v a)
      else (JObject [(''error'', JString ''QuotaExceededError'')], a))"

definition area_of :: "string \<Rightarrow> tool_state \<Rightarrow> (string \<times> string) list" where
  "area_of area s = or_default [] (map_of (ts_storage s) area)"

definition eval_storage :: "tool_env \<Rightarrow> string \<Rightarrow> string \<Rightarrow> storage_script \<Rightarrow> string \<Rightarrow> json \<Rightarrow> json tool" where
  "eval_storage env tab storage_global script context data s =
     (let c = CallStorage storage_global script;
          s' = s\<lparr> ts_calls := ts_calls s @ [(tab, c)] \<rparr>
      in case te_answer env tab c s of
           Inl e \<Rightarrow> (Inl (protocol_error context data e), s')
         | Inr _ \<Rightarrow>
             (case te_area env storage_global tab s of
                None \<Rightarrow> (script_result context data (JObject [(''error'', JString ''SecurityError'')]), s')
              | Some area \<Rightarrow>
                  (case run_script (\<lambda>k v. te_set_fits env area k v s) script (area_of area s) of
                     (parsed, contents) \<Rightarrow>
                       (script_result context data parsed,
                        s'\<lparr> ts_storage := AList.update area contents (ts_storage s) \<rparr>))))"

definition storage_script_of :: "json \<Rightarrow> string \<Rightarrow> router_error + storage_script" where
  "storage_script_of params action =
     (let value = (\<lambda>what. need (invalid_params (''value (string) required for '' @ what)) (get_str ''value'' params));
          key = required_str params ''key''
      in if action = ''get'' then
           (case get_str ''key'' params of Some k \<Rightarrow> Inr (ScriptGet k) | None \<Rightarrow> Inr ScriptGetAll)
         else if action = ''set'' then
           (case key of Inl e \<Rightarrow> Inl e | Inr k \<Rightarrow> map_sum id (ScriptSet k) (value ''set''))
         else if action = ''delete'' then map_sum id ScriptDelete key
         else if action = ''clear'' then Inr ScriptClear
         else if action = ''cas'' then
           (case key of Inl e \<Rightarrow> Inl e
            | Inr k \<Rightarrow> map_sum id (ScriptCas k (get_str ''expected'' params)) (value ''cas''))
         else Inl (invalid_params (''unknown action: '' @ debug_str action @ '' (want get|set|delete|clear|cas)'')))"

definition storage_global_of :: "string \<Rightarrow> router_error + string" where
  "storage_global_of scope =
     (if scope = ''local'' then Inr ''localStorage''
      else if scope = ''session'' then Inr ''sessionStorage''
      else Inl (invalid_params (''unknown storage scope: '' @ scope)))"

definition page_storage_call :: "tool_env \<Rightarrow> json \<Rightarrow> string \<Rightarrow> string \<Rightarrow> string \<Rightarrow> json tool" where
  "page_storage_call env params scope action method =
     tbind (tlift (require_storage_state_capability env method)) (\<lambda>_.
     tbind (tlift (storage_global_of scope)) (\<lambda>storage_global.
     tbind (locate_page params) (\<lambda>tab.
     tbind (tlift (storage_script_of params action)) (\<lambda>script.
     eval_storage env tab storage_global script method
       (JObject [(''scope'', JString scope), (''action'', JString action),
                 (''key'', json_null_or (get_str ''key'' params))])))))"

subsection \<open>IndexedDB\<close>

definition cdp_with ::
  "tool_env \<Rightarrow> string \<Rightarrow> string \<Rightarrow> json \<Rightarrow> string \<Rightarrow> json \<Rightarrow> (json \<Rightarrow> json) \<Rightarrow> json tool" where
  "cdp_with env tab cdp_method args context data result =
     run_with env tab (CallCdp cdp_method (Some args)) (protocol_error context data) result"

definition or_empty_array :: "string \<Rightarrow> json \<Rightarrow> json" where
  "or_empty_array k v = or_default (JArray []) (jget k v)"

definition handle_indexeddb_list_databases :: "tool_env \<Rightarrow> json \<Rightarrow> json tool" where
  "handle_indexeddb_list_databases env params =
     tbind (tlift (require_storage_state_capability env ''page.indexeddb.list_databases'')) (\<lambda>_.
     tbind (locate_page params) (\<lambda>tab.
     tbind (page_origin tab) (\<lambda>origin.
     cdp_with env tab ''IndexedDB.requestDatabaseNames'' (JObject [(''securityOrigin'', JString origin)])
       ''page.indexeddb.list_databases'' (JObject [(''origin'', JString origin)])
       (\<lambda>r. JObject [(''origin'', JString origin), (''database_names'', or_empty_array ''databaseNames'' r)]))))"

definition handle_indexeddb_list_stores :: "tool_env \<Rightarrow> json \<Rightarrow> json tool" where
  "handle_indexeddb_list_stores env params =
     tbind (tlift (require_storage_state_capability env ''page.indexeddb.list_stores'')) (\<lambda>_.
     tbind (locate_page params) (\<lambda>tab.
     tbind (page_origin tab) (\<lambda>origin.
     tbind (tlift (required_str params ''database_name'')) (\<lambda>db.
     cdp_with env tab ''IndexedDB.requestDatabase''
       (JObject [(''securityOrigin'', JString origin), (''databaseName'', JString db)])
       ''page.indexeddb.list_stores'' (JObject [(''origin'', JString origin), (''database_name'', JString db)])
       (\<lambda>r. r)))))"

definition handle_indexeddb_query :: "tool_env \<Rightarrow> json \<Rightarrow> json tool" where
  "handle_indexeddb_query env params =
     tbind (tlift (require_storage_state_capability env ''page.indexeddb.query'')) (\<lambda>_.
     tbind (locate_page params) (\<lambda>tab.
     tbind (page_origin tab) (\<lambda>origin.
     tbind (tlift (required_str params ''database_name'')) (\<lambda>db.
     tbind (tlift (required_str params ''object_store_name'')) (\<lambda>store.
     cdp_with env tab ''IndexedDB.requestData''
       (strip_null_fields (JObject
          [(''securityOrigin'', JString origin), (''databaseName'', JString db), (''objectStoreName'', JString store),
           (''indexName'', or_default JNull (jget ''index_name'' params)),
           (''skipCount'', JPos (or_default 0 (get_u64 ''skip_count'' params))),
           (''pageSize'', JPos (or_default 100 (get_u64 ''page_size'' params))),
           (''keyRange'', or_default JNull (jget ''key_range'' params))]))
       ''page.indexeddb.query''
       (JObject [(''origin'', JString origin), (''database_name'', JString db), (''object_store_name'', JString store)])
       (\<lambda>r. JObject [(''entries'', or_empty_array ''objectStoreDataEntries'' r),
                      (''has_more'', or_default (JBool False) (jget ''hasMore'' r))]))))))"

text \<open>\<^verbatim>\<open>indexeddb.put\<close> runs a script in the page; the script is named by its arguments.\<close>

definition handle_indexeddb_put :: "tool_env \<Rightarrow> json \<Rightarrow> json tool" where
  "handle_indexeddb_put env params =
     tbind (tlift (require_storage_state_capability env ''page.indexeddb.put'')) (\<lambda>_.
     tbind (locate_page params) (\<lambda>tab.
     tbind (tlift (required_str params ''database_name'')) (\<lambda>db.
     tbind (tlift (required_str params ''object_store_name'')) (\<lambda>store.
     tbind (tlift (need (invalid_params ''missing key'') (jget ''key'' params))) (\<lambda>key.
     tbind (tlift (need (invalid_params ''missing value'') (jget ''value'' params))) (\<lambda>value.
     run_json_eval env tab
       (CallTool ''indexeddb.put''
          [JString db, JString store, key, value, json_opt JPos (get_u64 ''database_version'' params)])
       ''page.indexeddb.put'' (JObject [(''database_name'', JString db), (''object_store_name'', JString store)])))))))"

definition handle_indexeddb_delete :: "tool_env \<Rightarrow> json \<Rightarrow> json tool" where
  "handle_indexeddb_delete env params =
     tbind (tlift (require_storage_state_capability env ''page.indexeddb.delete'')) (\<lambda>_.
     tbind (locate_page params) (\<lambda>tab.
     tbind (page_origin tab) (\<lambda>origin.
     tbind (tlift (required_str params ''database_name'')) (\<lambda>db.
     tbind (tlift (required_str params ''object_store_name'')) (\<lambda>store.
     tbind (tlift (need (invalid_params ''missing key_range'') (jget ''key_range'' params))) (\<lambda>key_range.
     cdp_with env tab ''IndexedDB.deleteObjectStoreEntries''
       (JObject [(''securityOrigin'', JString origin), (''databaseName'', JString db),
                 (''objectStoreName'', JString store), (''keyRange'', key_range)])
       ''page.indexeddb.delete''
       (JObject [(''origin'', JString origin), (''database_name'', JString db), (''object_store_name'', JString store)])
       (\<lambda>_. ok_true)))))))"

definition handle_indexeddb_delete_database :: "tool_env \<Rightarrow> json \<Rightarrow> json tool" where
  "handle_indexeddb_delete_database env params =
     tbind (tlift (require_storage_state_capability env ''page.indexeddb.delete_database'')) (\<lambda>_.
     tbind (locate_page params) (\<lambda>tab.
     tbind (page_origin tab) (\<lambda>origin.
     tbind (tlift (required_str params ''database_name'')) (\<lambda>db.
     cdp_with env tab ''IndexedDB.deleteDatabase''
       (JObject [(''securityOrigin'', JString origin), (''databaseName'', JString db)])
       ''page.indexeddb.delete_database'' (JObject [(''origin'', JString origin), (''database_name'', JString db)])
       (\<lambda>_. ok_true)))))"

subsection \<open>The web storage tools\<close>

definition handle_localstorage :: "string \<Rightarrow> tool_env \<Rightarrow> json \<Rightarrow> json tool" where
  "handle_localstorage action env params =
     page_storage_call env params ''local'' action (''page.localstorage.'' @ action)"

definition handle_sessionstorage :: "string \<Rightarrow> tool_env \<Rightarrow> json \<Rightarrow> json tool" where
  "handle_sessionstorage action env params =
     page_storage_call env params ''session'' action (''page.sessionstorage.'' @ action)"

definition storage_actions :: "string list" where
  "storage_actions = [''get'', ''set'', ''delete'', ''clear'', ''cas'']"

definition storage_route :: "string \<Rightarrow> string \<Rightarrow> (tool_env \<Rightarrow> json \<Rightarrow> json tool) option" where
  "storage_route kind action =
     (if kind = ''local'' \<and> action \<in> set storage_actions then Some (handle_localstorage action)
      else if kind = ''session'' \<and> action \<in> set storage_actions then Some (handle_sessionstorage action)
      else if kind = ''indexeddb'' then
        map_of [(''list_databases'', handle_indexeddb_list_databases), (''list_stores'', handle_indexeddb_list_stores),
                (''query'', handle_indexeddb_query), (''put'', handle_indexeddb_put),
                (''delete'', handle_indexeddb_delete), (''delete_database'', handle_indexeddb_delete_database)] action
      else None)"

definition storage_args :: "json \<Rightarrow> router_error + (string \<times> json) list" where
  "storage_args params =
     (case or_default (JObject []) (jget ''args'' params) of
        JObject m \<Rightarrow> Inr m | _ \<Rightarrow> Inl (invalid_params ''page.storage args must be an object when present''))"

definition handle_storage :: "tool_env \<Rightarrow> json \<Rightarrow> json tool" where
  "handle_storage env params =
     tbind (tlift (require_storage_state_capability env ''page.storage'')) (\<lambda>_.
     if jget ''scope'' params \<noteq> None
     then tfail (invalid_params (''legacy page.storage {scope,...} shape is no longer accepted; ''
            @ ''use {kind, action, args} or page.{local,session}storage.*''))
     else
       tbind (tlift (required_str params ''kind'')) (\<lambda>kind.
       tbind (tlift (required_str params ''action'')) (\<lambda>action.
       tbind (tlift (storage_args params)) (\<lambda>args.
       tbind (tlift (need (invalid_params ''missing tab_id'') (jget ''tab_id'' params))) (\<lambda>tab_id.
       case storage_route kind action of
         Some h \<Rightarrow> h env (JObject (AList.update ''tab_id'' tab_id args))
       | None \<Rightarrow> tfail (invalid_params (''unsupported page.storage combination: kind='' @ debug_str kind
                   @ '' action='' @ debug_str action)))))))"

definition handle_storage_quota :: "tool_env \<Rightarrow> json \<Rightarrow> json tool" where
  "handle_storage_quota env params =
     tbind (tlift (require_storage_state_capability env ''page.storage.quota'')) (\<lambda>_.
     tbind (locate_page params) (\<lambda>tab.
     tbind (page_origin tab) (\<lambda>origin.
     cdp_with env tab ''Storage.getUsageAndQuota'' (JObject [(''origin'', JString origin)]) ''page.storage.quota''
       (JObject [(''origin'', JString origin)])
       (\<lambda>r. case r of JObject m \<Rightarrow> JObject (AList.update ''origin'' (JString origin) m)
            | _ \<Rightarrow> JObject [(''origin'', JString origin), (''result'', r)]))))"

subsection \<open>Permissions\<close>

definition embedded_origin_of :: "json \<Rightarrow> string \<Rightarrow> router_error + string option" where
  "embedded_origin_of params origin =
     (case get_str ''embedded_origin'' params of
        Some v \<Rightarrow> map_sum id Some (permission_origin_or_current origin (Some v) ''embedded_origin'')
      | None \<Rightarrow> Inr None)"

definition check_descriptor :: "json \<Rightarrow> router_error + json" where
  "check_descriptor permission =
     (if is_object permission then Inr permission else Inl (invalid_params ''permission descriptor must be an object''))"

definition permission_descriptor :: "json \<Rightarrow> router_error + json" where
  "permission_descriptor params =
     (case need (invalid_params ''missing permission descriptor'') (jget ''permission'' params) of
        Inl e \<Rightarrow> Inl e | Inr p \<Rightarrow> check_descriptor p)"

definition handle_permissions_query :: "tool_env \<Rightarrow> json \<Rightarrow> json tool" where
  "handle_permissions_query env params =
     tbind (tlift (require_storage_state_capability env ''page.permissions.query'')) (\<lambda>_.
     tbind (locate_page params) (\<lambda>tab.
     tbind (page_origin tab) (\<lambda>current_origin.
     tbind (tlift (permission_origin_or_current current_origin (get_str ''origin'' params) ''origin'')) (\<lambda>origin.
     tbind (tlift (embedded_origin_of params origin)) (\<lambda>embedded_origin.
     if origin \<noteq> current_origin \<or> or_default current_origin embedded_origin \<noteq> current_origin
     then tfail (invalid_params ''page.permissions.query only supports the active document origin'')
     else
       tbind (tlift (permission_descriptor params)) (\<lambda>permission.
       run_json_eval env tab (CallTool ''permissions.query'' [permission]) ''page.permissions.query''
         (JObject [(''origin'', JString current_origin), (''permission'', permission)])))))))"

definition set_permission :: "tool_env \<Rightarrow> string \<Rightarrow> json \<Rightarrow> string \<Rightarrow> string \<Rightarrow> string option \<Rightarrow> string \<Rightarrow> json \<Rightarrow> json tool" where
  "set_permission env tab permission setting origin embedded_origin context data =
     run_with env tab
       (CallRoot ''Browser.setPermission''
          (strip_null_fields (JObject
             [(''permission'', permission), (''setting'', JString setting), (''origin'', JString origin),
              (''embeddedOrigin'', json_null_or embedded_origin)])))
       (protocol_error context data) (\<lambda>_. ok_true)"

definition handle_permissions_grant :: "tool_env \<Rightarrow> json \<Rightarrow> json tool" where
  "handle_permissions_grant env params =
     tbind (tlift (require_storage_state_capability env ''page.permissions.grant'')) (\<lambda>_.
     tbind (locate_page params) (\<lambda>tab.
     tbind (page_origin tab) (\<lambda>current_origin.
     tbind (tlift (permission_origin_or_current current_origin (get_str ''origin'' params) ''origin'')) (\<lambda>origin.
     tbind (tlift (embedded_origin_of params origin)) (\<lambda>embedded_origin.
     tbind (tlift (permission_descriptor params)) (\<lambda>permission.
     set_permission env tab permission ''granted'' origin embedded_origin ''page.permissions.grant''
       (JObject [(''origin'', JString current_origin)])))))))"

definition handle_permissions_revoke :: "tool_env \<Rightarrow> json \<Rightarrow> json tool" where
  "handle_permissions_revoke env params =
     tbind (tlift (require_storage_state_capability env ''page.permissions.revoke'')) (\<lambda>_.
     tbind (locate_page params) (\<lambda>tab.
     tbind (page_origin tab) (\<lambda>current_origin.
     case jget ''permission'' params of
       Some permission \<Rightarrow>
         tbind (tlift (check_descriptor permission)) (\<lambda>permission.
         tbind (tlift (permission_origin_or_current current_origin (get_str ''origin'' params) ''origin'')) (\<lambda>origin.
         tbind (tlift (embedded_origin_of params origin)) (\<lambda>embedded_origin.
         set_permission env tab permission ''prompt'' origin embedded_origin ''page.permissions.revoke''
           (JObject [(''origin'', JString current_origin)]))))
     | None \<Rightarrow>
         run_with env tab (CallRoot ''Browser.resetPermissions'' JNull)
           (protocol_error ''page.permissions.revoke'' (JObject [(''origin'', JString current_origin)])) (\<lambda>_. ok_true))))"

subsection \<open>The cache API\<close>

definition handle_cache_api_list :: "tool_env \<Rightarrow> json \<Rightarrow> json tool" where
  "handle_cache_api_list env params =
     tbind (tlift (require_storage_state_capability env ''page.cache_api.list'')) (\<lambda>_.
     tbind (locate_page params) (\<lambda>tab.
     tbind (page_origin tab) (\<lambda>origin.
     cdp_with env tab ''CacheStorage.requestCacheNames'' (JObject [(''securityOrigin'', JString origin)])
       ''page.cache_api.list'' (JObject [(''origin'', JString origin)])
       (\<lambda>r. JObject [(''origin'', JString origin), (''caches'', or_empty_array ''caches'' r)]))))"

definition handle_cache_api_inspect :: "tool_env \<Rightarrow> json \<Rightarrow> json tool" where
  "handle_cache_api_inspect env params =
     tbind (tlift (require_storage_state_capability env ''page.cache_api.inspect'')) (\<lambda>_.
     tbind (locate_page params) (\<lambda>tab.
     tbind (tlift (required_str params ''cache_id'')) (\<lambda>cache_id.
     case get_str ''request_url'' params of
       Some request_url \<Rightarrow>
         cdp_with env tab ''CacheStorage.requestCachedResponse''
           (JObject [(''cacheId'', JString cache_id), (''requestURL'', JString request_url),
                     (''requestHeaders'', or_empty_array ''request_headers'' params)])
           ''page.cache_api.inspect'' (JObject [(''cache_id'', JString cache_id), (''request_url'', JString request_url)])
           (\<lambda>r. r)
     | None \<Rightarrow>
         cdp_with env tab ''CacheStorage.requestEntries''
           (strip_null_fields (JObject
              [(''cacheId'', JString cache_id), (''skipCount'', json_opt JPos (get_u64 ''skip_count'' params)),
               (''pageSize'', json_opt JPos (get_u64 ''page_size'' params)),
               (''pathFilter'', json_null_or (get_str ''path_filter'' params))]))
           ''page.cache_api.inspect'' (JObject [(''cache_id'', JString cache_id)])
           (\<lambda>r. JObject [(''entries'', or_empty_array ''cacheDataEntries'' r),
                          (''return_count'', or_default JNull (jget ''returnCount'' r))]))))"

definition handle_cache_api_delete :: "tool_env \<Rightarrow> json \<Rightarrow> json tool" where
  "handle_cache_api_delete env params =
     tbind (tlift (require_storage_state_capability env ''page.cache_api.delete'')) (\<lambda>_.
     tbind (locate_page params) (\<lambda>tab.
     tbind (tlift (required_str params ''cache_id'')) (\<lambda>cache_id.
     case get_str ''request_url'' params of
       Some request_url \<Rightarrow>
         cdp_with env tab ''CacheStorage.deleteEntry''
           (JObject [(''cacheId'', JString cache_id), (''request'', JString request_url)])
           ''page.cache_api.delete'' (JObject [(''cache_id'', JString cache_id), (''request_url'', JString request_url)])
           (\<lambda>_. ok_true)
     | None \<Rightarrow>
         cdp_with env tab ''CacheStorage.deleteCache'' (JObject [(''cacheId'', JString cache_id)])
           ''page.cache_api.delete'' (JObject [(''cache_id'', JString cache_id)]) (\<lambda>_. ok_true))))"

subsection \<open>Cookies\<close>

record cookie =
  ck_name :: string
  ck_value :: string
  ck_domain :: string
  ck_path :: string
  ck_expires :: f64
  ck_size :: u64
  ck_http_only :: bool
  ck_secure :: bool
  ck_session :: bool
  ck_same_site :: "string option"

definition cookie_from_cdp :: "json \<Rightarrow> cookie" where
  "cookie_from_cdp v =
     \<lparr> ck_name = or_default [] (get_str ''name'' v), ck_value = or_default [] (get_str ''value'' v),
       ck_domain = or_default [] (get_str ''domain'' v), ck_path = or_default [] (get_str ''path'' v),
       ck_expires = or_default F_MINUS_ONE (get_f64 ''expires'' v), ck_size = or_default 0 (get_u64 ''size'' v),
       ck_http_only = or_default False (get_bool ''httpOnly'' v), ck_secure = or_default False (get_bool ''secure'' v),
       ck_session = or_default True (get_bool ''session'' v), ck_same_site = get_str ''sameSite'' v \<rparr>"

definition json_fields :: "(string \<times> json option) list \<Rightarrow> (string \<times> json) list" where
  "json_fields fs = List.map_filter (\<lambda>(k, v). map_option (Pair k) v) fs"

definition cookie_to_cdp_param :: "cookie \<Rightarrow> json" where
  "cookie_to_cdp_param c =
     JObject ([(''name'', JString (ck_name c)), (''value'', JString (ck_value c)), (''domain'', JString (ck_domain c)),
               (''path'', JString (ck_path c)), (''secure'', JBool (ck_secure c)), (''httpOnly'', JBool (ck_http_only c))]
       @ json_fields [(''expires'', if f64_le 0 (ck_expires c) then Some (json_f64 (ck_expires c)) else None),
                      (''sameSite'', map_option JString (ck_same_site c))])"

text \<open>
  The wire shape: written in full, and read only when every field but \<^verbatim>\<open>same_site\<close> is there. (The library
  would also read an array of the values in the order of the fields; such input is not considered.)
\<close>

definition cookie_to_json :: "cookie \<Rightarrow> json" where
  "cookie_to_json c =
     JObject ([(''name'', JString (ck_name c)), (''value'', JString (ck_value c)), (''domain'', JString (ck_domain c)),
               (''path'', JString (ck_path c)), (''expires'', json_f64 (ck_expires c)), (''size'', JPos (ck_size c)),
               (''http_only'', JBool (ck_http_only c)), (''secure'', JBool (ck_secure c)),
               (''session'', JBool (ck_session c))]
       @ json_fields [(''same_site'', map_option JString (ck_same_site c))])"

text \<open>An optional field: absent or null, or of the right type.\<close>

definition opt_field :: "(json \<Rightarrow> 'a option) \<Rightarrow> string \<Rightarrow> json \<Rightarrow> 'a option option" where
  "opt_field f k v =
     (case jget k v of None \<Rightarrow> Some None | Some JNull \<Rightarrow> Some None | Some x \<Rightarrow> map_option Some (f x))"

definition cookie_from_json :: "json \<Rightarrow> cookie option" where
  "cookie_from_json v =
     Option.bind (get_str ''name'' v) (\<lambda>name. Option.bind (get_str ''value'' v) (\<lambda>value.
     Option.bind (get_str ''domain'' v) (\<lambda>domain. Option.bind (get_str ''path'' v) (\<lambda>path.
     Option.bind (get_f64 ''expires'' v) (\<lambda>expires. Option.bind (get_u64 ''size'' v) (\<lambda>size.
     Option.bind (get_bool ''http_only'' v) (\<lambda>http_only. Option.bind (get_bool ''secure'' v) (\<lambda>secure.
     Option.bind (get_bool ''session'' v) (\<lambda>session. Option.bind (opt_field as_str ''same_site'' v) (\<lambda>same_site.
       Some \<lparr> ck_name = name, ck_value = value, ck_domain = domain, ck_path = path, ck_expires = expires,
              ck_size = size, ck_http_only = http_only, ck_secure = secure, ck_session = session,
              ck_same_site = same_site \<rparr>))))))))))"

definition cdp_cookies :: "json \<Rightarrow> json list" where
  "cdp_cookies res = or_default [] (get_array ''cookies'' res)"

definition cookie_selected :: "string option \<Rightarrow> string option \<Rightarrow> cookie \<Rightarrow> bool" where
  "cookie_selected domain name c \<longleftrightarrow>
     (case domain of None \<Rightarrow> True | Some d \<Rightarrow> ck_domain c = d) \<and> (case name of None \<Rightarrow> True | Some n \<Rightarrow> ck_name c = n)"

definition delete_cookie_call :: "cookie \<Rightarrow> page_call" where
  "delete_cookie_call c =
     CallCdp ''Network.deleteCookies''
       (Some (JObject [(''name'', JString (ck_name c)), (''domain'', JString (ck_domain c)), (''path'', JString (ck_path c))]))"

text \<open>The loop over the cookies; a failed deletion is ignored and counted all the same.\<close>

fun delete_cookies :: "tool_env \<Rightarrow> string \<Rightarrow> cookie list \<Rightarrow> nat \<Rightarrow> nat tool" where
  "delete_cookies env tab [] count s = (Inr count, s)"
| "delete_cookies env tab (c # cs) count s =
     delete_cookies env tab cs (count + 1) (snd (perform env tab (delete_cookie_call c) internal s))"

definition clear_cookies :: "tool_env \<Rightarrow> string \<Rightarrow> string option \<Rightarrow> string option \<Rightarrow> json tool" where
  "clear_cookies env tab domain name =
     (if domain \<noteq> None \<or> name \<noteq> None
      then tbind (perform env tab (CallCdp ''Network.getCookies'' None) (\<lambda>e. internal (''getCookies: '' @ e))) (\<lambda>res.
           tbind (delete_cookies env tab
                    (filter (cookie_selected domain name) (map cookie_from_cdp (cdp_cookies res))) 0) (\<lambda>count.
           tret (JObject [(''ok'', JBool True), (''cleared_count'', json_nat count)])))
      else run_with env tab (CallCdp ''Network.clearBrowserCookies'' None)
             (\<lambda>e. internal (''clearBrowserCookies: '' @ e))
             (\<lambda>_. JObject [(''ok'', JBool True), (''cleared_count'', JNeg (- 1))]))"

definition set_cookies :: "tool_env \<Rightarrow> string \<Rightarrow> json list \<Rightarrow> json tool" where
  "set_cookies env tab raw =
     (let cookies = List.map_filter cookie_from_json raw
      in run_with env tab
           (CallCdp ''Network.setCookies'' (Some (JObject [(''cookies'', JArray (map cookie_to_cdp_param cookies))])))
           (\<lambda>e. internal (''setCookies: '' @ e))
           (\<lambda>_. JObject [(''ok'', JBool True), (''set_count'', json_nat (length cookies))]))"

definition handle_cookies :: "tool_env \<Rightarrow> json \<Rightarrow> json tool" where
  "handle_cookies env params =
     tbind (locate_page params) (\<lambda>tab.
     tbind (tlift (required_str params ''action'')) (\<lambda>action.
     if action \<in> {''get'', ''list''}
     then run_with env tab (CallCdp ''Network.getCookies'' None) (\<lambda>e. internal (''getCookies: '' @ e))
            (\<lambda>res. JObject [(''cookies'', JArray (map (cookie_to_json \<circ> cookie_from_cdp) (cdp_cookies res)))])
     else if action = ''set'' then set_cookies env tab (or_default [] (get_array ''cookies'' params))
     else if action = ''clear'' then clear_cookies env tab (get_str ''domain'' params) (get_str ''name'' params)
     else tfail (invalid_params (''unknown action: '' @ action))))"

record cookie_partition_key =
  cp_top_level_site :: string
  cp_has_cross_site_ancestor :: bool

record deep_set_cookie =
  dc_name :: string
  dc_value :: string
  dc_url :: "string option"
  dc_domain :: "string option"
  dc_path :: "string option"
  dc_secure :: "bool option"
  dc_http_only :: "bool option"
  dc_same_site :: "string option"
  dc_expires :: "f64 option"
  dc_priority :: "string option"
  dc_source_scheme :: "string option"
  dc_source_port :: "int option"
  dc_partition_key :: "cookie_partition_key option"

definition json_i64 :: "int \<Rightarrow> json" where
  "json_i64 i = (if 0 \<le> i then JPos (of_int i) else JNeg i)"

definition to_cdp_set_cookie_param :: "deep_set_cookie \<Rightarrow> json" where
  "to_cdp_set_cookie_param c =
     JObject ([(''name'', JString (dc_name c)), (''value'', JString (dc_value c))]
       @ json_fields
           [(''url'', map_option JString (dc_url c)), (''domain'', map_option JString (dc_domain c)),
            (''path'', map_option JString (dc_path c)), (''secure'', map_option JBool (dc_secure c)),
            (''httpOnly'', map_option JBool (dc_http_only c)), (''sameSite'', map_option JString (dc_same_site c)),
            (''expires'', map_option json_f64 (dc_expires c)), (''priority'', map_option JString (dc_priority c)),
            (''sourceScheme'', map_option JString (dc_source_scheme c)),
            (''sourcePort'', map_option json_i64 (dc_source_port c)),
            (''partitionKey'', map_option (\<lambda>k. JObject
               [(''topLevelSite'', JString (cp_top_level_site k)),
                (''hasCrossSiteAncestor'', JBool (cp_has_cross_site_ancestor k))]) (dc_partition_key c))])"

definition partition_key_from_json :: "json \<Rightarrow> cookie_partition_key option" where
  "partition_key_from_json v =
     Option.bind (get_str ''top_level_site'' v) (\<lambda>site. Option.bind (get_bool ''has_cross_site_ancestor'' v) (\<lambda>anc.
       Some \<lparr> cp_top_level_site = site, cp_has_cross_site_ancestor = anc \<rparr>))"

definition deep_set_cookie_from_json :: "json \<Rightarrow> deep_set_cookie option" where
  "deep_set_cookie_from_json v =
     Option.bind (get_str ''name'' v) (\<lambda>name. Option.bind (get_str ''value'' v) (\<lambda>value.
     Option.bind (opt_field as_str ''url'' v) (\<lambda>url. Option.bind (opt_field as_str ''domain'' v) (\<lambda>domain.
     Option.bind (opt_field as_str ''path'' v) (\<lambda>path. Option.bind (opt_field as_bool ''secure'' v) (\<lambda>secure.
     Option.bind (opt_field as_bool ''http_only'' v) (\<lambda>http_only.
     Option.bind (opt_field as_str ''same_site'' v) (\<lambda>same_site.
     Option.bind (opt_field as_f64 ''expires'' v) (\<lambda>expires.
     Option.bind (opt_field as_str ''priority'' v) (\<lambda>priority.
     Option.bind (opt_field as_str ''source_scheme'' v) (\<lambda>source_scheme.
     Option.bind (opt_field as_i64 ''source_port'' v) (\<lambda>source_port.
     Option.bind (opt_field partition_key_from_json ''partition_key'' v) (\<lambda>partition_key.
       Some \<lparr> dc_name = name, dc_value = value, dc_url = url, dc_domain = domain, dc_path = path,
              dc_secure = secure, dc_http_only = http_only, dc_same_site = same_site, dc_expires = expires,
              dc_priority = priority, dc_source_scheme = source_scheme, dc_source_port = source_port,
              dc_partition_key = partition_key \<rparr>)))))))))))))"

definition handle_cookies_deep_set :: "tool_env \<Rightarrow> json \<Rightarrow> json tool" where
  "handle_cookies_deep_set env params =
     tbind (tlift (require_storage_state_capability env ''page.cookies.deep_set'')) (\<lambda>_.
     tbind (locate_page params) (\<lambda>tab.
     tbind (tlift (need (invalid_params ''missing cookie'') (jget ''cookie'' params))) (\<lambda>cookie_value.
     tbind (tlift (need (invalid_params ''invalid cookie payload'') (deep_set_cookie_from_json cookie_value))) (\<lambda>cookie.
     let data = JObject [(''name'', JString (dc_name cookie))]
     in tbind (perform env tab (CallCdp ''Network.setCookie'' (Some (to_cdp_set_cookie_param cookie)))
                 (protocol_error ''page.cookies.deep_set'' data)) (\<lambda>res.
        if or_default False (get_bool ''success'' res) then tret ok_true
        else tfail (protocol_error ''page.cookies.deep_set'' data ''Network.setCookie returned success=false''))))))"

subsection \<open>The table\<close>

text \<open>The tools that need a capability, with the capability.\<close>

definition gated_handlers :: "(string \<times> string \<times> (tool_env \<Rightarrow> json \<Rightarrow> json tool)) list" where
  "gated_handlers =
     (''page.eval'', ''eval'', handle_eval)
     # map (\<lambda>a. (''page.localstorage.'' @ a, ''storage_state'', handle_localstorage a)) storage_actions
     @ map (\<lambda>a. (''page.sessionstorage.'' @ a, ''storage_state'', handle_sessionstorage a)) storage_actions
     @ [(''page.cookies.deep_set'', ''storage_state'', handle_cookies_deep_set),
        (''page.storage'', ''storage_state'', handle_storage),
        (''page.indexeddb.list_databases'', ''storage_state'', handle_indexeddb_list_databases),
        (''page.indexeddb.list_stores'', ''storage_state'', handle_indexeddb_list_stores),
        (''page.indexeddb.query'', ''storage_state'', handle_indexeddb_query),
        (''page.indexeddb.put'', ''storage_state'', handle_indexeddb_put),
        (''page.indexeddb.delete'', ''storage_state'', handle_indexeddb_delete),
        (''page.indexeddb.delete_database'', ''storage_state'', handle_indexeddb_delete_database),
        (''page.cache_api.list'', ''storage_state'', handle_cache_api_list),
        (''page.cache_api.inspect'', ''storage_state'', handle_cache_api_inspect),
        (''page.cache_api.delete'', ''storage_state'', handle_cache_api_delete),
        (''page.permissions.query'', ''storage_state'', handle_permissions_query),
        (''page.permissions.grant'', ''storage_state'', handle_permissions_grant),
        (''page.permissions.revoke'', ''storage_state'', handle_permissions_revoke),
        (''page.storage.quota'', ''storage_state'', handle_storage_quota)]"

definition storage_handlers :: "(string \<times> (tool_env \<Rightarrow> json \<Rightarrow> json tool)) list" where
  "storage_handlers = (''page.cookies'', handle_cookies) # map (\<lambda>(n, c, h). (n, h)) gated_handlers"

lemmas gated_handler_defs = handle_cookies_deep_set_def handle_storage_def handle_indexeddb_list_databases_def
  handle_indexeddb_list_stores_def handle_indexeddb_query_def handle_indexeddb_put_def handle_indexeddb_delete_def
  handle_indexeddb_delete_database_def handle_cache_api_list_def handle_cache_api_inspect_def
  handle_cache_api_delete_def handle_permissions_query_def handle_permissions_grant_def
  handle_permissions_revoke_def handle_storage_quota_def

subsection \<open>Capabilities\<close>

definition has_capability :: "tool_env \<Rightarrow> string \<Rightarrow> bool" where
  "has_capability env c = (case te_current_session env of None \<Rightarrow> False | Some v \<Rightarrow> c \<in> set (sv_capabilities v))"

lemma storage_denied:
  assumes "\<not> has_capability env ''storage_state''"
  shows "\<exists>e. require_storage_state_capability env method = Inl e \<and> re_code e = PermissionDenied"
  using assms
  by (auto simp: require_storage_state_capability_def has_capability_def permission_denied_def router_error_of_def
      Let_def split: option.split)

lemma eval_denied:
  assumes "\<not> has_capability env ''eval''"
  shows "\<exists>e. require_eval_capability env = Inl e \<and> re_code e = PermissionDenied"
  using assms
  by (auto simp: require_eval_capability_def has_capability_def permission_denied_def router_error_of_def
      Let_def split: option.split)

lemma tbind_denied:
  assumes "\<exists>e. r = Inl e \<and> re_code e = c"
  shows "\<exists>e. tbind (tlift r) f s = (Inl e, s) \<and> re_code e = c"
  using assms by (auto simp: tbind_def tlift_def)

subsection \<open>Storage as a map\<close>

text \<open>What the storage tools promise: operations on a map from keys to values, and what they answer.\<close>

fun spec_map :: "storage_script \<Rightarrow> (string \<rightharpoonup> string) \<Rightarrow> (string \<rightharpoonup> string)" where
  "spec_map (ScriptSet k v) m = m(k \<mapsto> v)"
| "spec_map (ScriptDelete k) m = m(k := None)"
| "spec_map ScriptClear m = Map.empty"
| "spec_map (ScriptCas k expected v) m = (if m k = expected then m(k \<mapsto> v) else m)"
| "spec_map _ m = m"

fun spec_answer :: "storage_script \<Rightarrow> (string \<rightharpoonup> string) \<Rightarrow> json \<Rightarrow> bool" where
  "spec_answer (ScriptGet k) m r \<longleftrightarrow> jget ''value'' r = Some (json_null_or (m k))"
| "spec_answer ScriptGetAll m r \<longleftrightarrow>
     (\<exists>obj. jget ''value'' r = Some (JObject obj) \<and> map_of obj = map_option JString \<circ> m(''__proto__'' := None))"
| "spec_answer (ScriptSet k v) m r \<longleftrightarrow>
     get_bool ''ok'' r = Some True \<and> jget ''previous'' r = Some (json_null_or (m k))"
| "spec_answer (ScriptDelete k) m r \<longleftrightarrow>
     get_bool ''ok'' r = Some True \<and> jget ''previous'' r = Some (json_null_or (m k))"
| "spec_answer ScriptClear m r \<longleftrightarrow>
     get_bool ''ok'' r = Some True \<and> jget ''cleared_count'' r = Some (json_nat (card (dom m)))"
| "spec_answer (ScriptCas k expected v) m r \<longleftrightarrow>
     get_bool ''ok'' r = Some (m k = expected) \<and> get_bool ''matched'' r = Some (m k = expected) \<and>
     jget (if m k = expected then ''previous'' else ''current'') r = Some (json_null_or (m k))"

definition area_wf :: "(string \<times> string) list \<Rightarrow> bool" where
  "area_wf a \<longleftrightarrow> distinct (map fst a)"

lemma map_of_get_all:
  "map_of (map (\<lambda>(k, v). (k, JString v)) (filter (\<lambda>(k, v). k \<noteq> x) a)) = map_option JString \<circ> (map_of a)(x := None)"
  by (induction a) (auto simp: fun_eq_iff)

lemma run_script_refines:
  assumes "area_wf a" "\<And>k v. fits k v" "run_script fits sc a = (r, a')"
  shows "map_of a' = spec_map sc (map_of a) \<and> spec_answer sc (map_of a) r \<and> area_wf a' \<and> get_str ''error'' r = None"
proof -
  have card: "length a = card (dom (map_of a))"
    using assms(1) by (metis area_wf_def distinct_card dom_map_of_conv_image_fst length_map list.set_map)
  show ?thesis
    using assms card
    by (cases sc)
      (auto simp: area_wf_def update_conv' delete_conv' distinct_update distinct_delete get_str_def get_bool_def
        map_of_get_all fun_eq_iff split: if_splits)
qed

text \<open>A session with the capability, and a page with one stored value.\<close>

definition storage_env :: tool_env where
  "storage_env = calm_env\<lparr> te_current_session :=
     Some \<lparr> sv_session_id = ''s_1'', sv_capabilities = [''storage_state''], sv_vision_mode = VisionOff \<rparr> \<rparr>"

definition stored_page :: tool_state where
  "stored_page = one_page\<lparr> ts_storage := [(''localStorage'', [(''k'', ''old'')])] \<rparr>"

definition cas_params :: json where
  "cas_params = JObject [(''tab_id'', JString ''t1''), (''key'', JString ''k''), (''expected'', JString ''old''),
     (''value'', JString ''new'')]"

subsection \<open>Properties\<close>





end
