(* ===== verification/Float64.thy ===== *)
theory Float64
  imports Json
begin

text \<open>
  Double-precision arithmetic on bit patterns, as the language defines it: the exact result of an operation on
  finite numbers, rounded to the nearest double with ties to even. A finite double is a whole number of units
  of \<open>2 ^ -1074\<close>, so exact results are quotients of integers. A result that is not a number is the one with
  the canonical pattern; the sources never look at its bits.
\<close>

subsection \<open>Patterns\<close>

definition f64_mag :: "f64 \<Rightarrow> nat" where
  "f64_mag b = unat b mod 2 ^ 63"

definition f64_neg :: "f64 \<Rightarrow> bool" where
  "f64_neg b \<longleftrightarrow> 2 ^ 63 \<le> unat b"

definition F64_INF :: nat where
  "F64_INF = 2047 * 2 ^ 52"

definition F64_NAN :: f64 where
  "F64_NAN = 0x7FF8000000000000"

definition f64_signed :: "bool \<Rightarrow> nat \<Rightarrow> f64" where
  "f64_signed neg mag = word_of_nat ((if neg then 2 ^ 63 else 0) + mag)"

definition f64_is_inf :: "f64 \<Rightarrow> bool" where
  "f64_is_inf b \<longleftrightarrow> f64_mag b = F64_INF"

definition F64_UNIT :: nat where
  "F64_UNIT = 2 ^ 1074"

lemma F64_UNIT_pos [simp]: "0 < F64_UNIT" "F64_UNIT \<noteq> 0"
  by (simp_all add: F64_UNIT_def)

text \<open>The magnitude in units, and the nearest pattern to a quotient of units.\<close>

definition mag_units :: "nat \<Rightarrow> nat" where
  "mag_units p = (let e = p div 2 ^ 52; f = p mod 2 ^ 52 in if e = 0 then f else (2 ^ 52 + f) * 2 ^ (e - 1))"

definition round_units :: "nat \<Rightarrow> nat \<Rightarrow> nat" where
  "round_units num den =
     (let k = floor_log2 (num div den) - 52;
          d = den * 2 ^ k;
          q = num div d;
          r = num mod d;
          q' = (if 2 * r > d \<or> (2 * r = d \<and> odd q) then q + 1 else q)
      in min F64_INF (k * 2 ^ 52 + q'))"

definition f64_units :: "f64 \<Rightarrow> int" where
  "f64_units b = (if f64_neg b then - int (mag_units (f64_mag b)) else int (mag_units (f64_mag b)))"

subsection \<open>Operations\<close>

definition f64_uminus :: "f64 \<Rightarrow> f64" where
  "f64_uminus b = f64_signed (\<not> f64_neg b) (f64_mag b)"

definition f64_add :: "f64 \<Rightarrow> f64 \<Rightarrow> f64" where
  "f64_add a b =
     (if f64_is_nan a \<or> f64_is_nan b then F64_NAN
      else if f64_is_inf a \<and> f64_is_inf b then if f64_neg a = f64_neg b then a else F64_NAN
      else if f64_is_inf a then a
      else if f64_is_inf b then b
      else
        let u = f64_units a + f64_units b
        in if u = 0 then f64_signed (f64_neg a \<and> f64_neg b) 0
           else f64_signed (u < 0) (round_units (nat \<bar>u\<bar>) 1))"

definition f64_sub :: "f64 \<Rightarrow> f64 \<Rightarrow> f64" where
  "f64_sub a b = f64_add a (f64_uminus b)"

definition f64_mul :: "f64 \<Rightarrow> f64 \<Rightarrow> f64" where
  "f64_mul a b =
     (let neg = (f64_neg a \<noteq> f64_neg b)
      in if f64_is_nan a \<or> f64_is_nan b then F64_NAN
         else if f64_is_inf a \<or> f64_is_inf b
              then if f64_mag a = 0 \<or> f64_mag b = 0 then F64_NAN else f64_signed neg F64_INF
         else f64_signed neg (round_units (mag_units (f64_mag a) * mag_units (f64_mag b)) F64_UNIT))"

definition f64_div :: "f64 \<Rightarrow> f64 \<Rightarrow> f64" where
  "f64_div a b =
     (let neg = (f64_neg a \<noteq> f64_neg b)
      in if f64_is_nan a \<or> f64_is_nan b then F64_NAN
         else if f64_is_inf a then if f64_is_inf b then F64_NAN else f64_signed neg F64_INF
         else if f64_is_inf b then f64_signed neg 0
         else if f64_mag b = 0 then if f64_mag a = 0 then F64_NAN else f64_signed neg F64_INF
         else f64_signed neg (round_units (mag_units (f64_mag a) * F64_UNIT) (mag_units (f64_mag b))))"

definition f64_cmp_key :: "f64 \<Rightarrow> int" where
  "f64_cmp_key b = (if f64_neg b then - int (f64_mag b) else int (f64_mag b))"

definition f64_ge :: "f64 \<Rightarrow> f64 \<Rightarrow> bool" where
  "f64_ge a b \<longleftrightarrow> \<not> f64_is_nan a \<and> \<not> f64_is_nan b \<and> f64_cmp_key b \<le> f64_cmp_key a"

text \<open>\<^verbatim>\<open>f64::max\<close>: the other operand when one is not a number.\<close>

definition f64_max :: "f64 \<Rightarrow> f64 \<Rightarrow> f64" where
  "f64_max a b = (if f64_is_nan a then b else if f64_is_nan b then a else if f64_ge a b then a else b)"

text \<open>\<^verbatim>\<open>as i64\<close>: towards zero, saturating, 0 for what is not a number.\<close>

definition f64_to_i64 :: "f64 \<Rightarrow> int" where
  "f64_to_i64 b =
     (if f64_is_nan b then 0
      else
        let m = (if f64_is_inf b then 2 ^ 63 else int (mag_units (f64_mag b) div F64_UNIT))
        in if f64_neg b then - min m (2 ^ 63) else min m (2 ^ 63 - 1))"

subsection \<open>Whole numbers are exact\<close>

lemma floor_log2_bounds: "0 < n \<Longrightarrow> 2 ^ floor_log2 n \<le> n \<and> n < 2 ^ Suc (floor_log2 n)"
proof (induction n rule: floor_log2.induct)
  case (1 n)
  show ?case
  proof (cases "n < 2")
    case True
    with 1 show ?thesis by (simp add: floor_log2.simps [of n])
  next
    case False
    then have "2 ^ floor_log2 (n div 2) \<le> n div 2 \<and> n div 2 < 2 ^ Suc (floor_log2 (n div 2))"
      using 1 by simp
    with False show ?thesis by (auto simp: floor_log2.simps [of n])
  qed
qed

lemma floor_log2_unique: "2 ^ e \<le> n \<Longrightarrow> n < 2 ^ Suc e \<Longrightarrow> floor_log2 n = e"
proof -
  assume a: "2 ^ e \<le> n" "n < 2 ^ Suc e"
  then have "0 < n" by (meson less_le_trans zero_less_numeral zero_less_power)
  then have b: "2 ^ floor_log2 n \<le> n" "n < 2 ^ Suc (floor_log2 n)" using floor_log2_bounds by auto
  have "(2 :: nat) ^ floor_log2 n < 2 ^ Suc e" "(2 :: nat) ^ e < 2 ^ Suc (floor_log2 n)"
    using a b by (meson order_le_less_trans)+
  then have "floor_log2 n < Suc e" "e < Suc (floor_log2 n)"
    using power_less_imp_less_exp [of "2 :: nat"] by (simp_all only: one_less_numeral_iff semiring_norm)
  then show ?thesis by simp
qed

lemma floor_log2_shift: "0 < n \<Longrightarrow> floor_log2 (n * 2 ^ k) = floor_log2 n + k"
  using floor_log2_bounds [of n] by (intro floor_log2_unique) (auto simp: power_add)

lemma floor_log2_unit: "0 < n \<Longrightarrow> floor_log2 (n * F64_UNIT) = floor_log2 n + 1074"
  unfolding F64_UNIT_def by (rule floor_log2_shift)

lemma floor_log2_below: "0 < n \<Longrightarrow> n < 2 ^ k \<Longrightarrow> floor_log2 n < k"
  using floor_log2_bounds [of n] by (metis le_less_trans nat_power_less_imp_less zero_less_numeral)

definition whole :: "nat \<Rightarrow> nat" where
  "whole n = (if n = 0 then 0 else (floor_log2 n + 1022) * 2 ^ 52 + n * 2 ^ (52 - floor_log2 n))"

lemma whole_bounds:
  assumes "0 < n" "n < 2 ^ 53"
  shows "floor_log2 n \<le> 52" "2 ^ 52 \<le> n * 2 ^ (52 - floor_log2 n)" "n * 2 ^ (52 - floor_log2 n) < 2 * 2 ^ 52"
proof -
  show e: "floor_log2 n \<le> 52" using floor_log2_below [OF assms] by simp
  have b: "2 ^ floor_log2 n \<le> n" "n < 2 ^ Suc (floor_log2 n)" using floor_log2_bounds assms by auto
  have p: "(2 :: nat) ^ 52 = 2 ^ floor_log2 n * 2 ^ (52 - floor_log2 n)" using e by (simp flip: power_add)
  show "2 ^ 52 \<le> n * 2 ^ (52 - floor_log2 n)" unfolding p using b(1) by (rule mult_le_mono1)
  have "n * 2 ^ (52 - floor_log2 n) < 2 ^ Suc (floor_log2 n) * 2 ^ (52 - floor_log2 n)"
    using b(2) by (rule mult_strict_right_mono) simp
  then show "n * 2 ^ (52 - floor_log2 n) < 2 * 2 ^ 52" unfolding p by simp
qed

lemma whole_less: "n < 2 ^ 53 \<Longrightarrow> whole n < F64_INF"
proof -
  assume n: "n < 2 ^ 53"
  show ?thesis
  proof (cases "n = 0")
    case False
    note b = whole_bounds [OF _ n]
    have "(floor_log2 n + 1022) * 2 ^ 52 \<le> 1074 * 2 ^ 52" using b(1) False by (intro mult_le_mono1) simp
    with b(3) False show ?thesis by (simp add: whole_def F64_INF_def)
  qed (simp add: whole_def F64_INF_def)
qed

lemma unat_whole: "n < 2 ^ 53 \<Longrightarrow> unat (word_of_nat (whole n) :: f64) = whole n"
  using whole_less [of n] by (simp add: unsigned_of_nat take_bit_nat_eq_self_iff F64_INF_def)

lemma nat_to_f64_whole: "n < 2 ^ 53 \<Longrightarrow> nat_to_f64 n = word_of_nat (whole n)"
proof -
  assume n: "n < 2 ^ 53"
  show ?thesis
  proof (cases "n = 0")
    case False
    note b = whole_bounds [OF _ n]
    have "(floor_log2 n + 1023) * 2 ^ 52 + (n * 2 ^ (52 - floor_log2 n) - 2 ^ 52) = whole n"
      using b(2) False by (simp add: whole_def algebra_simps)
    moreover have "nat_to_f64 n = word_of_nat ((floor_log2 n + 1023) * 2 ^ 52 + (n * 2 ^ (52 - floor_log2 n) - 2 ^ 52))"
      using b(1) False by (simp only: nat_to_f64_def Let_def if_False if_True simp_thms)
    ultimately show ?thesis by simp
  qed (simp add: nat_to_f64_def whole_def)
qed

lemma div_mod_parts: "r < k \<Longrightarrow> (a * k + r) div k = a" "r < k \<Longrightarrow> (a * k + r) mod k = r" for a r k :: nat
  by simp_all

lemma mag_units_whole:
  assumes "n < 2 ^ 53"
  shows "mag_units (whole n) = n * F64_UNIT"
proof (cases "n = 0")
  case False
  note b = whole_bounds [OF _ assms]
  define e where "e = floor_log2 n"
  define q where "q = n * 2 ^ (52 - e)"
  have q: "2 ^ 52 \<le> q" "q < 2 * 2 ^ 52" and e: "e \<le> 52" using b False by (auto simp: q_def e_def)
  have w: "whole n = (e + 1023) * 2 ^ 52 + (q - 2 ^ 52)" using False q by (simp add: whole_def q_def e_def)
  have "q - 2 ^ 52 < 2 ^ 52" using q by simp
  then have d: "whole n div 2 ^ 52 = e + 1023" "whole n mod 2 ^ 52 = q - 2 ^ 52"
    unfolding w by (rule div_mod_parts)+
  have "mag_units (whole n) = q * 2 ^ (e + 1022)"
    unfolding mag_units_def d Let_def using q by simp
  also have "\<dots> = n * 2 ^ ((52 - e) + (e + 1022))" by (simp only: q_def power_add mult.assoc)
  also have "(52 - e) + (e + 1022) = 1074" using e by simp
  finally show ?thesis by (simp only: F64_UNIT_def)
qed (simp add: whole_def mag_units_def)

lemma round_units_whole:
  assumes "n < 2 ^ 53" "0 < den"
  shows "round_units (n * F64_UNIT * den) den = whole n"
proof (cases "n = 0")
  case True
  then show ?thesis by (simp add: round_units_def whole_def floor_log2.simps)
next
  case False
  note b = whole_bounds [OF _ assms(1)]
  define e where "e = floor_log2 n"
  define k where "k = e + 1022"
  have e: "e \<le> 52" using b False by (simp add: e_def)
  have k: "floor_log2 (n * F64_UNIT * den div den) - 52 = k"
    using assms False by (simp add: floor_log2_unit k_def e_def)
  have "F64_UNIT = 2 ^ (52 - e) * 2 ^ k" using e by (simp add: k_def F64_UNIT_def flip: power_add)
  then have "n * F64_UNIT = n * 2 ^ (52 - e) * 2 ^ k" by simp
  then have p: "n * F64_UNIT * den = n * 2 ^ (52 - e) * (den * 2 ^ k)" by (simp add: mult_ac)
  have "(n * F64_UNIT * den) div (den * 2 ^ k) = n * 2 ^ (52 - e)"
      "(n * F64_UNIT * den) mod (den * 2 ^ k) = 0"
    unfolding p using assms(2) by simp_all
  then have "round_units (n * F64_UNIT * den) den = min F64_INF (k * 2 ^ 52 + n * 2 ^ (52 - e))"
    unfolding round_units_def k Let_def using assms(2) by simp
  also have "k * 2 ^ 52 + n * 2 ^ (52 - e) = whole n" using False by (simp add: whole_def k_def e_def)
  finally show ?thesis using whole_less [OF assms(1)] by simp
qed

lemma whole_pattern:
  assumes "n < 2 ^ 53"
  shows "f64_mag (nat_to_f64 n) = whole n" "\<not> f64_neg (nat_to_f64 n)" "\<not> f64_is_nan (nat_to_f64 n)"
    "\<not> f64_is_inf (nat_to_f64 n)"
  using unat_whole [OF assms] whole_less [OF assms] nat_to_f64_whole [OF assms]
  by (simp_all add: f64_mag_def f64_neg_def f64_is_nan_def f64_is_inf_def F64_INF_def)

lemma f64_units_whole: "n < 2 ^ 53 \<Longrightarrow> f64_units (nat_to_f64 n) = int (n * F64_UNIT)"
  by (simp add: f64_units_def whole_pattern mag_units_whole)

theorem f64_add_whole:
  assumes "a + b < 2 ^ 53"
  shows "f64_add (nat_to_f64 a) (nat_to_f64 b) = nat_to_f64 (a + b)"
proof -
  have ab: "a < 2 ^ 53" "b < 2 ^ 53" using assms by auto
  have u: "f64_units (nat_to_f64 a) + f64_units (nat_to_f64 b) = int ((a + b) * F64_UNIT)"
    using ab by (simp add: f64_units_whole algebra_simps)
  have r: "round_units ((a + b) * F64_UNIT) 1 = whole (a + b)"
    using round_units_whole [OF assms, of 1] by simp
  have n: "\<not> int ((a + b) * F64_UNIT) < 0" "nat \<bar>int ((a + b) * F64_UNIT)\<bar> = (a + b) * F64_UNIT"
      "int ((a + b) * F64_UNIT) = 0 \<longleftrightarrow> a + b = 0"
    by (simp_all only: abs_of_nat nat_int of_nat_less_0_iff of_nat_eq_0_iff mult_is_0 F64_UNIT_pos simp_thms)
  moreover have "\<not> (int a + int b) * int F64_UNIT < 0" by (simp add: mult_less_0_iff)
  ultimately show ?thesis
    unfolding f64_add_def u Let_def n r
    using ab nat_to_f64_whole [OF assms] by (simp add: whole_pattern f64_signed_def whole_def)
qed

theorem f64_mul_whole:
  assumes "a * b < 2 ^ 53" "a < 2 ^ 53" "b < 2 ^ 53"
  shows "f64_mul (nat_to_f64 a) (nat_to_f64 b) = nat_to_f64 (a * b)"
proof -
  have "mag_units (whole a) * mag_units (whole b) = a * b * F64_UNIT * F64_UNIT"
    using assms by (simp only: mag_units_whole mult_ac)
  then have "round_units (mag_units (whole a) * mag_units (whole b)) F64_UNIT = whole (a * b)"
    using round_units_whole [OF assms(1), of "F64_UNIT"] by simp
  then show ?thesis
    unfolding f64_mul_def Let_def
    using assms nat_to_f64_whole [OF assms(1)] by (simp add: whole_pattern f64_signed_def)
qed

theorem f64_to_i64_whole: "n < 2 ^ 53 \<Longrightarrow> f64_to_i64 (nat_to_f64 n) = int n"
  by (simp add: f64_to_i64_def whole_pattern mag_units_whole Let_def)

lemma f64_to_i64_range: "- (2 ^ 63) \<le> f64_to_i64 b" "f64_to_i64 b < 2 ^ 63"
  by (auto simp: f64_to_i64_def Let_def)

end
