(* ===== verification/Har_Time.thy ===== *)
theory Har_Time
  imports Float64
begin

text \<open>
  The calendar of the HAR export (\<^verbatim>\<open>browser-engine/src/network.rs\<close>,
  \<^verbatim>\<open>unix_secs_to_ymdhms\<close> and \<^verbatim>\<open>ymdhms_to_unix_secs\<close>). The values of type
  \<^verbatim>\<open>i64\<close> and \<^verbatim>\<open>u32\<close> are integers: the number of seconds is a quotient of a
  64-bit number of milliseconds, so no intermediate result leaves the 64-bit range, and the
  fields cast to \<^verbatim>\<open>u32\<close> are shown to be within the bounds of a date.
\<close>

subsection \<open>The conversions\<close>

definition unix_secs_to_ymdhms :: "int \<Rightarrow> int \<times> int \<times> int \<times> int \<times> int \<times> int" where
  "unix_secs_to_ymdhms secs =
     (let days = secs div 86400;
          seconds_of_day = secs mod 86400;
          h = seconds_of_day div 3600;
          mi = (seconds_of_day mod 3600) div 60;
          s = seconds_of_day mod 60;
          z = days + 719468;
          era = z div 146097;
          doe = z - era * 146097;
          yoe = (doe - doe div 1460 + doe div 36524 - doe div 146096) div 365;
          y_civ = yoe + era * 400;
          doy = doe - (365 * yoe + yoe div 4 - yoe div 100);
          mp = (5 * doy + 2) div 153;
          d = doy - (153 * mp + 2) div 5 + 1;
          mo = (if mp < 10 then mp + 3 else mp - 9);
          y = (if mo \<le> 2 then y_civ + 1 else y_civ)
      in (y, mo, d, h, mi, s))"

definition ymdhms_to_unix_secs :: "int \<Rightarrow> int \<Rightarrow> int \<Rightarrow> int \<Rightarrow> int \<Rightarrow> int \<Rightarrow> int" where
  "ymdhms_to_unix_secs y mo d h mi s =
     (let y_civ = (if mo \<le> 2 then y - 1 else y);
          era = y_civ div 400;
          yoe = y_civ - era * 400;
          m = (if mo > 2 then mo - 3 else mo + 9);
          doy = (153 * m + 2) div 5 + d - 1;
          doe = yoe * 365 + yoe div 4 - yoe div 100 + doy;
          days = era * 146097 + doe - 719468
      in days * 86400 + h * 3600 + mi * 60 + s)"

subsection \<open>The Gregorian calendar\<close>

definition leap_year :: "int \<Rightarrow> bool" where
  "leap_year y \<longleftrightarrow> 4 dvd y \<and> (\<not> 100 dvd y \<or> 400 dvd y)"

definition month_days :: "int \<Rightarrow> int \<Rightarrow> int" where
  "month_days y mo =
     (if mo = 2 then if leap_year y then 29 else 28
      else if mo \<in> {4, 6, 9, 11} then 30 else 31)"

definition valid_date :: "int \<times> int \<times> int \<Rightarrow> bool" where
  "valid_date = (\<lambda>(y, mo, d). 1 \<le> mo \<and> mo \<le> 12 \<and> 1 \<le> d \<and> d \<le> month_days y mo)"

definition next_date :: "int \<times> int \<times> int \<Rightarrow> int \<times> int \<times> int" where
  "next_date = (\<lambda>(y, mo, d).
     if d < month_days y mo then (y, mo, d + 1)
     else if mo < 12 then (y, mo + 1, 1) else (y + 1, 1, 1))"

definition date_of :: "int \<Rightarrow> int \<times> int \<times> int" where
  "date_of secs = (let (y, mo, d, _) = unix_secs_to_ymdhms secs in (y, mo, d))"

subsection \<open>Years of an era\<close>

text \<open>
  A day is placed by its era of 400 years, the year of the era (years begin in March) and the
  day of that year.
\<close>

definition year_start :: "int \<Rightarrow> int" where
  "year_start yoe = 365 * yoe + yoe div 4 - yoe div 100"

definition yoe_of :: "int \<Rightarrow> int" where
  "yoe_of doe = (doe - doe div 1460 + doe div 36524 - doe div 146096) div 365"

definition year_len :: "int \<Rightarrow> int" where
  "year_len yoe = (if leap_year (yoe + 1) then 366 else 365)"

lemma year_start_parts:
  assumes "0 \<le> y" "y \<le> 400"
  obtains c q r where "0 \<le> c" "c \<le> 4" "0 \<le> q" "q < 25" "0 \<le> r" "r < 4" "y = 100 * c + 4 * q + r"
    "year_start y = 36524 * c + 1461 * q + 365 * r"
proof -
  define c where "c = y div 100"
  define q where "q = (y mod 100) div 4"
  define r where "r = (y mod 100) mod 4"
  have y: "y = 100 * c + 4 * q + r" by (simp add: c_def q_def r_def)
  have c: "0 \<le> c" "c \<le> 4" using assms by (simp_all add: c_def)
  have "q * 4 \<le> y mod 100" "y mod 100 < 100" by (simp_all add: q_def)
  moreover have "0 \<le> q" by (simp add: q_def pos_imp_zdiv_nonneg_iff)
  ultimately have b: "0 \<le> c" "c \<le> 4" "0 \<le> q" "q < 25" "0 \<le> r" "r < 4"
    using c by (auto simp: r_def)
  have "y div 4 = 25 * c + q"
    by (rule int_div_pos_eq [where r = r]) (use y b in auto)
  moreover have "y div 100 = c"
    by (rule int_div_pos_eq [where r = "4 * q + r"]) (use y b in auto)
  ultimately have "year_start y = 36524 * c + 1461 * q + 365 * r" by (simp add: year_start_def y)
  with b y that show thesis by blast
qed

lemma year_start_pos:
  assumes "0 \<le> y" "y \<le> 400"
  shows "0 \<le> year_start y \<and> year_start y \<le> 146096"
proof -
  from assms obtain c q r where p: "0 \<le> c" "c \<le> 4" "0 \<le> q" "q < 25" "0 \<le> r" "r < 4"
      "y = 100 * c + 4 * q + r" and s: "year_start y = 36524 * c + 1461 * q + 365 * r"
    by (rule year_start_parts)
  then show ?thesis using assms by linarith
qed

lemma div_next: "0 < k \<Longrightarrow> (y + 1) div k = y div k + (if k dvd y + 1 then 1 else 0)" for y k :: int
proof -
  assume k: "0 < k"
  define a where "a = y div k"
  define b where "b = y mod k"
  have y: "y = a * k + b" and b: "0 \<le> b" "b < k" using k by (simp_all add: a_def b_def)
  show ?thesis
  proof (cases "b + 1 = k")
    case True
    then have n: "y + 1 = (a + 1) * k" using y by (simp add: algebra_simps)
    then have "k dvd y + 1" "(y + 1) div k = a + 1" using k by simp_all
    then show ?thesis by (simp add: a_def)
  next
    case False
    then have n: "y + 1 = (b + 1) + a * k" "0 \<le> b + 1" "b + 1 < k" using y b by auto
    have "(y + 1) div k = a" unfolding n(1) using n(2,3) k by simp
    moreover have "\<not> k dvd y + 1"
      unfolding n(1) using n(2,3) b by (auto simp: dvd_add_left_iff dest: zdvd_imp_le)
    ultimately show ?thesis by (simp add: a_def)
  qed
qed

lemma year_len_step:
  assumes "0 \<le> y" "y < 399"
  shows "year_start (y + 1) = year_start y + year_len y"
proof -
  have "\<not> 400 dvd y + 1" using assms by (auto dest: zdvd_imp_le)
  moreover have "4 dvd y + 1" if "100 dvd y + 1"
    using that by (rule dvd_trans [rotated]) simp
  ultimately show ?thesis
    by (auto simp: year_start_def year_len_def leap_year_def div_next)
qed

text \<open>The number of days without the leap days, on the first day of a year and on the day before.\<close>

lemma first_day:
  assumes "0 \<le> y" "y < 400"
  shows "year_start y - year_start y div 1460 + year_start y div 36524 = 365 * y"
proof -
  from assms have "0 \<le> y" "y \<le> 400" by auto
  then obtain c q r where p: "0 \<le> c" "c \<le> 4" "0 \<le> q" "q < 25" "0 \<le> r" "r < 4"
      "y = 100 * c + 4 * q + r" and s: "year_start y = 36524 * c + 1461 * q + 365 * r"
    by (rule year_start_parts)
  have "c < 4" using p assms by linarith
  have "year_start y div 1460 = 25 * c + q"
    using p s by (intro int_div_pos_eq [where r = "24 * c + q + 365 * r"]) auto
  moreover have "year_start y div 36524 = c"
    using p s by (intro int_div_pos_eq [where r = "1461 * q + 365 * r"]) auto
  ultimately show ?thesis using p s by simp
qed

lemma last_day:
  assumes "0 < y" "y \<le> 400"
  shows "year_start y - 1 - (year_start y - 1) div 1460 + (year_start y - 1) div 36524 < 365 * y"
proof -
  from assms have "0 \<le> y" "y \<le> 400" by auto
  then obtain c q r where p: "0 \<le> c" "c \<le> 4" "0 \<le> q" "q < 25" "0 \<le> r" "r < 4"
      "y = 100 * c + 4 * q + r" and s: "year_start y = 36524 * c + 1461 * q + 365 * r"
    by (rule year_start_parts)
  have "0 < 24 * c + q + 365 * r" using p assms by linarith
  then have "(year_start y - 1) div 1460 = 25 * c + q"
    using p s by (intro int_div_pos_eq [where r = "24 * c + q + 365 * r - 1"]) auto
  moreover have "(year_start y - 1) div 36524 \<le> c"
  proof -
    have "q \<le> 24" "r \<le> 3" using p by auto
    then have "year_start y - 1 < 36524 * (c + 1)" using s by (simp add: algebra_simps)
    then have "(year_start y - 1) div 36524 < c + 1" by (simp add: div_less_iff_less_mult mult.commute)
    then show ?thesis by simp
  qed
  ultimately show ?thesis using p s by simp
qed

lemma yoe_of_within:
  assumes y: "0 \<le> y" "y < 400" and d: "year_start y \<le> doe" "doe < year_start (y + 1)"
  shows "yoe_of doe = y"
proof -
  define f where "f = (\<lambda>d :: int. d - d div 1460 + d div 36524)"
  have m: "f a \<le> f b" if "a \<le> b" for a b
  proof -
    have "b div 1460 - a div 1460 \<le> b - a" using that by linarith
    moreover have "a div 36524 \<le> b div 36524" using that by (rule zdiv_mono1) simp
    ultimately show ?thesis by (simp add: f_def)
  qed
  have c: "365 * y \<le> f (year_start y)" "f (year_start (y + 1) - 1) < 365 * (y + 1)"
      "0 \<le> year_start y" "year_start (y + 1) - 1 < 146096"
    using first_day [OF y] last_day [of "y + 1"] year_start_pos [of y] year_start_pos [of "y + 1"] y
    by (auto simp: f_def)
  have "365 * y \<le> f doe" using c(1) m [OF d(1)] by linarith
  moreover have "f doe < 365 * (y + 1)" using c(2) m [of doe "year_start (y + 1) - 1"] d(2) by linarith
  moreover have "doe div 146096 = 0" using c d by (intro div_pos_pos_trivial) linarith+
  ultimately show ?thesis by (simp add: yoe_of_def f_def)
qed

lemma yoe_of_day:
  assumes y: "0 \<le> y" "y < 400" and d: "0 \<le> doy" "doy < year_len y"
  shows "yoe_of (year_start y + doy) = y"
proof (cases "y = 399")
  case False
  with y d show ?thesis by (intro yoe_of_within) (auto simp: year_len_step)
next
  case True
  show ?thesis
  proof (cases "doy = 365")
    case True
    with \<open>y = 399\<close> show ?thesis by (simp add: year_start_def yoe_of_def)
  next
    case False
    with \<open>y = 399\<close> d show ?thesis
      by (intro yoe_of_within) (auto simp: year_start_def year_len_def leap_year_def)
  qed
qed

lemma day_of_era_cases:
  assumes "0 \<le> doe" "doe < year_start (int n)"
  shows "\<exists>y. 0 \<le> y \<and> y < int n \<and> year_start y \<le> doe \<and> doe < year_start (y + 1)"
  using assms
proof (induction n)
  case 0
  then show ?case by (simp add: year_start_def)
next
  case (Suc n)
  show ?case
  proof (cases "doe < year_start (int n)")
    case True
    then obtain y where "0 \<le> y" "y < int n" "year_start y \<le> doe" "doe < year_start (y + 1)"
      using Suc by blast
    then show ?thesis by (intro exI [of _ y]) auto
  next
    case False
    then show ?thesis using Suc.prems by (intro exI [of _ "int n"]) (auto simp: add.commute)
  qed
qed

lemma day_split:
  obtains era yoe doy where "0 \<le> yoe" "yoe < 400" "0 \<le> doy" "doy < year_len yoe"
    and "z = era * 146097 + year_start yoe + doy"
proof -
  define doe where "doe = z mod 146097"
  have z: "z = (z div 146097) * 146097 + doe" and b: "0 \<le> doe" "doe < 146097"
    by (simp_all add: doe_def)
  show thesis
  proof (cases "doe = 146096")
    case True
    show thesis
      by (rule that [of 399 365 "z div 146097"])
        (use z True in \<open>auto simp: year_start_def year_len_def leap_year_def\<close>)
  next
    case False
    have "year_start (int 400) = 146096" by (simp add: year_start_def)
    with b False obtain y where y: "0 \<le> y" "y < 400" "year_start y \<le> doe" "doe < year_start (y + 1)"
      using day_of_era_cases [of doe 400] by auto
    have "year_start (y + 1) \<le> year_start y + year_len y"
      using y year_len_step [of y] by (cases "y = 399") (auto simp: year_start_def year_len_def leap_year_def)
    then show thesis
      using y z by (intro that [of y "doe - year_start y" "z div 146097"]) auto
  qed
qed

subsection \<open>Months of a year\<close>

definition month_of :: "int \<Rightarrow> int" where
  "month_of doy = (let mp = (5 * doy + 2) div 153 in if mp < 10 then mp + 3 else mp - 9)"

definition dom_of :: "int \<Rightarrow> int" where
  "dom_of doy = doy - (153 * ((5 * doy + 2) div 153) + 2) div 5 + 1"

definition doy_of :: "int \<Rightarrow> int \<Rightarrow> int" where
  "doy_of mo d = (153 * (if mo > 2 then mo - 3 else mo + 9) + 2) div 5 + d - 1"

definition date_at :: "int \<Rightarrow> int \<Rightarrow> int \<Rightarrow> int \<times> int \<times> int" where
  "date_at era yoe doy =
     (let y = yoe + era * 400; mo = month_of doy in (if mo \<le> 2 then y + 1 else y, mo, dom_of doy))"

definition month_max :: "int \<Rightarrow> int" where
  "month_max mo = (if mo = 2 then 29 else if mo \<in> {4, 6, 9, 11} then 30 else 31)"

lemma month_cases:
  assumes "0 \<le> doy" "doy < 366"
  shows "(doy < 31 \<and> month_of doy = 3 \<and> dom_of doy = doy + 1) \<or>
    (31 \<le> doy \<and> doy < 61 \<and> month_of doy = 4 \<and> dom_of doy = doy - 30) \<or>
    (61 \<le> doy \<and> doy < 92 \<and> month_of doy = 5 \<and> dom_of doy = doy - 60) \<or>
    (92 \<le> doy \<and> doy < 122 \<and> month_of doy = 6 \<and> dom_of doy = doy - 91) \<or>
    (122 \<le> doy \<and> doy < 153 \<and> month_of doy = 7 \<and> dom_of doy = doy - 121) \<or>
    (153 \<le> doy \<and> doy < 184 \<and> month_of doy = 8 \<and> dom_of doy = doy - 152) \<or>
    (184 \<le> doy \<and> doy < 214 \<and> month_of doy = 9 \<and> dom_of doy = doy - 183) \<or>
    (214 \<le> doy \<and> doy < 245 \<and> month_of doy = 10 \<and> dom_of doy = doy - 213) \<or>
    (245 \<le> doy \<and> doy < 275 \<and> month_of doy = 11 \<and> dom_of doy = doy - 244) \<or>
    (275 \<le> doy \<and> doy < 306 \<and> month_of doy = 12 \<and> dom_of doy = doy - 274) \<or>
    (306 \<le> doy \<and> doy < 337 \<and> month_of doy = 1 \<and> dom_of doy = doy - 305) \<or>
    (337 \<le> doy \<and> month_of doy = 2 \<and> dom_of doy = doy - 336)"
proof -
  define mp where "mp = (5 * doy + 2) div 153"
  have b: "153 * mp \<le> 5 * doy + 2" "5 * doy + 2 < 153 * mp + 153"
    unfolding mp_def by linarith+
  have "0 \<le> mp \<and> mp \<le> 11" using assms unfolding mp_def by linarith
  then have "mp = 0 \<or> mp = 1 \<or> mp = 2 \<or> mp = 3 \<or> mp = 4 \<or> mp = 5 \<or> mp = 6 \<or> mp = 7 \<or> mp = 8 \<or>
      mp = 9 \<or> mp = 10 \<or> mp = 11"
    by presburger
  with b assms show ?thesis
    unfolding month_of_def dom_of_def Let_def mp_def [symmetric] by (elim disjE; simp)
qed

lemma doy_of_month:
  assumes "0 \<le> doy" "doy < 366"
  shows "doy_of (month_of doy) (dom_of doy) = doy" "1 \<le> month_of doy" "month_of doy \<le> 12" "1 \<le> dom_of doy"
  using month_cases [OF assms] assms by (elim disjE; simp add: doy_of_def)+

lemma month_of_doy:
  assumes "mo \<in> {1, 2, 3, 4, 5, 6, 7, 8, 9, 10, 11, 12}" "1 \<le> d"
    and "d \<le> month_max mo"
  shows "month_of (doy_of mo d) = mo" "dom_of (doy_of mo d) = d"
proof -
  define m where "m = (if mo > 2 then mo - 3 else mo + 9)"
  have *: "(5 * doy_of mo d + 2) div 153 = m"
    using assms unfolding doy_of_def m_def month_max_def by (elim insertE; simp; linarith)
  show "month_of (doy_of mo d) = mo"
    using assms(1) unfolding month_of_def Let_def * by (auto simp: m_def)
  show "dom_of (doy_of mo d) = d"
    unfolding dom_of_def * by (simp add: doy_of_def m_def)
qed

lemma month_values:
  assumes "0 \<le> doy" "doy < 366"
  shows "month_of doy \<in> {1, 2, 3, 4, 5, 6, 7, 8, 9, 10, 11, 12}"
    "dom_of doy \<le> month_max (month_of doy)"
  using month_cases [OF assms] assms by (elim disjE; simp add: month_max_def)+

lemma next_doy:
  assumes "0 \<le> doy" "doy < 365"
  shows "(month_of (doy + 1), dom_of (doy + 1)) =
    (if dom_of doy < month_max (month_of doy)
     then (month_of doy, dom_of doy + 1) else (if month_of doy < 12 then month_of doy + 1 else 1, 1))"
proof -
  have b: "doy < 366" using assms by simp
  define mo where "mo = month_of doy"
  define d where "d = dom_of doy"
  note v = month_values [OF assms(1) b, folded mo_def d_def]
  note w = doy_of_month [OF assms(1) b, folded mo_def d_def]
  show ?thesis
  proof (cases "d < month_max mo")
    case True
    have "doy + 1 = doy_of mo (d + 1)" using w(1) by (simp add: doy_of_def)
    moreover have "month_of (doy_of mo (d + 1)) = mo" "dom_of (doy_of mo (d + 1)) = d + 1"
      by (rule month_of_doy [OF v(1)]; use w True in auto)+
    ultimately show ?thesis using True by (simp add: mo_def d_def)
  next
    case False
    then have "d = month_max mo" using v(2) by simp
    then have "mo \<noteq> 2" "doy + 1 = doy_of (if mo < 12 then mo + 1 else 1) 1"
      using v(1) w(1) assms(2) by (auto simp: doy_of_def month_max_def)
    moreover have "month_of (doy_of (if mo < 12 then mo + 1 else 1) 1) = (if mo < 12 then mo + 1 else 1)"
        "dom_of (doy_of (if mo < 12 then mo + 1 else 1) 1) = 1"
      by (rule month_of_doy; use v(1) in \<open>auto simp: month_max_def\<close>)+
    ultimately show ?thesis using False by (simp add: mo_def d_def)
  qed
qed

subsection \<open>Both conversions on the parts of a day\<close>

definition midnight :: "int \<Rightarrow> int \<Rightarrow> int \<Rightarrow> int" where
  "midnight era yoe doy = (era * 146097 + year_start yoe + doy - 719468) * 86400"

lemma era_of_parts:
  assumes "0 \<le> yoe" "yoe < 400" "0 \<le> doy" "doy < year_len yoe"
  shows "(era * 146097 + year_start yoe + doy) div 146097 = era"
proof -
  have "year_start yoe + doy < 146097"
  proof (cases "yoe = 399")
    case True
    then show ?thesis using assms by (simp add: year_start_def year_len_def leap_year_def)
  next
    case False
    then show ?thesis using assms year_len_step [of yoe] year_start_pos [of "yoe + 1"] by simp
  qed
  moreover have "0 \<le> year_start yoe" using year_start_pos assms by simp
  ultimately show ?thesis
    using assms by (intro int_div_pos_eq [where r = "year_start yoe + doy"]) auto
qed

lemma unix_secs_to_ymdhms_via:
  "unix_secs_to_ymdhms secs =
     (let t = secs mod 86400; z = secs div 86400 + 719468; era = z div 146097; doe = z - era * 146097;
          yoe = yoe_of doe; doy = doe - year_start yoe; mo = month_of doy; y = yoe + era * 400
      in (if mo \<le> 2 then y + 1 else y, mo, dom_of doy, t div 3600, (t mod 3600) div 60, t mod 60))"
  unfolding unix_secs_to_ymdhms_def yoe_of_def year_start_def month_of_def dom_of_def Let_def ..

lemma ymdhms_to_unix_secs_via:
  "ymdhms_to_unix_secs y mo d h mi s =
     (let y_civ = (if mo \<le> 2 then y - 1 else y); era = y_civ div 400; yoe = y_civ - era * 400
      in (era * 146097 + (year_start yoe + doy_of mo d) - 719468) * 86400 + h * 3600 + mi * 60 + s)"
  unfolding ymdhms_to_unix_secs_def year_start_def doy_of_def Let_def by (simp only: mult.commute [of 365])

lemma time_of_day: "0 \<le> t \<Longrightarrow> t < 86400 \<Longrightarrow> (z * 86400 + t) div 86400 = z \<and> (z * 86400 + t) mod 86400 = t" for t z :: int
  by simp

lemma unix_secs_to_ymdhms_parts:
  assumes "0 \<le> yoe" "yoe < 400" "0 \<le> doy" "doy < year_len yoe" "0 \<le> t" "t < 86400"
  shows "unix_secs_to_ymdhms (midnight era yoe doy + t) =
    (let (y, mo, d) = date_at era yoe doy in (y, mo, d, t div 3600, (t mod 3600) div 60, t mod 60))"
proof -
  let ?secs = "midnight era yoe doy + t"
  have d: "?secs div 86400 = era * 146097 + year_start yoe + doy - 719468" and m: "?secs mod 86400 = t"
    unfolding midnight_def using time_of_day assms(5,6) by blast+
  have e: "(era * 146097 + year_start yoe + doy) div 146097 = era" by (rule era_of_parts) fact+
  have z: "?secs div 86400 + 719468 = era * 146097 + year_start yoe + doy" unfolding d by simp
  have doe: "era * 146097 + year_start yoe + doy - era * 146097 = year_start yoe + doy" by simp
  have yoe: "yoe_of (year_start yoe + doy) = yoe" by (rule yoe_of_day) fact+
  have doy: "year_start yoe + doy - year_start yoe = doy" by simp
  show ?thesis
    unfolding unix_secs_to_ymdhms_via z m Let_def e doe yoe doy
    unfolding date_at_def Let_def prod.case ..
qed

lemma ymdhms_to_unix_secs_parts:
  assumes "0 \<le> yoe" "yoe < 400" "0 \<le> doy" "doy < year_len yoe"
  shows "(let (y, mo, d) = date_at era yoe doy in ymdhms_to_unix_secs y mo d h mi s) =
    midnight era yoe doy + h * 3600 + mi * 60 + s"
proof -
  have "doy < 366" using assms by (simp add: year_len_def split: if_splits)
  then have d: "doy_of (month_of doy) (dom_of doy) = doy" using assms by (intro doy_of_month) auto
  have y: "(if month_of doy \<le> 2 then (if month_of doy \<le> 2 then yoe + era * 400 + 1 else yoe + era * 400) - 1
      else (if month_of doy \<le> 2 then yoe + era * 400 + 1 else yoe + era * 400)) = yoe + era * 400"
    by simp
  have e: "(yoe + era * 400) div 400 = era" using assms by simp
  have yoe: "yoe + era * 400 - era * 400 = yoe" by simp
  show ?thesis
    unfolding date_at_def Let_def ymdhms_to_unix_secs_via prod.case y e yoe d midnight_def
    by (simp only: add.assoc)
qed

lemma date_of_parts:
  assumes "0 \<le> yoe" "yoe < 400" "0 \<le> doy" "doy < year_len yoe" "0 \<le> t" "t < 86400"
  shows "date_of (midnight era yoe doy + t) = date_at era yoe doy"
  by (simp add: date_of_def unix_secs_to_ymdhms_parts [OF assms] split: prod.split)

lemma secs_split:
  obtains era yoe doy t where "0 \<le> yoe" "yoe < 400" "0 \<le> doy" "doy < year_len yoe" "0 \<le> t" "t < 86400"
    and "secs = midnight era yoe doy + t"
proof -
  obtain era yoe doy where p: "0 \<le> yoe" "yoe < 400" "0 \<le> doy" "doy < year_len yoe"
      and z: "secs div 86400 + 719468 = era * 146097 + year_start yoe + doy"
    by (rule day_split)
  have "midnight era yoe doy = secs div 86400 * 86400" unfolding midnight_def z [symmetric] by simp
  then have "secs = midnight era yoe doy + secs mod 86400" by simp
  with p that [of yoe doy "secs mod 86400" era] show thesis by simp
qed

text \<open>The day after the last day of a year of an era is the first of the next one.\<close>

lemma next_midnight:
  assumes "0 \<le> yoe" "yoe < 400" "0 \<le> doy" "doy < year_len yoe"
  shows "\<exists>era' yoe' doy'. 0 \<le> yoe' \<and> yoe' < 400 \<and> 0 \<le> doy' \<and> doy' < year_len yoe' \<and>
    midnight era yoe doy + 86400 = midnight era' yoe' doy' \<and>
    (if doy + 1 < year_len yoe then yoe' + era' * 400 = yoe + era * 400 \<and> doy' = doy + 1
     else yoe' + era' * 400 = yoe + era * 400 + 1 \<and> doy' = 0)"
proof (cases "doy + 1 < year_len yoe")
  case True
  with assms show ?thesis by (intro exI [of _ era] exI [of _ yoe] exI [of _ "doy + 1"]) (simp add: midnight_def)
next
  case False
  then have l: "doy + 1 = year_len yoe" using assms by simp
  show ?thesis
  proof (cases "yoe = 399")
    case True
    with l show ?thesis
      by (intro exI [of _ "era + 1"] exI [of _ 0] exI [of _ 0])
        (simp add: midnight_def year_start_def year_len_def leap_year_def)
  next
    case False
    with l assms year_len_step [of yoe] show ?thesis
      by (intro exI [of _ era] exI [of _ "yoe + 1"] exI [of _ 0])
        (simp add: midnight_def, simp add: year_len_def)
  qed
qed

lemma leap_era: "leap_year (y + era * 400) = leap_year y"
proof -
  have "k dvd y + era * 400 \<longleftrightarrow> k dvd y" if "k dvd (400 :: int)" for k
    using that by (simp add: dvd_add_left_iff)
  then show ?thesis by (simp add: leap_year_def)
qed

lemma month_days_max: "mo \<noteq> 2 \<Longrightarrow> month_days y mo = month_max mo"
  by (simp add: month_days_def month_max_def)

lemma next_date_at:
  assumes "0 \<le> yoe" "yoe < 400" "0 \<le> doy" "doy < year_len yoe"
    and n: "if doy + 1 < year_len yoe then yoe' + era' * 400 = yoe + era * 400 \<and> doy' = doy + 1
     else yoe' + era' * 400 = yoe + era * 400 + 1 \<and> doy' = 0"
  shows "date_at era' yoe' doy' = next_date (date_at era yoe doy)" and "valid_date (date_at era yoe doy)"
proof -
  define y where "y = yoe + era * 400"
  define mo where "mo = month_of doy"
  define d where "d = dom_of doy"
  have "leap_year (y + 1) \<longleftrightarrow> year_len yoe = 366"
    using leap_era [of "yoe + 1" era] by (simp add: year_len_def y_def add_ac)
  then have l: "month_days (y + 1) 2 = year_len yoe - 337"
    by (simp add: month_days_def year_len_def split: if_splits)
  have b: "doy < 366" using assms(4) by (simp add: year_len_def split: if_splits)
  have feb: "d = doy - 336" if "mo = 2"
    using month_cases [OF assms(3) b] that unfolding mo_def d_def by (elim disjE; simp)
  have feb_last: "mo = 2" if "364 \<le> doy"
    using month_cases [OF assms(3) b] that unfolding mo_def d_def by (elim disjE; simp)
  have r: "1 \<le> mo" "mo \<le> 12" "1 \<le> d" "d \<le> month_max mo"
    unfolding mo_def d_def using doy_of_month month_values assms(3) b by blast+
  have date: "date_at era yoe doy = (if mo \<le> 2 then y + 1 else y, mo, d)"
    by (simp add: date_at_def Let_def mo_def d_def y_def)
  show "valid_date (date_at era yoe doy)"
    unfolding date valid_date_def using r l feb assms(4) month_days_max [of mo]
    by (cases "mo = 2") auto
  show "date_at era' yoe' doy' = next_date (date_at era yoe doy)"
  proof (cases "doy + 1 < year_len yoe")
    case True
    then have "doy < 365" by (simp add: year_len_def split: if_splits)
    note s = next_doy [OF assms(3) this, folded mo_def d_def]
    have "date_at era' yoe' doy' = (if month_of (doy + 1) \<le> 2 then y + 1 else y, month_of (doy + 1), dom_of (doy + 1))"
      using n True by (simp add: date_at_def Let_def y_def)
    then show ?thesis
      unfolding date next_date_def using s r l feb True month_days_max [of mo] \<open>doy < 365\<close>
      by (cases "mo = 2") (auto simp: month_max_def [of 2] split: if_splits)
  next
    case False
    then have "364 \<le> doy" "doy + 1 = year_len yoe"
      using assms(4) by (simp_all add: year_len_def split: if_splits)
    then have "mo = 2" "d = month_days (y + 1) 2" using feb_last feb l by auto
    moreover have "month_of 0 = 3" "dom_of 0 = 1" by (simp_all add: month_of_def dom_of_def)
    ultimately show ?thesis
      unfolding date next_date_def using n False by (simp add: date_at_def Let_def y_def)
  qed
qed

lemma time_parts: "t div 3600 * 3600 + (t mod 3600) div 60 * 60 + t mod 60 = t" for t :: int
proof -
  have "t mod 60 = (t mod 3600) mod 60" by (rule mod_mod_cancel [symmetric]) simp
  then have "(t mod 3600) div 60 * 60 + t mod 60 = t mod 3600" by (simp only: div_mult_mod_eq)
  then show ?thesis by (simp only: add.assoc div_mult_mod_eq)
qed

subsection \<open>The conversions follow the calendar\<close>

lemma calendar_conversion:
  "unix_secs_to_ymdhms 0 = (1970, 1, 1, 0, 0, 0) \<and>
   (let (y, mo, d, h, mi, s) = unix_secs_to_ymdhms secs
    in valid_date (y, mo, d) \<and> 0 \<le> h \<and> h < 24 \<and> 0 \<le> mi \<and> mi < 60 \<and> 0 \<le> s \<and> s < 60 \<and>
       (let (y', mo', d') = next_date (y, mo, d)
        in unix_secs_to_ymdhms (secs + 86400) = (y', mo', d', h, mi, s)) \<and>
       ymdhms_to_unix_secs y mo d h mi s = secs)"
proof -
  obtain era yoe doy t where p: "0 \<le> yoe" "yoe < 400" "0 \<le> doy" "doy < year_len yoe"
      and t: "0 \<le> t" "t < 86400" and secs: "secs = midnight era yoe doy + t"
    by (rule secs_split)
  obtain era' yoe' doy' where p': "0 \<le> yoe'" "yoe' < 400" "0 \<le> doy'" "doy' < year_len yoe'"
      and secs': "midnight era yoe doy + 86400 = midnight era' yoe' doy'"
      and n: "if doy + 1 < year_len yoe then yoe' + era' * 400 = yoe + era * 400 \<and> doy' = doy + 1
        else yoe' + era' * 400 = yoe + era * 400 + 1 \<and> doy' = 0"
    using next_midnight [OF p] by blast
  have "secs + 86400 = midnight era' yoe' doy' + t" using secs secs' by simp
  note u = unix_secs_to_ymdhms_parts [OF p t, of era, folded secs]
    and u' = unix_secs_to_ymdhms_parts [OF p' t, of era', folded this]
    and v = ymdhms_to_unix_secs_parts [OF p, of era]
    and nd = next_date_at [OF p n]
  obtain y mo d where date: "date_at era yoe doy = (y, mo, d)" by (cases "date_at era yoe doy")
  obtain y' mo' d' where date': "next_date (y, mo, d) = (y', mo', d')" by (cases "next_date (y, mo, d)")
  define h where "h = t div 3600"
  define mi where "mi = (t mod 3600) div 60"
  define s where "s = t mod 60"
  have today: "unix_secs_to_ymdhms secs = (y, mo, d, h, mi, s)"
    unfolding u date h_def mi_def s_def Let_def prod.case ..
  have "date_at era' yoe' doy' = (y', mo', d')" using nd(1) date date' by simp
  then have tomorrow: "unix_secs_to_ymdhms (secs + 86400) = (y', mo', d', h, mi, s)"
    unfolding u' h_def mi_def s_def by simp
  have "h * 3600 + mi * 60 + s = t" by (rule time_parts [of t, folded h_def mi_def s_def])
  then have inverse_secs: "ymdhms_to_unix_secs y mo d h mi s = secs"
    using v [of h mi s] unfolding date secs Let_def prod.case by simp
  have valid: "valid_date (y, mo, d)" using nd(2) date by simp
  have times: "0 \<le> h" "h < 24" "0 \<le> mi" "mi < 60" "0 \<le> s" "s < 60"
    using t by (simp_all add: h_def mi_def s_def div_less_iff_less_mult pos_imp_zdiv_nonneg_iff)
  have epoch: "unix_secs_to_ymdhms 0 = (1970, 1, 1, 0, 0, 0)" by code_simp
  show ?thesis
    unfolding today Let_def prod.case date' using epoch valid times tomorrow inverse_secs by blast
qed

text \<open>
  C32. The conversion of seconds to a date and a time of day is the Gregorian calendar. Second 0 is
  midnight of 1970-01-01, every result is a valid date with a valid time of day, one day later is
  the next date of the calendar (leap years included) at the same time, and the other conversion
  takes the result back to the second it came from, for every number of seconds, before 1970 too.
\<close>
theorem calendar_exact:
  "unix_secs_to_ymdhms 0 = (1970, 1, 1, 0, 0, 0) \<and>
   (let (y, mo, d, h, mi, s) = unix_secs_to_ymdhms secs
    in valid_date (y, mo, d) \<and> 0 \<le> h \<and> h < 24 \<and> 0 \<le> mi \<and> mi < 60 \<and> 0 \<le> s \<and> s < 60 \<and>
       (let (y', mo', d') = next_date (y, mo, d)
        in unix_secs_to_ymdhms (secs + 86400) = (y', mo', d', h, mi, s)) \<and>
       ymdhms_to_unix_secs y mo d h mi s = secs)"
  by (rule calendar_conversion)

subsection \<open>Dates as text\<close>

text \<open>
  A 64-bit number divided towards zero, and a number printed with at least the given width. The text that
  is parsed is always one that was printed, hence ASCII, so byte offsets are offsets of characters.
\<close>

definition div_trunc :: "int \<Rightarrow> int \<Rightarrow> int" where
  "div_trunc a b = (if a < 0 then - ((- a) div b) else a div b)"

definition pad_int :: "nat \<Rightarrow> int \<Rightarrow> string" where
  "pad_int w i = (if i < 0 then ''-'' @ pad_dec (w - 1) (nat (- i)) else pad_dec w (nat i))"

definition wall_ms_to_rfc3339 :: "f64 \<Rightarrow> string" where
  "wall_ms_to_rfc3339 wall_ms =
     (let ms = f64_to_i64 wall_ms;
          secs = div_trunc ms 1000;
          frac = \<bar>ms\<bar> mod 1000;
          (y, mo, d, h, mi, s) = unix_secs_to_ymdhms secs
      in pad_int 4 y @ ''-'' @ pad_int 2 mo @ ''-'' @ pad_int 2 d @ ''T'' @ pad_int 2 h @ '':'' @ pad_int 2 mi
         @ '':'' @ pad_int 2 s @ ''.'' @ pad_int 3 frac @ ''Z'')"

definition str_get :: "string \<Rightarrow> nat \<Rightarrow> nat \<Rightarrow> string option" where
  "str_get s a b = (if a \<le> b \<and> b \<le> length s then Some (take (b - a) (drop a s)) else None)"

definition F_THOUSAND :: f64 where
  "F_THOUSAND = 0x408F400000000000"

definition field :: "(string \<Rightarrow> 'a option) \<Rightarrow> string \<Rightarrow> nat \<Rightarrow> nat \<Rightarrow> 'a option" where
  "field parse s a b = Option.bind (str_get s a b) parse"

definition rfc3339_to_wall_ms :: "string \<Rightarrow> f64 option" where
  "rfc3339_to_wall_ms s =
     (if length s < 19 then None
      else
        case field parse_i64 s 0 4 of None \<Rightarrow> None | Some y \<Rightarrow>
        case field parse_u32 s 5 7 of None \<Rightarrow> None | Some mo \<Rightarrow>
        case field parse_u32 s 8 10 of None \<Rightarrow> None | Some d \<Rightarrow>
        case field parse_u32 s 11 13 of None \<Rightarrow> None | Some h \<Rightarrow>
        case field parse_u32 s 14 16 of None \<Rightarrow> None | Some mi \<Rightarrow>
        case field parse_u32 s 17 19 of None \<Rightarrow> None | Some sec \<Rightarrow>
          let ms = (if 19 < length s \<and> s ! 19 = CHR ''.''
                    then case field parse_u32 s 20 23 of Some t \<Rightarrow> t | None \<Rightarrow> 0
                    else 0);
              secs = ymdhms_to_unix_secs y (int mo) (int d) (int h) (int mi) (int sec)
          in Some (f64_add (f64_mul (int_to_f64 secs) F_THOUSAND) (nat_to_f64 ms)))"

lemma F_THOUSAND_whole: "F_THOUSAND = nat_to_f64 1000"
  by (simp add: F_THOUSAND_def nat_to_f64_def floor_log2.simps Let_def)

lemma field_parts:
  "length a = n \<Longrightarrow> length b = k \<Longrightarrow> field parse (a @ b @ c) n (n + k) = parse b"
  by (simp add: field_def str_get_def)

lemma printed_fields:
  assumes "length y = 4" "length mo = 2" "length d = 2" "length h = 2" "length mi = 2" "length sec = 2"
    "length ms = 3"
  defines "s \<equiv> y @ ''-'' @ mo @ ''-'' @ d @ ''T'' @ h @ '':'' @ mi @ '':'' @ sec @ ''.'' @ ms @ ''Z''"
  shows "length s = 24" "s ! 19 = CHR ''.''"
    "field parse s 0 4 = parse y" "field parse' s 5 7 = parse' mo" "field parse' s 8 10 = parse' d"
    "field parse' s 11 13 = parse' h" "field parse' s 14 16 = parse' mi" "field parse' s 17 19 = parse' sec"
    "field parse' s 20 23 = parse' ms"
  using assms(1-7) by (simp_all add: s_def field_def str_get_def nth_append)

lemma printed_year:
  assumes "0 \<le> secs" "secs < 253402300800" and u: "unix_secs_to_ymdhms secs = (y, mo, d, h, mi, s)"
  shows "0 \<le> y" "y < 10000"
proof -
  obtain era yoe doy t where p: "0 \<le> yoe" "yoe < 400" "0 \<le> doy" "doy < year_len yoe"
      and t: "0 \<le> t" "t < 86400" and secs: "secs = midnight era yoe doy + t"
    by (rule secs_split)
  have "date_at era yoe doy = (y, mo, d)"
    using unix_secs_to_ymdhms_parts [OF p t, of era] u secs by (simp split: prod.splits)
  then have y: "y = (if month_of doy \<le> 2 then yoe + era * 400 + 1 else yoe + era * 400)"
    by (simp add: date_at_def Let_def split: if_splits)
  have b: "doy < 366" using p by (simp add: year_len_def split: if_splits)
  have late: "306 \<le> doy" if "month_of doy \<le> 2"
    using month_cases [OF p(3) b] that by (elim disjE; simp)
  have s0: "0 \<le> year_start yoe" "year_start yoe \<le> 146096" using year_start_pos p by auto
  have z: "era * 146097 + year_start yoe + doy - 719468 = secs div 86400"
    unfolding secs midnight_def by (rule time_of_day [OF t, THEN conjunct1, symmetric])
  have "0 \<le> secs div 86400" "secs div 86400 < 2932897" using assms by auto
  note zb = this [folded z]
  have era: "0 \<le> era" using zb s0 b by linarith
  then show "0 \<le> y" using y p by simp
  have "era \<le> 24" using zb s0 p by linarith
  show "y < 10000"
  proof (cases "era = 24 \<and> yoe = 399")
    case True
    then have "year_start yoe = 145731" by (simp add: year_start_def)
    with zb True have "doy < 306" by simp
    with late True y show ?thesis by auto
  next
    case False
    with \<open>era \<le> 24\<close> y p show ?thesis by (auto split: if_splits)
  qed
qed

text \<open>
  C33. The start time of a HAR entry survives its trip through text. For every time from 1970 to the end of
  the year 9999 the printed text is parsed back to the number of whole milliseconds it was printed from.
\<close>
theorem rfc3339_roundtrip:
  assumes "0 \<le> f64_to_i64 wall_ms" "f64_to_i64 wall_ms < 253402300800000"
  shows "rfc3339_to_wall_ms (wall_ms_to_rfc3339 wall_ms) = Some (nat_to_f64 (nat (f64_to_i64 wall_ms)))"
proof -
  define ms where "ms = f64_to_i64 wall_ms"
  define secs where "secs = ms div 1000"
  obtain y mo d h mi s where u: "unix_secs_to_ymdhms secs = (y, mo, d, h, mi, s)"
    by (cases "unix_secs_to_ymdhms secs")
  have ms: "0 \<le> ms" "ms < 253402300800000" using assms by (simp_all add: ms_def)
  then have secs: "0 \<le> secs" "secs < 253402300800" by (simp_all add: secs_def)
  have c: "valid_date (y, mo, d)" "0 \<le> h" "h < 24" "0 \<le> mi" "mi < 60" "0 \<le> s" "s < 60"
      "ymdhms_to_unix_secs y mo d h mi s = secs"
    using calendar_conversion [of secs] by (simp_all add: u)
  then have v: "0 \<le> mo" "mo < 13" "0 \<le> d" "d < 32"
    by (auto simp: valid_date_def month_days_def split: if_splits)
  note yb = printed_year [OF secs u]
  have l: "length (pad_dec 4 (nat y)) = 4" "length (pad_dec 2 (nat mo)) = 2" "length (pad_dec 2 (nat d)) = 2"
      "length (pad_dec 2 (nat h)) = 2" "length (pad_dec 2 (nat mi)) = 2" "length (pad_dec 2 (nat s)) = 2"
      "length (pad_dec 3 (nat (ms mod 1000))) = 3"
    using yb v c by (intro length_pad_dec; simp add: nat_less_iff)+
  have nonneg: "(ms mod 1000 < 0) = False" by (simp add: not_less)
  have printed: "wall_ms_to_rfc3339 wall_ms =
      pad_dec 4 (nat y) @ ''-'' @ pad_dec 2 (nat mo) @ ''-'' @ pad_dec 2 (nat d) @ ''T'' @ pad_dec 2 (nat h) @ '':''
      @ pad_dec 2 (nat mi) @ '':'' @ pad_dec 2 (nat s) @ ''.'' @ pad_dec 3 (nat (ms mod 1000)) @ ''Z''"
    using ms yb v c u
    by (simp add: nonneg wall_ms_to_rfc3339_def pad_int_def div_trunc_def Let_def flip: ms_def secs_def)
  note f = printed_fields [OF l, folded printed]
  have n: "parse_i64 (pad_dec 4 (nat y)) = Some y" "\<And>w k. 0 \<le> k \<Longrightarrow> k < 1000 \<Longrightarrow> parse_u32 (pad_dec w (nat k)) = Some (nat k)"
    using yb by (simp_all add: parse_i64_pad_dec parse_u32_pad_dec nat_less_iff)
  have "rfc3339_to_wall_ms (wall_ms_to_rfc3339 wall_ms) =
      Some (f64_add (f64_mul (int_to_f64 secs) F_THOUSAND) (nat_to_f64 (nat (ms mod 1000))))"
    unfolding rfc3339_to_wall_ms_def f using v c by (simp add: n)
  also have "f64_mul (int_to_f64 secs) F_THOUSAND = nat_to_f64 (nat secs * 1000)"
    using secs unfolding F_THOUSAND_whole int_to_f64_def by (simp add: f64_mul_whole nat_less_iff)
  also have "f64_add (nat_to_f64 (nat secs * 1000)) (nat_to_f64 (nat (ms mod 1000))) =
      nat_to_f64 (nat secs * 1000 + nat (ms mod 1000))"
    by (rule f64_add_whole) (use secs in \<open>simp add: nat_less_iff\<close>)
  also have "nat secs * 1000 + nat (ms mod 1000) = nat ms"
    using ms by (simp add: secs_def nat_div_distrib nat_mod_distrib)
  finally show ?thesis by (simp add: ms_def)
qed

theorem rfc3339_roundtrip_witness:
  "rfc3339_to_wall_ms (wall_ms_to_rfc3339 (nat_to_f64 1704164645678)) = Some (nat_to_f64 1704164645678) \<and>
   wall_ms_to_rfc3339 (nat_to_f64 1704164645678) = ''2024-01-02T03:04:05.678Z''"
proof -
  have n: "f64_to_i64 (nat_to_f64 1704164645678) = 1704164645678" using f64_to_i64_whole [of 1704164645678] by simp
  have "unix_secs_to_ymdhms 1704164645 = (2024, 1, 2, 3, 4, 5)" by code_simp
  moreover have "pad_int 4 2024 = ''2024''" "pad_int 2 1 = ''01''" "pad_int 2 2 = ''02''" "pad_int 2 3 = ''03''"
      "pad_int 2 4 = ''04''" "pad_int 2 5 = ''05''" "pad_int 3 678 = ''678''"
    by code_simp+
  ultimately have "wall_ms_to_rfc3339 (nat_to_f64 1704164645678) = ''2024-01-02T03:04:05.678Z''"
    by (simp add: wall_ms_to_rfc3339_def n div_trunc_def)
  with rfc3339_roundtrip [of "nat_to_f64 1704164645678"] n show ?thesis by simp
qed

end
