(* ===== verification/Page_Network.thy ===== *)
theory Page_Network
  imports Har_Time Page_Snapshot "HOL-Library.Multiset"
begin

text \<open>
  The network side of a page (\<^verbatim>\<open>browser-engine/src/network.rs\<close>) and the task that feeds it
  (\<^verbatim>\<open>event_pump\<close> of \<^verbatim>\<open>browser-engine/src/page.rs\<close>): the HAR ring, the interception
  handlers and what they make of a paused request, and the effect of every event of the browser on the page. The
  pump handles one event at a time, so a run is a fold over the events. A broadcast channel is the list of what
  was sent on it. The regular expressions, the order in which the handler map is iterated, the base64 encoding,
  the printing of JSON and the answer of the browser to a call are arguments.
\<close>

subsection \<open>The HAR ring\<close>

record har_name_value =
  hn_name :: string
  hn_value :: string

record har_request =
  hq_method :: string
  hq_url :: string
  hq_http_version :: string
  hq_headers :: "har_name_value list"
  hq_query_string :: "har_name_value list"
  hq_headers_size :: int
  hq_body_size :: int

record har_response =
  hp_status :: int
  hp_status_text :: string
  hp_http_version :: string
  hp_headers :: "har_name_value list"
  hp_content_size :: int
  hp_content_mime_type :: string
  hp_redirect_url :: string
  hp_headers_size :: int
  hp_body_size :: int

record har_entry =
  he_started_date_time :: string
  he_time :: f64
  he_request :: har_request
  he_response :: har_response
  he_cache :: json
  he_timings :: json
  he_request_id :: string

record har_record =
  hr_request_id :: string
  hr_method :: string
  hr_url :: string
  hr_http_version :: string
  hr_request_headers :: "har_name_value list"
  hr_request_body_size :: int
  hr_started_wall_ms :: f64
  hr_started_mono_ms :: f64
  hr_response_status :: int
  hr_response_status_text :: string
  hr_response_headers :: "har_name_value list"
  hr_response_mime :: string
  hr_response_size :: int
  hr_finished_mono_ms :: "f64 option"

record har_ring =
  hg_open :: "(string \<times> har_record) list"
  hg_closed :: "har_entry list"

definition HAR_RING_CAP :: nat where "HAR_RING_CAP = 1024"

text \<open>The events of the browser's network domain, with the fields the sources read.\<close>

record request_event =
  rq_request_id :: json
  rq_request :: json
  rq_timestamp :: json
  rq_wall_time :: json

record response_event =
  rs_request_id :: json
  rs_response :: json
  rs_timestamp :: json

record finished_event =
  lf_request_id :: json
  lf_timestamp :: json
  lf_encoded_data_length :: f64

record failed_event =
  lx_request_id :: json
  lx_timestamp :: json
  lx_error_text :: string

definition num_or_zero :: "json \<Rightarrow> f64" where
  "num_or_zero v = (case as_f64 v of Some x \<Rightarrow> x | None \<Rightarrow> 0)"

definition seconds_to_ms :: "json \<Rightarrow> f64" where
  "seconds_to_ms v = f64_mul (num_or_zero v) F_THOUSAND"

definition str_field :: "string \<Rightarrow> string \<Rightarrow> json \<Rightarrow> string" where
  "str_field k d v = (case get_str k v of Some s \<Rightarrow> s | None \<Rightarrow> d)"

definition header_list :: "(string \<times> json) list \<Rightarrow> har_name_value list" where
  "header_list h = map (\<lambda>(k, v). \<lparr> hn_name = k, hn_value = (case as_str v of Some s \<Rightarrow> s | None \<Rightarrow> []) \<rparr>) h"

text \<open>The four updates take the ring; the length of a string is that of its UTF-8 bytes.\<close>

definition har_record_request :: "request_event \<Rightarrow> har_ring \<Rightarrow> har_ring" where
  "har_record_request e ring =
     (case as_str (rq_request_id e) of
        None \<Rightarrow> ring
      | Some rid \<Rightarrow>
          let req = rq_request e;
              record = \<lparr> hr_request_id = rid,
                hr_method = str_field ''method'' ''GET'' req,
                hr_url = str_field ''url'' [] req,
                hr_http_version = ''HTTP/1.1'',
                hr_request_headers =
                  (case Option.bind (jget ''headers'' req) as_object of Some h \<Rightarrow> header_list h | None \<Rightarrow> []),
                hr_request_body_size =
                  (case get_str ''postData'' req of Some s \<Rightarrow> int (length (utf8_bytes s)) | None \<Rightarrow> 0),
                hr_started_wall_ms = seconds_to_ms (rq_wall_time e),
                hr_started_mono_ms = seconds_to_ms (rq_timestamp e),
                hr_response_status = 0, hr_response_status_text = [], hr_response_headers = [],
                hr_response_mime = [], hr_response_size = 0, hr_finished_mono_ms = None \<rparr>
          in ring\<lparr> hg_open := AList.update rid record (hg_open ring) \<rparr>)"

definition har_record_response :: "response_event \<Rightarrow> har_ring \<Rightarrow> f64 option \<times> har_ring" where
  "har_record_response e ring =
     (case as_str (rs_request_id e) of
        None \<Rightarrow> (None, ring)
      | Some rid \<Rightarrow>
          (case map_of (hg_open ring) rid of
             None \<Rightarrow> (None, ring)
           | Some rec \<Rightarrow>
               let resp = rs_response e;
                   rec' = rec\<lparr> hr_response_status := (case Option.bind (jget ''status'' resp) as_i64 of Some n \<Rightarrow> n | None \<Rightarrow> 0),
                     hr_response_status_text := str_field ''statusText'' [] resp,
                     hr_response_mime := str_field ''mimeType'' [] resp,
                     hr_response_headers :=
                       (case Option.bind (jget ''headers'' resp) as_object of Some h \<Rightarrow> header_list h
                        | None \<Rightarrow> hr_response_headers rec) \<rparr>;
                   response_mono_ms = seconds_to_ms (rs_timestamp e)
               in (Some (f64_div (f64_add (hr_started_wall_ms rec) (f64_sub response_mono_ms (hr_started_mono_ms rec)))
                           F_THOUSAND),
                   ring\<lparr> hg_open := AList.update rid rec' (hg_open ring) \<rparr>)))"

subsection \<open>Finishing an entry\<close>

fun split_at :: "char \<Rightarrow> string \<Rightarrow> string list" where
  "split_at c [] = [[]]"
| "split_at c (x # xs) =
     (if x = c then [] # split_at c xs
      else case split_at c xs of [] \<Rightarrow> [[x]] | w # ws \<Rightarrow> (x # w) # ws)"

definition find_char :: "char \<Rightarrow> string \<Rightarrow> nat option" where
  "find_char c s = (let i = length (takeWhile (\<lambda>x. x \<noteq> c) s) in if i < length s then Some i else None)"

definition split_pair :: "string \<Rightarrow> har_name_value" where
  "split_pair kv =
     (case find_char CHR ''='' kv of
        None \<Rightarrow> \<lparr> hn_name = kv, hn_value = [] \<rparr>
      | Some i \<Rightarrow> \<lparr> hn_name = take i kv, hn_value = drop (Suc i) kv \<rparr>)"

definition parse_query_pairs :: "string \<Rightarrow> har_name_value list" where
  "parse_query_pairs url =
     (case find_char CHR ''?'' url of
        None \<Rightarrow> []
      | Some i \<Rightarrow>
          let q_start = i + 1;
              q_end = (case find_char CHR ''#'' url of Some j \<Rightarrow> j | None \<Rightarrow> length url)
          in if q_end \<le> q_start then []
             else map split_pair (filter (\<lambda>s. s \<noteq> []) (split_at CHR ''&'' (take (q_end - q_start) (drop q_start url)))))"

definition har_entry_of :: "har_record \<Rightarrow> har_entry" where
  "har_entry_of rec =
     (let time_ms = (case hr_finished_mono_ms rec of
            Some f \<Rightarrow> f64_max (f64_sub f (hr_started_mono_ms rec)) 0 | None \<Rightarrow> 0)
      in \<lparr> he_started_date_time = wall_ms_to_rfc3339 (hr_started_wall_ms rec),
           he_time = time_ms,
           he_request = \<lparr> hq_method = hr_method rec, hq_url = hr_url rec, hq_http_version = hr_http_version rec,
             hq_headers = hr_request_headers rec, hq_query_string = parse_query_pairs (hr_url rec),
             hq_headers_size = - 1, hq_body_size = hr_request_body_size rec \<rparr>,
           he_response = \<lparr> hp_status = hr_response_status rec, hp_status_text = hr_response_status_text rec,
             hp_http_version = hr_http_version rec, hp_headers = hr_response_headers rec,
             hp_content_size = hr_response_size rec, hp_content_mime_type = hr_response_mime rec,
             hp_redirect_url = [], hp_headers_size = - 1, hp_body_size = hr_response_size rec \<rparr>,
           he_cache = JObject [],
           he_timings = JObject [(''send'', JPos 0),
             (''wait'', if f64_is_finite time_ms then JFloat time_ms else JNull), (''receive'', JPos 0)],
           he_request_id = hr_request_id rec \<rparr>)"

definition har_push_entry :: "har_entry \<Rightarrow> har_ring \<Rightarrow> har_ring" where
  "har_push_entry entry ring =
     ring\<lparr> hg_closed := (if length (hg_closed ring) \<ge> HAR_RING_CAP then tl (hg_closed ring) else hg_closed ring) @ [entry] \<rparr>"

definition har_record_finished :: "finished_event \<Rightarrow> har_ring \<Rightarrow> har_ring" where
  "har_record_finished e ring =
     (case as_str (lf_request_id e) of
        None \<Rightarrow> ring
      | Some rid \<Rightarrow>
          (case map_of (hg_open ring) rid of
             None \<Rightarrow> ring
           | Some rec \<Rightarrow>
               har_push_entry
                 (har_entry_of (rec\<lparr> hr_finished_mono_ms := Some (seconds_to_ms (lf_timestamp e)),
                    hr_response_size := f64_to_i64 (lf_encoded_data_length e) \<rparr>))
                 (ring\<lparr> hg_open := AList.delete rid (hg_open ring) \<rparr>)))"

definition har_record_failed :: "failed_event \<Rightarrow> har_ring \<Rightarrow> har_ring" where
  "har_record_failed e ring =
     (case as_str (lx_request_id e) of
        None \<Rightarrow> ring
      | Some rid \<Rightarrow>
          (case map_of (hg_open ring) rid of
             None \<Rightarrow> ring
           | Some rec \<Rightarrow>
               let rec = rec\<lparr> hr_finished_mono_ms := Some (seconds_to_ms (lx_timestamp e)) \<rparr>;
                   rec = (if hr_response_status rec = 0
                          then rec\<lparr> hr_response_status := 0, hr_response_status_text := lx_error_text e \<rparr> else rec)
               in har_push_entry (har_entry_of rec) (ring\<lparr> hg_open := AList.delete rid (hg_open ring) \<rparr>)))"

definition snapshot_since :: "f64 \<Rightarrow> har_ring \<Rightarrow> har_entry list" where
  "snapshot_since since_wall_ms ring =
     filter (\<lambda>e. case rfc3339_to_wall_ms (he_started_date_time e) of Some w \<Rightarrow> f64_ge w since_wall_ms | None \<Rightarrow> True)
       (hg_closed ring)"

definition har_empty :: har_ring where
  "har_empty = \<lparr> hg_open = [], hg_closed = [] \<rparr>"

subsection \<open>Handlers\<close>

datatype intercept_action = ActContinue | ActFulfill | ActFail | ActModify

record mock_response =
  mr_status :: u16
  mr_headers :: "(string \<times> string) list"
  mr_body_base64 :: string

definition mock_default :: mock_response where
  "mock_default = \<lparr> mr_status = 0, mr_headers = [], mr_body_base64 = [] \<rparr>"

record request_overrides =
  ro_url :: "string option"
  ro_method :: "string option"
  ro_headers :: "(string \<times> string) list"
  ro_post_data_base64 :: "string option"

definition overrides_default :: request_overrides where
  "overrides_default = \<lparr> ro_url = None, ro_method = None, ro_headers = [], ro_post_data_base64 = None \<rparr>"

record 'rx handler_spec =
  hs_id :: string
  hs_id_prefix :: string
  hs_pattern :: string
  hs_compiled :: 'rx
  hs_action :: intercept_action
  hs_mock :: "mock_response option"
  hs_overrides :: "request_overrides option"
  hs_error_reason :: "string option"

record proxy_auth =
  pa_user :: string
  pa_pass :: string

record proxy_config =
  pc_scheme :: string
  pc_host :: string
  pc_port :: u16
  pc_auth :: "proxy_auth option"
  pc_bypass :: "string option"

definition to_proxy_server_arg :: "proxy_config \<Rightarrow> string" where
  "to_proxy_server_arg c =
     ''--proxy-server='' @ pc_scheme c @ ''://'' @ pc_host c @ '':'' @ nat_to_dec (unat (pc_port c))"

datatype ws_frame_kind = Created | HandshakeRequest | HandshakeResponse | FrameSent | FrameReceived | FrameError | Closed

record ws_frame =
  ws_request_id :: string
  ws_kind :: ws_frame_kind
  ws_ts_ms :: f64
  ws_payload_base64 :: "string option"
  ws_url :: "string option"
  ws_error :: "string option"

record es_message =
  es_request_id :: string
  es_event_name :: string
  es_event_id :: string
  es_data :: string
  es_ts_ms :: f64

record 'rx page_network =
  pn_handlers :: "(string \<times> 'rx handler_spec) list"
  pn_har :: har_ring
  pn_next_id :: u64
  pn_ws_sent :: "ws_frame list"
  pn_es_sent :: "es_message list"
  pn_observe_sent :: "json list"
  pn_ws_registry_armed :: bool

definition page_network_new :: "'rx page_network" where
  "page_network_new = \<lparr> pn_handlers = [], pn_har = har_empty, pn_next_id = 0, pn_ws_sent = [], pn_es_sent = [],
     pn_observe_sent = [], pn_ws_registry_armed = False \<rparr>"

definition allocate_id :: "string \<Rightarrow> 'rx page_network \<Rightarrow> string \<times> 'rx page_network" where
  "allocate_id pre st =
     (let n = pn_next_id st + 1 in (pre @ ''_'' @ nat_to_hex (unat n), st\<lparr> pn_next_id := n \<rparr>))"

definition insert_handler :: "'rx handler_spec \<Rightarrow> 'rx page_network \<Rightarrow> string \<times> 'rx page_network" where
  "insert_handler spec st =
     (case allocate_id (hs_id_prefix spec) st of (hid, st') \<Rightarrow>
        (hid, st'\<lparr> pn_handlers := AList.update hid (spec\<lparr> hs_id := hid \<rparr>) (pn_handlers st') \<rparr>))"

text \<open>What the components take from outside; \<open>nl_iter\<close> is the order in which the map's values come.\<close>

record 'rx net_lib =
  nl_new :: "string \<Rightarrow> string + 'rx"
  nl_match :: "'rx \<Rightarrow> string \<Rightarrow> bool"
  nl_iter :: "(string \<times> 'rx handler_spec) list \<Rightarrow> (string \<times> 'rx handler_spec) list"
  nl_b64 :: "u8 list \<Rightarrow> string"
  nl_print :: "json \<Rightarrow> string"
  nl_now :: f64
  nl_proxy :: "proxy_config option"

definition pattern_set :: "'rx net_lib \<Rightarrow> 'rx page_network \<Rightarrow> string list" where
  "pattern_set lib st = map (\<lambda>p. hs_pattern (snd p)) (nl_iter lib (pn_handlers st))"

definition match_url :: "'rx net_lib \<Rightarrow> 'rx page_network \<Rightarrow> string \<Rightarrow> 'rx handler_spec option" where
  "match_url lib st url = find (\<lambda>h. nl_match lib (hs_compiled h) url) (map snd (nl_iter lib (pn_handlers st)))"

text \<open>The text of the regular expression for a URL pattern.\<close>

definition glob_char :: "char \<Rightarrow> string" where
  "glob_char c =
     (if c = CHR ''*'' then ''.*''
      else if c \<in> set ''.+()|[]{}^$?'' \<or> c = BACKSLASH then [BACKSLASH, c]
      else [c])"

definition glob_source :: "string \<Rightarrow> string" where
  "glob_source pattern = ''^'' @ concat (map glob_char pattern) @ ''$''"

definition glob_to_regex :: "'rx net_lib \<Rightarrow> string \<Rightarrow> string + 'rx" where
  "glob_to_regex lib pattern =
     (case nl_new lib (glob_source pattern) of
        Inl _ \<Rightarrow> Inl (''compiling URL pattern '' @ debug_str pattern) | Inr rx \<Rightarrow> Inr rx)"

subsection \<open>Paused requests\<close>

record paused_event =
  pe_request_id :: json
  pe_request :: json
  pe_network_id :: "json option"

datatype fetch_dispatch =
    FetchContinue json "string option" "string option" "string option" "json option"
  | FetchFulfill json u16 "json option" string
  | FetchFail json string

definition header_json :: "(string \<times> string) list \<Rightarrow> json option" where
  "header_json hs =
     (if hs = [] then None
      else Some (JArray (map (\<lambda>(n, v). JObject [(''name'', JString n), (''value'', JString v)]) hs)))"

definition dispatch_fetch_event :: "'rx net_lib \<Rightarrow> 'rx page_network \<Rightarrow> paused_event \<Rightarrow> fetch_dispatch" where
  "dispatch_fetch_event lib st e =
     (let rid = pe_request_id e; url = str_field ''url'' [] (pe_request e)
      in case match_url lib st url of
           None \<Rightarrow> FetchContinue rid None None None None
         | Some spec \<Rightarrow>
             (case hs_action spec of
                ActContinue \<Rightarrow> FetchContinue rid None None None None
              | ActModify \<Rightarrow>
                  let ov = (case hs_overrides spec of Some o' \<Rightarrow> o' | None \<Rightarrow> overrides_default)
                  in FetchContinue rid (ro_url ov) (ro_method ov) (ro_post_data_base64 ov) (header_json (ro_headers ov))
              | ActFulfill \<Rightarrow>
                  let mock = (case hs_mock spec of Some m \<Rightarrow> m | None \<Rightarrow> mock_default)
                  in FetchFulfill rid (mr_status mock) (header_json (mr_headers mock)) (mr_body_base64 mock)
              | ActFail \<Rightarrow> FetchFail rid (case hs_error_reason spec of Some r \<Rightarrow> r | None \<Rightarrow> ''Failed'')))"

text \<open>The command of the protocol, as its name and parameters.\<close>

definition cdp_opt_field :: "string \<Rightarrow> json option \<Rightarrow> (string \<times> json) list" where
  "cdp_opt_field k v = (case v of Some x \<Rightarrow> [(k, x)] | None \<Rightarrow> [])"

definition run_fetch_dispatch :: "fetch_dispatch \<Rightarrow> string \<times> json" where
  "run_fetch_dispatch d =
     (case d of
        FetchContinue rid url meth post headers \<Rightarrow>
          (''Fetch.continueRequest'',
           JObject ([(''requestId'', rid)] @ cdp_opt_field ''url'' (map_option JString url)
             @ cdp_opt_field ''method'' (map_option JString meth) @ cdp_opt_field ''postData'' (map_option JString post)
             @ cdp_opt_field ''headers'' headers))
      | FetchFulfill rid status headers body \<Rightarrow>
          (''Fetch.fulfillRequest'',
           JObject ([(''requestId'', rid), (''responseCode'', JPos (ucast status))] @ cdp_opt_field ''responseHeaders'' headers
             @ cdp_opt_field ''body'' (if body = [] then None else Some (JString body))))
      | FetchFail rid reason \<Rightarrow>
          (''Fetch.failRequest'', JObject [(''requestId'', rid), (''errorReason'', JString reason)]))"

subsection \<open>Observation\<close>

definition field_or :: "json \<Rightarrow> string \<Rightarrow> json \<Rightarrow> json" where
  "field_or d k v = (case jget k v of Some x \<Rightarrow> x | None \<Rightarrow> d)"

definition json_num :: "f64 \<Rightarrow> json" where
  "json_num x = (if f64_is_finite x then JFloat x else JNull)"

definition record_request :: "request_event \<Rightarrow> 'rx page_network \<Rightarrow> 'rx page_network" where
  "record_request e st =
     st\<lparr> pn_har := har_record_request e (pn_har st),
         pn_observe_sent := pn_observe_sent st @
           [JObject [(''kind'', JString ''request_will_be_sent''), (''request_id'', rq_request_id e),
              (''url'', field_or JNull ''url'' (rq_request e)), (''method'', field_or JNull ''method'' (rq_request e)),
              (''ts_ms'', json_num (seconds_to_ms (rq_timestamp e))),
              (''timestamp'', json_num (num_or_zero (rq_wall_time e)))]] \<rparr>"

definition record_response :: "response_event \<Rightarrow> 'rx page_network \<Rightarrow> 'rx page_network" where
  "record_response e st =
     (case har_record_response e (pn_har st) of (response_timestamp, har) \<Rightarrow>
        st\<lparr> pn_har := har,
            pn_observe_sent := pn_observe_sent st @
              [JObject [(''kind'', JString ''response_received''), (''request_id'', rs_request_id e),
                 (''status'', field_or JNull ''status'' (rs_response e)), (''url'', field_or JNull ''url'' (rs_response e)),
                 (''headers'', field_or (JObject []) ''headers'' (rs_response e)),
                 (''mime_type'', field_or JNull ''mimeType'' (rs_response e)),
                 (''ts_ms'', json_num (seconds_to_ms (rs_timestamp e))),
                 (''timestamp'', json_num (case response_timestamp of Some t \<Rightarrow> t
                    | None \<Rightarrow> num_or_zero (rs_timestamp e)))]] \<rparr>)"

definition record_finished :: "finished_event \<Rightarrow> 'rx page_network \<Rightarrow> 'rx page_network" where
  "record_finished e st = st\<lparr> pn_har := har_record_finished e (pn_har st) \<rparr>"

definition record_failed :: "failed_event \<Rightarrow> 'rx page_network \<Rightarrow> 'rx page_network" where
  "record_failed e st = st\<lparr> pn_har := har_record_failed e (pn_har st) \<rparr>"

definition record_synthetic_request :: "'rx net_lib \<Rightarrow> paused_event \<Rightarrow> 'rx page_network \<Rightarrow> 'rx page_network" where
  "record_synthetic_request lib e st =
     st\<lparr> pn_observe_sent := pn_observe_sent st @
           [JObject [(''kind'', JString ''request_will_be_sent''), (''synthetic'', JBool True),
              (''request_id'', pe_request_id e), (''url'', field_or JNull ''url'' (pe_request e)),
              (''method'', field_or JNull ''method'' (pe_request e)),
              (''ts_ms'', json_num (f64_mul (nl_now lib) F_THOUSAND)), (''timestamp'', json_num (nl_now lib))]] \<rparr>"

definition record_ws :: "ws_frame \<Rightarrow> 'rx page_network \<Rightarrow> 'rx page_network" where
  "record_ws f st = st\<lparr> pn_ws_sent := pn_ws_sent st @ [f] \<rparr>"

definition record_es :: "es_message \<Rightarrow> 'rx page_network \<Rightarrow> 'rx page_network" where
  "record_es m st = st\<lparr> pn_es_sent := pn_es_sent st @ [m] \<rparr>"

subsection \<open>The event pump\<close>

datatype page_event =
    LifecycleEvent json string json
  | FrameNavigated json
  | RequestWillBeSent request_event
  | ResponseReceived response_event
  | LoadingFinished finished_event
  | LoadingFailed failed_event
  | RequestPaused paused_event
  | AuthRequired json json
  | WsCreated json string
  | WsHandshakeRequest json json
  | WsHandshakeResponse json json
  | WsFrameSent json json json
  | WsFrameReceived json json json
  | WsFrameError json json string
  | WsClosed json json
  | EsMessageReceived json json string string string
  | ConsoleApiCalled string json "json option" json
  | ExceptionThrown json json
  | ScreencastFrame string json json
  | OtherEvent string

record 'rx pump =
  pu_page :: page_state
  pu_net :: "'rx page_network"
  pu_lifecycle_sent :: "(string \<times> string \<times> f64) list"
  pu_nav_sent :: "string list"
  pu_console_sent :: "json list"
  pu_exception_sent :: "json list"
  pu_screencast_sent :: "(string \<times> json \<times> json) list"
  pu_commands :: "(string \<times> json) list"

definition pump_new :: "string \<Rightarrow> 'rx pump" where
  "pump_new target = \<lparr> pu_page = page_new target, pu_net = page_network_new, pu_lifecycle_sent = [], pu_nav_sent = [],
     pu_console_sent = [], pu_exception_sent = [], pu_screencast_sent = [], pu_commands = [] \<rparr>"

definition str_or_empty :: "json \<Rightarrow> string" where
  "str_or_empty v = (case as_str v of Some s \<Rightarrow> s | None \<Rightarrow> [])"

definition pump_lifecycle :: "json \<Rightarrow> string \<Rightarrow> json \<Rightarrow> 'rx pump \<Rightarrow> 'rx pump" where
  "pump_lifecycle frame_id nam ts h =
     h\<lparr> pu_lifecycle_sent := pu_lifecycle_sent h @ [(str_or_empty frame_id, nam, num_or_zero ts)] \<rparr>"

definition pump_navigated :: "json \<Rightarrow> 'rx pump \<Rightarrow> 'rx pump" where
  "pump_navigated frame h =
     (let h = h\<lparr> pu_page := clear_delta_anchor (pu_page h) \<rparr>
      in case get_str ''url'' frame of Some url \<Rightarrow> h\<lparr> pu_nav_sent := pu_nav_sent h @ [url] \<rparr> | None \<Rightarrow> h)"

definition pump_request :: "request_event \<Rightarrow> 'rx pump \<Rightarrow> 'rx pump" where
  "pump_request e h =
     (let h = (case as_str (rq_request_id e) of
            Some rid \<Rightarrow> h\<lparr> pu_page := (pu_page h)\<lparr> ps_in_flight := List.insert rid (ps_in_flight (pu_page h)) \<rparr> \<rparr>
          | None \<Rightarrow> h)
      in h\<lparr> pu_net := record_request e (pu_net h) \<rparr>)"

definition pump_response :: "response_event \<Rightarrow> 'rx pump \<Rightarrow> 'rx pump" where
  "pump_response e h = h\<lparr> pu_net := record_response e (pu_net h) \<rparr>"

definition pump_finished :: "finished_event \<Rightarrow> 'rx pump \<Rightarrow> 'rx pump" where
  "pump_finished e h =
     (let h = (case as_str (lf_request_id e) of
            Some rid \<Rightarrow> h\<lparr> pu_page := (pu_page h)\<lparr> ps_in_flight := removeAll rid (ps_in_flight (pu_page h)),
              ps_completed := ps_completed (pu_page h) + 1 \<rparr> \<rparr>
          | None \<Rightarrow> h)
      in h\<lparr> pu_net := record_finished e (pu_net h) \<rparr>)"

definition pump_failed :: "failed_event \<Rightarrow> 'rx pump \<Rightarrow> 'rx pump" where
  "pump_failed e h =
     (let h = (case as_str (lx_request_id e) of
            Some rid \<Rightarrow> h\<lparr> pu_page := (pu_page h)\<lparr> ps_in_flight := removeAll rid (ps_in_flight (pu_page h)),
              ps_failed := ps_failed (pu_page h) + 1 \<rparr> \<rparr>
          | None \<Rightarrow> h)
      in h\<lparr> pu_net := record_failed e (pu_net h) \<rparr>)"

definition pump_paused :: "'rx net_lib \<Rightarrow> paused_event \<Rightarrow> 'rx pump \<Rightarrow> 'rx pump" where
  "pump_paused lib e h =
     (let h = (if pe_network_id e = None then h\<lparr> pu_net := record_synthetic_request lib e (pu_net h) \<rparr> else h)
      in h\<lparr> pu_commands := pu_commands h @ [run_fetch_dispatch (dispatch_fetch_event lib (pu_net h) e)] \<rparr>)"

definition pump_auth :: "'rx net_lib \<Rightarrow> json \<Rightarrow> json \<Rightarrow> 'rx pump \<Rightarrow> 'rx pump" where
  "pump_auth lib rid challenge h =
     (let response =
            (case Option.bind (nl_proxy lib) pc_auth of
               Some auth \<Rightarrow>
                 if get_str ''source'' challenge = Some ''Proxy''
                 then JObject [(''response'', JString ''ProvideCredentials''), (''username'', JString (pa_user auth)),
                        (''password'', JString (pa_pass auth))]
                 else JObject [(''response'', JString ''Default'')]
             | None \<Rightarrow> JObject [(''response'', JString ''Default'')])
      in h\<lparr> pu_commands := pu_commands h @
           [(''Fetch.continueWithAuth'', JObject [(''requestId'', rid), (''authChallengeResponse'', response)])] \<rparr>)"

definition ws_payload_b64 :: "'rx net_lib \<Rightarrow> json \<Rightarrow> string option" where
  "ws_payload_b64 lib response =
     (case get_str ''payloadData'' response of
        None \<Rightarrow> None
      | Some payload \<Rightarrow>
          let opcode = (case Option.bind (jget ''opcode'' response) as_i64 of Some n \<Rightarrow> n | None \<Rightarrow> 1)
          in Some (if opcode = 2 then payload else nl_b64 lib (utf8_bytes payload)))"

definition ws_frame_of :: "json \<Rightarrow> ws_frame_kind \<Rightarrow> f64 \<Rightarrow> ws_frame" where
  "ws_frame_of rid kind ts = \<lparr> ws_request_id = str_or_empty rid, ws_kind = kind, ws_ts_ms = ts,
     ws_payload_base64 = None, ws_url = None, ws_error = None \<rparr>"

definition pump_ws :: "'rx net_lib \<Rightarrow> page_event \<Rightarrow> ws_frame option" where
  "pump_ws lib ev =
     (case ev of
        WsCreated rid url \<Rightarrow> Some ((ws_frame_of rid Created 0)\<lparr> ws_url := Some url \<rparr>)
      | WsHandshakeRequest rid ts \<Rightarrow> Some (ws_frame_of rid HandshakeRequest (seconds_to_ms ts))
      | WsHandshakeResponse rid ts \<Rightarrow> Some (ws_frame_of rid HandshakeResponse (seconds_to_ms ts))
      | WsFrameSent rid ts r \<Rightarrow>
          Some ((ws_frame_of rid FrameSent (seconds_to_ms ts))\<lparr> ws_payload_base64 := ws_payload_b64 lib r \<rparr>)
      | WsFrameReceived rid ts r \<Rightarrow>
          Some ((ws_frame_of rid FrameReceived (seconds_to_ms ts))\<lparr> ws_payload_base64 := ws_payload_b64 lib r \<rparr>)
      | WsFrameError rid ts msg \<Rightarrow> Some ((ws_frame_of rid FrameError (seconds_to_ms ts))\<lparr> ws_error := Some msg \<rparr>)
      | WsClosed rid ts \<Rightarrow> Some (ws_frame_of rid Closed (seconds_to_ms ts))
      | _ \<Rightarrow> None)"

definition RECENT_CAP :: nat where "RECENT_CAP = 50"

definition push_recent :: "'a \<Rightarrow> 'a list \<Rightarrow> 'a list" where
  "push_recent x q = (if length q = RECENT_CAP then tl q else q) @ [x]"

definition console_text :: "'rx net_lib \<Rightarrow> json \<Rightarrow> string" where
  "console_text lib args =
     (case as_array args of
        None \<Rightarrow> []
      | Some xs \<Rightarrow>
          (case map (\<lambda>a. case get_str ''value'' a of Some s \<Rightarrow> s | None \<Rightarrow> nl_print lib a) xs of
             [] \<Rightarrow> [] | t # ts \<Rightarrow> t @ concat (map (\<lambda>u. '' '' @ u) ts)))"

definition first_frame_url :: "json option \<Rightarrow> string" where
  "first_frame_url stack =
     (case Option.bind stack (jget ''callFrames'') of
        Some (JArray (f # _)) \<Rightarrow> str_field ''url'' [] f | _ \<Rightarrow> [])"

definition pump_console :: "'rx net_lib \<Rightarrow> string \<Rightarrow> json \<Rightarrow> json option \<Rightarrow> json \<Rightarrow> 'rx pump \<Rightarrow> 'rx pump" where
  "pump_console lib level args stack ts h =
     (let msg = JObject [(''level'', JString level), (''text'', JString (console_text lib args)),
            (''source'', JString (first_frame_url stack)), (''ts_ms'', json_num (num_or_zero ts)),
            (''stack'', case stack of Some s \<Rightarrow> JString (nl_print lib s) | None \<Rightarrow> JNull)]
      in h\<lparr> pu_page := (pu_page h)\<lparr> ps_console := push_recent msg (ps_console (pu_page h)) \<rparr>,
            pu_console_sent := pu_console_sent h @ [msg] \<rparr>)"

definition pump_exception :: "'rx net_lib \<Rightarrow> json \<Rightarrow> json \<Rightarrow> 'rx pump \<Rightarrow> 'rx pump" where
  "pump_exception lib details ts h =
     (let exc = JObject [(''text'', JString (str_field ''text'' [] details)),
            (''stack'', JString (case jget ''stackTrace'' details of Some s \<Rightarrow> nl_print lib s | None \<Rightarrow> [])),
            (''ts_ms'', json_num (num_or_zero ts))]
      in h\<lparr> pu_page := (pu_page h)\<lparr> ps_exceptions := push_recent exc (ps_exceptions (pu_page h)) \<rparr>,
            pu_exception_sent := pu_exception_sent h @ [exc] \<rparr>)"

fun event_pump :: "'rx net_lib \<Rightarrow> page_event \<Rightarrow> 'rx pump \<Rightarrow> 'rx pump" where
  "event_pump lib (LifecycleEvent frame nam ts) h = pump_lifecycle frame nam ts h"
| "event_pump lib (FrameNavigated frame) h = pump_navigated frame h"
| "event_pump lib (RequestWillBeSent e) h = pump_request e h"
| "event_pump lib (ResponseReceived e) h = pump_response e h"
| "event_pump lib (LoadingFinished e) h = pump_finished e h"
| "event_pump lib (LoadingFailed e) h = pump_failed e h"
| "event_pump lib (RequestPaused e) h = pump_paused lib e h"
| "event_pump lib (AuthRequired rid challenge) h = pump_auth lib rid challenge h"
| "event_pump lib (EsMessageReceived rid ts nam eid dat) h =
     h\<lparr> pu_net := record_es \<lparr> es_request_id = str_or_empty rid, es_event_name = nam, es_event_id = eid,
          es_data = dat, es_ts_ms = seconds_to_ms ts \<rparr> (pu_net h) \<rparr>"
| "event_pump lib (ConsoleApiCalled level args stack ts) h = pump_console lib level args stack ts h"
| "event_pump lib (ExceptionThrown details ts) h = pump_exception lib details ts h"
| "event_pump lib (ScreencastFrame dat meta sid) h =
     h\<lparr> pu_screencast_sent := pu_screencast_sent h @ [(dat, meta, sid)] \<rparr>"
| "event_pump lib (OtherEvent nam) h = h"
| "event_pump lib ev h =
     (case pump_ws lib ev of Some f \<Rightarrow> h\<lparr> pu_net := record_ws f (pu_net h) \<rparr> | None \<Rightarrow> h)"

subsection \<open>What a run leaves in the ring\<close>

text \<open>The request an event opens, the one it closes, and the requests open after a run, from the events alone.\<close>

fun opens :: "page_event \<Rightarrow> string option" where
  "opens (RequestWillBeSent e) = as_str (rq_request_id e)"
| "opens _ = None"

fun closes :: "page_event \<Rightarrow> string option" where
  "closes (LoadingFinished e) = as_str (lf_request_id e)"
| "closes (LoadingFailed e) = as_str (lx_request_id e)"
| "closes _ = None"

definition open_step :: "page_event \<Rightarrow> string set \<Rightarrow> string set" where
  "open_step ev A = (A \<union> set_option (opens ev)) - set_option (closes ev)"

fun count_opened :: "page_event list \<Rightarrow> nat" where
  "count_opened [] = 0"
| "count_opened (ev # evs) = (if opens ev = None then 0 else 1) + count_opened evs"

text \<open>The requests announced again while they were open: the hops of a redirect.\<close>

fun count_reopened :: "string set \<Rightarrow> page_event list \<Rightarrow> nat" where
  "count_reopened A [] = 0"
| "count_reopened A (ev # evs) =
     (case opens ev of Some rid \<Rightarrow> if rid \<in> A then 1 else 0 | None \<Rightarrow> 0) + count_reopened (open_step ev A) evs"

text \<open>The entry an event adds to the ring, and the entries of a run.\<close>

fun finalised :: "page_event \<Rightarrow> har_ring \<Rightarrow> har_entry list" where
  "finalised (LoadingFinished e) ring =
     (case Option.bind (as_str (lf_request_id e)) (map_of (hg_open ring)) of
        Some rec \<Rightarrow> [har_entry_of (rec\<lparr> hr_finished_mono_ms := Some (seconds_to_ms (lf_timestamp e)),
            hr_response_size := f64_to_i64 (lf_encoded_data_length e) \<rparr>)]
      | None \<Rightarrow> [])"
| "finalised (LoadingFailed e) ring =
     (case Option.bind (as_str (lx_request_id e)) (map_of (hg_open ring)) of
        Some rec \<Rightarrow> [har_entry_of (if hr_response_status rec = 0
            then rec\<lparr> hr_finished_mono_ms := Some (seconds_to_ms (lx_timestamp e)), hr_response_status := 0,
              hr_response_status_text := lx_error_text e \<rparr>
            else rec\<lparr> hr_finished_mono_ms := Some (seconds_to_ms (lx_timestamp e)) \<rparr>)]
      | None \<Rightarrow> [])"
| "finalised _ ring = []"

fun har_history :: "'rx net_lib \<Rightarrow> page_event list \<Rightarrow> 'rx pump \<Rightarrow> har_entry list" where
  "har_history lib [] h = []"
| "har_history lib (ev # evs) h = finalised ev (pn_har (pu_net h)) @ har_history lib evs (event_pump lib ev h)"

abbreviation pump_ring :: "'rx pump \<Rightarrow> har_ring" where "pump_ring h \<equiv> pn_har (pu_net h)"

definition pump_open :: "'rx pump \<Rightarrow> string set" where
  "pump_open h = set (map fst (hg_open (pump_ring h)))"

text \<open>
  The ring holds at most its capacity, the open records are keyed by their request, and the requests in flight
  are the ones with an open record.
\<close>

definition pump_inv :: "'rx pump \<Rightarrow> bool" where
  "pump_inv h \<longleftrightarrow> length (hg_closed (pump_ring h)) \<le> HAR_RING_CAP \<and> keyed_by hr_request_id (hg_open (pump_ring h)) \<and>
     set (ps_in_flight (pu_page h)) = pump_open h \<and> distinct (ps_in_flight (pu_page h))"

interpretation har_log: capped_log har_push_entry hg_closed HAR_RING_CAP "\<lambda>r. length (hg_closed r) \<le> HAR_RING_CAP"
  by unfold_locales (auto simp: har_push_entry_def HAR_RING_CAP_def last_n_def drop_Suc)

lemmas ring_defs = har_record_request_def har_record_response_def har_record_finished_def har_record_failed_def
  har_push_entry_def

lemmas pump_defs = pump_lifecycle_def pump_navigated_def pump_request_def pump_response_def pump_finished_def
  pump_failed_def pump_paused_def pump_auth_def pump_console_def pump_exception_def record_request_def
  record_response_def record_finished_def record_failed_def record_synthetic_request_def record_ws_def record_es_def

text \<open>The ring after an event: only the events of a request touch it.\<close>

fun har_ring_step :: "page_event \<Rightarrow> har_ring \<Rightarrow> har_ring" where
  "har_ring_step (RequestWillBeSent e) ring = har_record_request e ring"
| "har_ring_step (ResponseReceived e) ring = snd (har_record_response e ring)"
| "har_ring_step (LoadingFinished e) ring = har_record_finished e ring"
| "har_ring_step (LoadingFailed e) ring = har_record_failed e ring"
| "har_ring_step _ ring = ring"

lemma pump_ring_step: "pump_ring (event_pump lib ev h) = har_ring_step ev (pump_ring h)"
  by (cases ev) (auto simp: pump_defs Let_def pump_ws_def split: option.split prod.split)

fun flight_step :: "page_event \<Rightarrow> string list \<Rightarrow> string list" where
  "flight_step ev xs =
     (let xs = (case opens ev of Some rid \<Rightarrow> List.insert rid xs | None \<Rightarrow> xs)
      in case closes ev of Some rid \<Rightarrow> removeAll rid xs | None \<Rightarrow> xs)"

lemma pump_flight_step: "ps_in_flight (pu_page (event_pump lib ev h)) = flight_step ev (ps_in_flight (pu_page h))"
  by (cases ev) (auto simp: pump_defs Let_def pump_ws_def clear_delta_anchor_def split: option.split prod.split)

lemma ring_step_closed: "hg_closed (har_ring_step ev ring) = hg_closed (fold har_push_entry (finalised ev ring) ring)"
  by (cases ev) (auto simp: ring_defs Let_def split: option.split)

lemma fst_update: "fst ` set (AList.update k v m) = insert k (fst ` set m)"
  using dom_update [of k v m] by (simp add: dom_map_of_conv_image_fst)

lemma fst_delete: "fst ` set (AList.delete k m) = fst ` set m - {k}"
  by (force simp: AList.delete_eq)

lemma map_of_in_keys: "map_of m k = Some v \<Longrightarrow> k \<in> fst ` set m"
  by (force dest: map_of_SomeD)

lemma map_of_not_in_keys: "map_of m k = None \<Longrightarrow> k \<notin> fst ` set m"
  by (simp add: map_of_eq_None_iff)

lemma ring_step_open:
  "set (map fst (hg_open (har_ring_step ev ring))) = open_step ev (set (map fst (hg_open ring)))"
  by (cases ev)
    (auto simp: ring_defs Let_def open_step_def fst_update fst_delete insert_absorb split: option.split
      dest: map_of_in_keys map_of_not_in_keys)

lemma ring_step_keyed:
  "keyed_by hr_request_id (hg_open ring) \<Longrightarrow> keyed_by hr_request_id (hg_open (har_ring_step ev ring))"
  by (cases ev)
    (auto simp: ring_defs Let_def intro!: keyed_by_update keyed_by_delete dest: keyed_by_map_of split: option.split)

lemma flight_step_set: "set (flight_step ev xs) = open_step ev (set xs)"
  by (auto simp: open_step_def Let_def split: option.split)

lemma flight_step_distinct: "distinct xs \<Longrightarrow> distinct (flight_step ev xs)"
  by (auto simp: Let_def distinct_removeAll split: option.split)

lemma pump_inv_step: "pump_inv h \<Longrightarrow> pump_inv (event_pump lib ev h)"
  unfolding pump_inv_def pump_open_def pump_ring_step pump_flight_step ring_step_open flight_step_set
  by (auto simp: ring_step_closed har_log.ok_fold ring_step_keyed flight_step_distinct simp del: flight_step.simps)

interpretation pump_machine: invariant_machine "event_pump lib" pump_inv
  by unfold_locales (rule pump_inv_step)

lemma pump_inv_new: "pump_inv (pump_new target)"
  by (simp add: pump_inv_def pump_new_def page_network_new_def har_empty_def page_new_def pump_open_def)

lemma pump_open_step: "pump_open (event_pump lib ev h) = open_step ev (pump_open h)"
  unfolding pump_open_def pump_ring_step by (rule ring_step_open)

lemma pump_open_run: "pump_open (fold (event_pump lib) evs h) = fold open_step evs (pump_open h)"
  by (induction evs arbitrary: h) (simp_all add: pump_open_step)

lemma har_history_closed:
  "length (hg_closed (pump_ring h)) \<le> HAR_RING_CAP \<Longrightarrow>
   hg_closed (pump_ring (fold (event_pump lib) evs h)) = last_n HAR_RING_CAP (hg_closed (pump_ring h) @ har_history lib evs h)"
proof (induction evs arbitrary: h)
  case (Cons ev evs)
  have c: "hg_closed (pump_ring (event_pump lib ev h)) =
      last_n HAR_RING_CAP (hg_closed (pump_ring h) @ finalised ev (pump_ring h))"
    unfolding pump_ring_step ring_step_closed using Cons.prems by (intro har_log.contents_fold)
  then have "length (hg_closed (pump_ring (event_pump lib ev h))) \<le> HAR_RING_CAP" by simp
  from Cons.IH [OF this] show ?case by (simp add: c)
qed simp

text \<open>How one event changes the number of open requests.\<close>

lemma finalised_count:
  "length (finalised ev (pump_ring h)) = (case closes ev of Some rid \<Rightarrow> if rid \<in> pump_open h then 1 else 0 | None \<Rightarrow> 0)"
  by (cases ev) (auto simp: pump_open_def split: option.split dest: map_of_in_keys map_of_not_in_keys)

lemma opens_closes: "opens ev = None \<or> closes ev = None"
  by (cases ev) auto

lemma open_step_card:
  assumes "finite A"
  shows "(case closes ev of Some rid \<Rightarrow> if rid \<in> A then 1 else 0 | None \<Rightarrow> 0) + card (open_step ev A) +
     (case opens ev of Some rid \<Rightarrow> if rid \<in> A then 1 else 0 | None \<Rightarrow> 0) = card A + (if opens ev = None then 0 else 1)"
  using assms opens_closes [of ev] card_gt_0_iff [of A]
  by (auto simp: open_step_def card_insert_if card_Diff_singleton_if Suc_diff_Suc insert_absorb split: option.split)

lemma finite_pump_open: "finite (pump_open h)"
  by (simp add: pump_open_def)

lemma har_history_count:
  "length (har_history lib evs h) + card (fold open_step evs (pump_open h)) + count_reopened (pump_open h) evs =
   card (pump_open h) + count_opened evs"
proof (induction evs arbitrary: h)
  case (Cons ev evs)
  show ?case
    using Cons [of "event_pump lib ev h"] open_step_card [OF finite_pump_open [of h], of ev]
    by (simp add: pump_open_step finalised_count)
qed simp

text \<open>
  C34. The HAR log of a page. After any sequence of browser events the finished entries kept are the newest 1024
  that the events finalised, in order; the records still open, and the requests counted as in flight, are exactly
  the requests announced and not yet finished or failed; and every announced request is accounted for: it has
  an entry, is still open, or was announced again under the same identifier while it was open (the earlier hop of
  a redirect), in which case its record was overwritten and it never gets an entry.
\<close>
theorem har_accounting:
  "let h = fold (event_pump lib) evs (pump_new target); history = har_history lib evs (pump_new target);
       open_now = fold open_step evs {}
   in hg_closed (pump_ring h) = last_n HAR_RING_CAP history \<and>
      set (ps_in_flight (pu_page h)) = open_now \<and> set (map fst (hg_open (pump_ring h))) = open_now \<and>
      length history + card open_now + count_reopened {} evs = count_opened evs"
proof -
  let ?new = "pump_new target :: 'a pump"
  let ?h = "fold (event_pump lib) evs ?new"
  have o: "pump_open ?new = {}"
    by (simp add: pump_open_def pump_new_def page_network_new_def har_empty_def)
  have "pump_inv ?h" by (rule pump_machine.run_inv [OF pump_inv_new])
  then have f: "set (ps_in_flight (pu_page ?h)) = pump_open ?h" by (simp add: pump_inv_def)
  have r: "pump_open ?h = fold open_step evs {}" unfolding pump_open_run o ..
  have "hg_closed (pump_ring ?h) = last_n HAR_RING_CAP (har_history lib evs ?new)"
    by (subst har_history_closed) (simp_all add: pump_new_def page_network_new_def har_empty_def)
  moreover have "set (map fst (hg_open (pump_ring ?h))) = fold open_step evs {}"
    using r by (simp only: pump_open_def)
  ultimately show ?thesis
    using f r har_history_count [of lib evs ?new] by (simp add: o Let_def)
qed

subsection \<open>Interception\<close>

definition handler_matches :: "'rx net_lib \<Rightarrow> paused_event \<Rightarrow> 'rx handler_spec \<Rightarrow> bool" where
  "handler_matches lib e spec \<longleftrightarrow> nl_match lib (hs_compiled spec) (str_field ''url'' [] (pe_request e))"

definition action_of :: "json \<Rightarrow> 'rx handler_spec \<Rightarrow> fetch_dispatch" where
  "action_of rid spec =
     (case hs_action spec of
        ActContinue \<Rightarrow> FetchContinue rid None None None None
      | ActModify \<Rightarrow>
          let ov = (case hs_overrides spec of Some o' \<Rightarrow> o' | None \<Rightarrow> overrides_default)
          in FetchContinue rid (ro_url ov) (ro_method ov) (ro_post_data_base64 ov) (header_json (ro_headers ov))
      | ActFulfill \<Rightarrow>
          let mock = (case hs_mock spec of Some m \<Rightarrow> m | None \<Rightarrow> mock_default)
          in FetchFulfill rid (mr_status mock) (header_json (mr_headers mock)) (mr_body_base64 mock)
      | ActFail \<Rightarrow> FetchFail rid (case hs_error_reason spec of Some r \<Rightarrow> r | None \<Rightarrow> ''Failed''))"

lemma dispatch_eq:
  "dispatch_fetch_event lib st e =
     (case find (handler_matches lib e) (map snd (nl_iter lib (pn_handlers st))) of
        None \<Rightarrow> FetchContinue (pe_request_id e) None None None None
      | Some spec \<Rightarrow> action_of (pe_request_id e) spec)"
  by (simp add: dispatch_fetch_event_def match_url_def handler_matches_def [abs_def] action_of_def Let_def
      split: option.split)

lemma find_cases:
  "(find P xs = None \<and> (\<forall>x\<in>set xs. \<not> P x)) \<or> (\<exists>x\<in>set xs. find P xs = Some x \<and> P x)"
  by (cases "find P xs") (auto simp: find_None_iff find_Some_iff)


definition net_sample_lib :: "string net_lib" where
  "net_sample_lib = \<lparr> nl_new = (\<lambda>s. Inr s), nl_match = (\<lambda>rx url. rx = url), nl_iter = (\<lambda>m. m), nl_b64 = (\<lambda>_. []),
     nl_print = (\<lambda>_. []), nl_now = 0, nl_proxy = None \<rparr>"

definition sample_spec :: "intercept_action \<Rightarrow> string handler_spec" where
  "sample_spec a = \<lparr> hs_id = [], hs_id_prefix = ''h'', hs_pattern = ''u'', hs_compiled = ''u'', hs_action = a, hs_mock = None,
     hs_overrides = None, hs_error_reason = None \<rparr>"

definition sample_pump :: "string pump" where
  "sample_pump = (pump_new ''t'')\<lparr> pu_net :=
     snd (insert_handler (sample_spec ActFail) (snd (insert_handler (sample_spec ActContinue) page_network_new))) \<rparr>"

definition sample_paused :: paused_event where
  "sample_paused = \<lparr> pe_request_id = JString ''r'', pe_request = JObject [(''url'', JString ''u'')], pe_network_id = None \<rparr>"


end
