(* ===== verification/Router_Net.thy ===== *)
theory Router_Net
  imports Page_Network Router_Core Broker_Recovery
begin

text \<open>
  The network tools of the broker (\<^verbatim>\<open>broker/src/router/net.rs\<close>) with the operations of the page they
  call (\<^verbatim>\<open>browser-engine/src/network.rs\<close>): interception, mocks, subscriptions and their forwarders, replay,
  frame injection, HAR export and the staged proxy. The state is the network side of every tab, the session entry
  and the tasks that were spawned; the commands sent to the browser are recorded. The answers of the browser,
  the file system, the text of the scripts and the base64 and JSON encodings are fields of \<open>net_env\<close>.
\<close>

subsection \<open>State\<close>

datatype channel = ObserveChannel | WsChannel | EsChannel

text \<open>A forwarder sees what is sent on its channel after it subscribed: \<open>fw_from\<close> messages came before.\<close>

record 'rx forwarder =
  fw_task :: nat
  fw_channel :: channel
  fw_session :: string
  fw_tab :: string
  fw_subscription :: string
  fw_regex :: "'rx option"
  fw_from :: nat

record 'rx net_world =
  nw_pages :: "(string \<times> 'rx page_network) list"
  nw_entry :: session_entry
  nw_next_task :: nat
  nw_forwarders :: "'rx forwarder list"
  nw_staged_proxy :: "proxy_config option"
  nw_calls :: "(string \<times> string \<times> json) list"

record 'rx net_env =
  ne_lib :: "'rx net_lib"
  ne_current_session :: bool
  ne_user_data_root :: "string option"
  ne_cdp :: "string \<Rightarrow> string \<Rightarrow> json \<Rightarrow> 'rx net_world \<Rightarrow> string + json"
  ne_write_proxy :: "string \<Rightarrow> proxy_config \<Rightarrow> string option"
  ne_decode :: "string \<Rightarrow> u8 list option"
  ne_bytes_json :: "u8 list \<Rightarrow> string"
  ne_str_json :: "string \<Rightarrow> string"
  ne_ws_bootstrap :: string
  ne_inject_script :: "string \<Rightarrow> string \<Rightarrow> string"
  ne_version :: string
  ne_install_mitm_ca :: "string \<Rightarrow> router_error + json"

type_synonym ('rx, 'a) net_op = "'rx net_world \<Rightarrow> (string + 'a) \<times> 'rx net_world"

definition page_net :: "string \<Rightarrow> 'rx net_world \<Rightarrow> 'rx page_network" where
  "page_net tab w = (case map_of (nw_pages w) tab of Some p \<Rightarrow> p | None \<Rightarrow> page_network_new)"

definition set_page_net :: "string \<Rightarrow> 'rx page_network \<Rightarrow> 'rx net_world \<Rightarrow> 'rx net_world" where
  "set_page_net tab p w = w\<lparr> nw_pages := AList.update tab p (nw_pages w) \<rparr>"

text \<open>\<^verbatim>\<open>cdp_send\<close> with a context: an error shows the context only.\<close>

definition cdp_send :: "'rx net_env \<Rightarrow> string \<Rightarrow> string \<Rightarrow> json \<Rightarrow> string \<Rightarrow> ('rx, json) net_op" where
  "cdp_send env tab meth params context w =
     ((case ne_cdp env tab meth params w of Inl _ \<Rightarrow> Inl context | Inr v \<Rightarrow> Inr v),
      w\<lparr> nw_calls := nw_calls w @ [(tab, meth, params)] \<rparr>)"

subsection \<open>Interception on a page\<close>

definition refresh_fetch_patterns :: "'rx net_env \<Rightarrow> string \<Rightarrow> ('rx, json) net_op" where
  "refresh_fetch_patterns env tab w =
     cdp_send env tab ''Fetch.enable''
       (JObject [(''patterns'', JArray (map (\<lambda>p. JObject [(''urlPattern'', JString p), (''requestStage'', JString ''Request'')])
            (pattern_set (ne_lib env) (page_net tab w)))),
          (''handleAuthRequests'', JBool (Option.bind (nl_proxy (ne_lib env)) pc_auth \<noteq> None))])
       ''Fetch.enable'' w"

definition register_handler :: "'rx net_env \<Rightarrow> string \<Rightarrow> 'rx handler_spec \<Rightarrow> ('rx, string) net_op" where
  "register_handler env tab spec w =
     (case insert_handler spec (page_net tab w) of (hid, p) \<Rightarrow>
      case refresh_fetch_patterns env tab (set_page_net tab p w) of
        (Inl e, w') \<Rightarrow> (Inl e, w') | (Inr _, w') \<Rightarrow> (Inr hid, w'))"

definition handler_spec_of ::
  "string \<Rightarrow> string \<Rightarrow> 'rx \<Rightarrow> intercept_action \<Rightarrow> mock_response option \<Rightarrow> request_overrides option \<Rightarrow>
   string option \<Rightarrow> 'rx handler_spec" where
  "handler_spec_of pre pattern rx a mock ov reason =
     \<lparr> hs_id = [], hs_id_prefix = pre, hs_pattern = pattern, hs_compiled = rx, hs_action = a, hs_mock = mock,
       hs_overrides = ov, hs_error_reason = reason \<rparr>"

definition net_intercept :: "'rx net_env \<Rightarrow> string \<Rightarrow> string \<Rightarrow> intercept_action \<Rightarrow> ('rx, string) net_op" where
  "net_intercept env tab pattern a w =
     (case glob_to_regex (ne_lib env) pattern of
        Inl e \<Rightarrow> (Inl e, w)
      | Inr rx \<Rightarrow> register_handler env tab (handler_spec_of ''h'' pattern rx a None None None) w)"

definition net_intercept_fulfill_with_body ::
  "'rx net_env \<Rightarrow> string \<Rightarrow> string \<Rightarrow> mock_response \<Rightarrow> ('rx, string) net_op" where
  "net_intercept_fulfill_with_body env tab pattern response w =
     (case glob_to_regex (ne_lib env) pattern of
        Inl e \<Rightarrow> (Inl e, w)
      | Inr rx \<Rightarrow> register_handler env tab (handler_spec_of ''m'' pattern rx ActFulfill (Some response) None None) w)"

definition net_intercept_modify_request ::
  "'rx net_env \<Rightarrow> string \<Rightarrow> string \<Rightarrow> request_overrides \<Rightarrow> ('rx, string) net_op" where
  "net_intercept_modify_request env tab pattern ov w =
     (case glob_to_regex (ne_lib env) pattern of
        Inl e \<Rightarrow> (Inl e, w)
      | Inr rx \<Rightarrow> register_handler env tab (handler_spec_of ''mod'' pattern rx ActModify None (Some ov) None) w)"

definition net_intercept_fail :: "'rx net_env \<Rightarrow> string \<Rightarrow> string \<Rightarrow> string \<Rightarrow> ('rx, string) net_op" where
  "net_intercept_fail env tab pattern reason w =
     (case glob_to_regex (ne_lib env) pattern of
        Inl e \<Rightarrow> (Inl e, w)
      | Inr rx \<Rightarrow> register_handler env tab (handler_spec_of ''fail'' pattern rx ActFail None None (Some reason)) w)"

definition net_replay :: "'rx net_env \<Rightarrow> string \<Rightarrow> string \<Rightarrow> ('rx, json) net_op" where
  "net_replay env tab rid = cdp_send env tab ''Network.replayXHR'' (JObject [(''requestId'', JString rid)]) ''Network.replayXHR''"

definition evaluate_params :: "string \<Rightarrow> json" where
  "evaluate_params expr =
     JObject [(''expression'', JString expr), (''returnByValue'', JBool True), (''awaitPromise'', JBool False)]"

definition result_value :: "json \<Rightarrow> json" where
  "result_value res = (case Option.bind (jget ''result'' res) (jget ''value'') of Some v \<Rightarrow> v | None \<Rightarrow> JNull)"

definition ensure_ws_registry_shim :: "'rx net_env \<Rightarrow> string \<Rightarrow> ('rx, unit) net_op" where
  "ensure_ws_registry_shim env tab w =
     (if pn_ws_registry_armed (page_net tab w) then (Inr (), w)
      else
        case cdp_send env tab ''Page.addScriptToEvaluateOnNewDocument'' (JObject [(''source'', JString (ne_ws_bootstrap env))])
               ''Page.addScriptToEvaluateOnNewDocument (ws registry)'' w of
          (Inl e, w) \<Rightarrow> (Inl e, w)
        | (Inr _, w) \<Rightarrow>
            (case cdp_send env tab ''Runtime.evaluate'' (evaluate_params (ne_ws_bootstrap env))
                    ''Runtime.evaluate (ws registry)'' w of
               (Inl e, w) \<Rightarrow> (Inl e, w)
             | (Inr res, w) \<Rightarrow>
                 if result_value res = JBool True
                 then (Inr (), set_page_net tab ((page_net tab w)\<lparr> pn_ws_registry_armed := True \<rparr>) w)
                 else (Inl ''websocket registry bootstrap returned false'', w)))"

definition net_websocket_inject_frame :: "'rx net_env \<Rightarrow> string \<Rightarrow> string \<Rightarrow> string \<Rightarrow> ('rx, unit) net_op" where
  "net_websocket_inject_frame env tab url_substring payload_base64 w =
     (case ensure_ws_registry_shim env tab w of
        (Inl e, w) \<Rightarrow> (Inl e, w)
      | (Inr _, w) \<Rightarrow>
          (case ne_decode env payload_base64 of
             None \<Rightarrow> (Inl ''payload_base64 is not valid base64'', w)
           | Some payload \<Rightarrow>
               (case cdp_send env tab ''Runtime.evaluate''
                       (evaluate_params (ne_inject_script env (ne_str_json env url_substring) (ne_bytes_json env payload)))
                       ''Runtime.evaluate (ws inject)'' w of
                  (Inl e, w) \<Rightarrow> (Inl e, w)
                | (Inr res, w) \<Rightarrow>
                    let v = result_value res
                    in if get_bool ''ok'' v = Some True then (Inr (), w)
                       else (Inl (''net.websocket.inject_frame failed: '' @ str_field ''reason'' ''ws-shim-not-armed'' v), w))))"

subsection \<open>HAR export\<close>

definition name_values_json :: "har_name_value list \<Rightarrow> json" where
  "name_values_json hs = JArray (map (\<lambda>h. JObject [(''name'', JString (hn_name h)), (''value'', JString (hn_value h))]) hs)"

definition json_int :: "int \<Rightarrow> json" where
  "json_int i = (if i < 0 then JNeg i else JPos (of_int i))"

definition har_entry_json :: "har_entry \<Rightarrow> json" where
  "har_entry_json e =
     (let q = he_request e; p = he_response e
      in JObject [(''startedDateTime'', JString (he_started_date_time e)), (''time'', json_num (he_time e)),
           (''request'', JObject [(''method'', JString (hq_method q)), (''url'', JString (hq_url q)),
              (''httpVersion'', JString (hq_http_version q)), (''cookies'', JArray []), (''headers'', name_values_json (hq_headers q)),
              (''queryString'', name_values_json (hq_query_string q)), (''headersSize'', json_int (hq_headers_size q)),
              (''bodySize'', json_int (hq_body_size q))]),
           (''response'', JObject [(''status'', json_int (hp_status p)), (''statusText'', JString (hp_status_text p)),
              (''httpVersion'', JString (hp_http_version p)), (''cookies'', JArray []), (''headers'', name_values_json (hp_headers p)),
              (''content'', JObject [(''size'', json_int (hp_content_size p)), (''mimeType'', JString (hp_content_mime_type p))]),
              (''redirectURL'', JString (hp_redirect_url p)), (''headersSize'', json_int (hp_headers_size p)),
              (''bodySize'', json_int (hp_body_size p))]),
           (''cache'', he_cache e), (''timings'', he_timings e), (''_requestId'', JString (he_request_id e))])"

definition net_har_export :: "string \<Rightarrow> f64 \<Rightarrow> 'rx page_network \<Rightarrow> json" where
  "net_har_export version since p =
     JObject [(''log'', JObject [(''version'', JString ''1.2''),
       (''creator'', JObject [(''name'', JString ''one-for-all''), (''version'', JString version)]),
       (''entries'', JArray (map har_entry_json (snapshot_since since (pn_har p))))])]"

subsection \<open>Parameters\<close>

definition string_pairs :: "json option \<Rightarrow> (string \<times> string) list" where
  "string_pairs v =
     (case Option.bind v as_array of
        None \<Rightarrow> []
      | Some hs \<Rightarrow> List.map_filter (\<lambda>h. case h of JArray (JString n # JString x # _) \<Rightarrow> Some (n, x) | _ \<Rightarrow> None) hs)"

definition parse_mock_response :: "json option \<Rightarrow> mock_response" where
  "parse_mock_response v =
     (let resp = (case v of Some r \<Rightarrow> r | None \<Rightarrow> JObject [])
      in \<lparr> mr_status = ucast (case get_u64 ''status'' resp of Some n \<Rightarrow> n | None \<Rightarrow> 200),
           mr_headers = string_pairs (jget ''headers'' resp),
           mr_body_base64 = str_field ''body_base64'' [] resp \<rparr>)"

definition parse_request_overrides :: "json option \<Rightarrow> request_overrides" where
  "parse_request_overrides v =
     (let v = (case v of Some r \<Rightarrow> r | None \<Rightarrow> JObject [])
      in \<lparr> ro_url = get_str ''url'' v, ro_method = get_str ''method'' v,
           ro_headers = string_pairs (jget ''headers'' v), ro_post_data_base64 = get_str ''post_data_base64'' v \<rparr>)"

definition parse_intercept_action :: "(json \<Rightarrow> string) \<Rightarrow> json option \<Rightarrow> router_error + intercept_action" where
  "parse_intercept_action print v =
     (case v of
        None \<Rightarrow> Inr ActContinue
      | Some JNull \<Rightarrow> Inr ActContinue
      | Some (JString s) \<Rightarrow>
          if s = ''continue'' then Inr ActContinue
          else if s = ''fulfill'' then Inr ActFulfill
          else if s = ''fail'' then Inr ActFail
          else Inl (invalid_params (''unknown intercept action '' @ debug_str s @ ''; expected continue|fulfill|fail''))
      | Some other \<Rightarrow>
          Inl (invalid_params (''unknown intercept action '' @ print other @ ''; expected continue|fulfill|fail'')))"

definition compile_filter :: "'rx net_lib \<Rightarrow> string option \<Rightarrow> router_error + 'rx option" where
  "compile_filter lib filt =
     (case filt of
        Some expr \<Rightarrow>
          (case nl_new lib expr of
             Inr rx \<Rightarrow> Inr (Some rx) | Inl e \<Rightarrow> Inl (invalid_params (''invalid net.observe.filter regex: '' @ e)))
      | None \<Rightarrow> Inr None)"

definition net_session_root :: "'rx net_env \<Rightarrow> string \<Rightarrow> router_error + string" where
  "net_session_root env sid =
     (case ne_user_data_root env of
        None \<Rightarrow> Inl (internal ''missing current state'') | Some root \<Rightarrow> Inr (root @ ''/'' @ sid))"

subsection \<open>Subscriptions\<close>

definition sent_count :: "channel \<Rightarrow> 'rx page_network \<Rightarrow> nat" where
  "sent_count ch p =
     (case ch of ObserveChannel \<Rightarrow> length (pn_observe_sent p) | WsChannel \<Rightarrow> length (pn_ws_sent p)
      | EsChannel \<Rightarrow> length (pn_es_sent p))"

definition spawn_forwarder ::
  "channel \<Rightarrow> string \<Rightarrow> string \<Rightarrow> 'rx option \<Rightarrow> 'rx net_world \<Rightarrow> 'rx net_world" where
  "spawn_forwarder ch tab sub rx w =
     (let task = nw_next_task w;
          f = \<lparr> fw_task = task, fw_channel = ch, fw_session = en_session_id (nw_entry w), fw_tab = tab,
                fw_subscription = sub, fw_regex = rx, fw_from = sent_count ch (page_net tab w) \<rparr>
      in w\<lparr> nw_entry := push_forwarder task (nw_entry w), nw_next_task := Suc task,
            nw_forwarders := nw_forwarders w @ [f] \<rparr>)"

definition observe_matches :: "'rx net_lib \<Rightarrow> 'rx option \<Rightarrow> string \<Rightarrow> bool" where
  "observe_matches lib rx url = (case rx of Some r \<Rightarrow> nl_match lib r url | None \<Rightarrow> True)"

definition net_notify_event :: "string \<Rightarrow> string \<Rightarrow> string \<Rightarrow> json \<Rightarrow> json" where
  "net_notify_event topic session_id tab_id payload =
     JObject [(''jsonrpc'', JString ''2.0''), (''method'', JString ''event/notify''),
       (''params'', JObject [(''topic'', JString topic), (''session_id'', JString session_id), (''tab_id'', JString tab_id),
          (''payload'', payload)])]"

definition net_observe_to_event :: "json \<Rightarrow> string \<Rightarrow> (string \<times> json) option" where
  "net_observe_to_event payload sub =
     (case get_str ''kind'' payload of
        None \<Rightarrow> None
      | Some kind \<Rightarrow>
          if kind = ''request_will_be_sent''
          then Some (''network.request'', JObject [(''subscription_id'', JString sub),
                 (''request_id'', field_or JNull ''request_id'' payload), (''url'', field_or JNull ''url'' payload),
                 (''method'', field_or JNull ''method'' payload), (''timestamp'', field_or JNull ''timestamp'' payload),
                 (''synthetic'', field_or (JBool False) ''synthetic'' payload)])
          else if kind = ''response_received''
          then Some (''network.response'', JObject [(''subscription_id'', JString sub),
                 (''request_id'', field_or JNull ''request_id'' payload), (''status'', field_or JNull ''status'' payload),
                 (''headers'', field_or (JObject []) ''headers'' payload),
                 (''mime_type'', field_or JNull ''mime_type'' payload), (''timestamp'', field_or JNull ''timestamp'' payload)])
          else None)"

text \<open>What a forwarder pushes to the client for one message of its channel.\<close>

definition forward_network_observe :: "'rx net_lib \<Rightarrow> 'rx forwarder \<Rightarrow> json \<Rightarrow> json option" where
  "forward_network_observe lib f payload =
     (if \<not> observe_matches lib (fw_regex f) (str_field ''url'' [] payload) then None
      else map_option (\<lambda>(topic, normalized). net_notify_event topic (fw_session f) (fw_tab f) normalized)
             (net_observe_to_event payload (fw_subscription f)))"

definition ws_kind_name :: "ws_frame_kind \<Rightarrow> string" where
  "ws_kind_name k =
     (case k of Created \<Rightarrow> ''created'' | HandshakeRequest \<Rightarrow> ''handshake_request'' | HandshakeResponse \<Rightarrow> ''handshake_response''
      | FrameSent \<Rightarrow> ''frame_sent'' | FrameReceived \<Rightarrow> ''frame_received'' | FrameError \<Rightarrow> ''frame_error'' | Closed \<Rightarrow> ''closed'')"

definition ws_frame_json :: "ws_frame \<Rightarrow> (string \<times> json) list" where
  "ws_frame_json f =
     [(''request_id'', JString (ws_request_id f)), (''kind'', JString (ws_kind_name (ws_kind f))),
      (''ts_ms'', json_num (ws_ts_ms f))] @ cdp_opt_field ''payload_base64'' (map_option JString (ws_payload_base64 f))
     @ cdp_opt_field ''url'' (map_option JString (ws_url f)) @ cdp_opt_field ''error'' (map_option JString (ws_error f))"

definition forward_websocket_observe :: "'rx forwarder \<Rightarrow> ws_frame \<Rightarrow> json" where
  "forward_websocket_observe f frame =
     net_notify_event ''network.websocket'' (fw_session f) (fw_tab f)
       (JObject (ws_frame_json frame @ [(''subscription_id'', JString (fw_subscription f))]))"

definition forward_eventsource_observe :: "'rx forwarder \<Rightarrow> es_message \<Rightarrow> json" where
  "forward_eventsource_observe f m =
     net_notify_event ''network.eventsource'' (fw_session f) (fw_tab f)
       (JObject [(''request_id'', JString (es_request_id m)), (''event_name'', JString (es_event_name m)),
          (''event_id'', JString (es_event_id m)), (''data'', JString (es_data m)), (''ts_ms'', json_num (es_ts_ms m)),
          (''subscription_id'', JString (fw_subscription f))])"

subsection \<open>The tools\<close>

type_synonym 'rx net_tool = "'rx net_world \<Rightarrow> (router_error + json) \<times> 'rx net_world"

definition with_page :: "json \<Rightarrow> (string \<Rightarrow> 'rx net_tool) \<Rightarrow> 'rx net_tool" where
  "with_page params f w =
     (case required_str params ''tab_id'' of
        Inl e \<Rightarrow> (Inl e, w)
      | Inr tab \<Rightarrow> if map_of (nw_pages w) tab = None then (Inl tab_not_found, w) else f tab w)"

definition with_str :: "json \<Rightarrow> string \<Rightarrow> (string \<Rightarrow> 'rx net_tool) \<Rightarrow> 'rx net_tool" where
  "with_str params k f w = (case required_str params k of Inl e \<Rightarrow> (Inl e, w) | Inr v \<Rightarrow> f v w)"

text \<open>The result of an operation of the page as the result of a tool.\<close>

definition tool_finish :: "string \<Rightarrow> ('a \<Rightarrow> json) \<Rightarrow> (string + 'a) \<times> 'rx net_world \<Rightarrow> (router_error + json) \<times> 'rx net_world" where
  "tool_finish tool result r = (case r of (Inl e, w) \<Rightarrow> (Inl (internal (tool @ '': '' @ e)), w) | (Inr v, w) \<Rightarrow> (Inr (result v), w))"

definition handler_result :: "string \<Rightarrow> json" where
  "handler_result hid = JObject [(''handler_id'', JString hid)]"

definition tool_net_intercept :: "'rx net_env \<Rightarrow> json \<Rightarrow> 'rx net_tool" where
  "tool_net_intercept env params =
     with_page params (\<lambda>tab. with_str params ''pattern'' (\<lambda>pattern w.
       case parse_intercept_action (nl_print (ne_lib env)) (jget ''action'' params) of
         Inl e \<Rightarrow> (Inl e, w)
       | Inr a \<Rightarrow> tool_finish ''net.intercept'' handler_result (net_intercept env tab pattern a w)))"

definition tool_net_mock :: "'rx net_env \<Rightarrow> json \<Rightarrow> 'rx net_tool" where
  "tool_net_mock env params =
     with_page params (\<lambda>tab. with_str params ''url_pattern'' (\<lambda>pattern w.
       tool_finish ''net.mock'' handler_result
         (net_intercept_fulfill_with_body env tab pattern (parse_mock_response (jget ''response'' params)) w)))"

definition tool_net_observe :: "'rx net_env \<Rightarrow> json \<Rightarrow> 'rx net_tool" where
  "tool_net_observe env params =
     with_page params (\<lambda>tab w.
       let filt = get_str ''filter'' params in
       case allocate_id ''s'' (page_net tab w) of (sub, p) \<Rightarrow>
       let w = set_page_net tab p w in
       case compile_filter (ne_lib env) filt of
         Inl e \<Rightarrow> (Inl e, w)
       | Inr rx \<Rightarrow>
           if \<not> ne_current_session env then (Inl (internal ''missing current session''), w)
           else
             let w = w\<lparr> nw_entry := upsert_durable_network_observe
                    \<lparr> dno_subscription_id = sub, dno_tab_id = tab, dno_filter = filt \<rparr> (nw_entry w) \<rparr>
             in (Inr (JObject [(''subscription_id'', JString sub)]), spawn_forwarder ObserveChannel tab sub rx w))"

definition tool_fulfill_with_body :: "'rx net_env \<Rightarrow> json \<Rightarrow> 'rx net_tool" where
  "tool_fulfill_with_body env params =
     with_page params (\<lambda>tab. with_str params ''pattern'' (\<lambda>pattern w.
       tool_finish ''net.intercept.fulfill_with_body'' handler_result
         (net_intercept_fulfill_with_body env tab pattern (parse_mock_response (jget ''response'' params)) w)))"

definition tool_modify_request :: "'rx net_env \<Rightarrow> json \<Rightarrow> 'rx net_tool" where
  "tool_modify_request env params =
     with_page params (\<lambda>tab. with_str params ''pattern'' (\<lambda>pattern w.
       tool_finish ''net.intercept.modify_request'' handler_result
         (net_intercept_modify_request env tab pattern (parse_request_overrides (jget ''overrides'' params)) w)))"

definition tool_intercept_fail :: "'rx net_env \<Rightarrow> json \<Rightarrow> 'rx net_tool" where
  "tool_intercept_fail env params =
     with_page params (\<lambda>tab. with_str params ''pattern'' (\<lambda>pattern w.
       tool_finish ''net.intercept.fail'' handler_result
         (net_intercept_fail env tab pattern (str_field ''error_reason'' ''Failed'' params) w)))"

definition tool_net_replay :: "'rx net_env \<Rightarrow> json \<Rightarrow> 'rx net_tool" where
  "tool_net_replay env params =
     with_page params (\<lambda>tab. with_str params ''request_id'' (\<lambda>rid w.
       tool_finish ''net.replay'' (\<lambda>_. ok_true) (net_replay env tab rid w)))"

definition observe_channel :: "'rx net_env \<Rightarrow> channel \<Rightarrow> string \<Rightarrow> string \<Rightarrow> json \<Rightarrow> 'rx net_tool" where
  "observe_channel env ch pre name params =
     with_page params (\<lambda>tab w.
       case allocate_id pre (page_net tab w) of (sub, p) \<Rightarrow>
       let w = set_page_net tab p w in
       if \<not> ne_current_session env then (Inl (internal ''missing current session''), w)
       else (Inr (JObject [(''subscription_id'', JString sub), (''channel'', JString name)]),
             spawn_forwarder ch tab sub None w))"

definition tool_inject_frame :: "'rx net_env \<Rightarrow> json \<Rightarrow> 'rx net_tool" where
  "tool_inject_frame env params =
     with_page params (\<lambda>tab. with_str params ''url_substring'' (\<lambda>url. with_str params ''payload_base64'' (\<lambda>payload w.
       tool_finish ''net.websocket.inject_frame'' (\<lambda>_. ok_true) (net_websocket_inject_frame env tab url payload w))))"

definition tool_har_export :: "'rx net_env \<Rightarrow> json \<Rightarrow> 'rx net_tool" where
  "tool_har_export env params =
     with_page params (\<lambda>tab w.
       (Inr (net_har_export (ne_version env) (case get_f64 ''since_ts'' params of Some t \<Rightarrow> t | None \<Rightarrow> 0) (page_net tab w)), w))"

text \<open>The proxy is staged in memory before it is written.\<close>

definition store_staged_proxy :: "'rx net_env \<Rightarrow> string \<Rightarrow> proxy_config \<Rightarrow> 'rx net_world \<Rightarrow> string option \<times> 'rx net_world" where
  "store_staged_proxy env root cfg w = (ne_write_proxy env root cfg, w\<lparr> nw_staged_proxy := Some cfg \<rparr>)"

definition tool_net_proxy :: "'rx net_env \<Rightarrow> json \<Rightarrow> 'rx net_tool" where
  "tool_net_proxy env params =
     with_str params ''scheme'' (\<lambda>scheme. with_str params ''host'' (\<lambda>host w.
       case get_u64 ''port'' params of
         None \<Rightarrow> (Inl (invalid_params ''port required''), w)
       | Some port \<Rightarrow>
           let cfg = \<lparr> pc_scheme = scheme, pc_host = host, pc_port = ucast port,
                 pc_auth = map_option (\<lambda>a. \<lparr> pa_user = str_field ''user'' [] a, pa_pass = str_field ''pass'' [] a \<rparr>)
                   (jget ''auth'' params),
                 pc_bypass = get_str ''bypass'' params \<rparr>
           in if \<not> ne_current_session env then (Inl (internal ''missing current session''), w)
              else case net_session_root env (en_session_id (nw_entry w)) of
                Inl e \<Rightarrow> (Inl e, w)
              | Inr root \<Rightarrow>
                  (case store_staged_proxy env root cfg w of
                     (Some e, w) \<Rightarrow> (Inl (internal (''net.proxy persist: '' @ e)), w)
                   | (None, w) \<Rightarrow>
                       (Inr (JObject [(''accepted'', JBool True), (''applies_at_next_launch'', JBool True),
                          (''argv'', JString (to_proxy_server_arg cfg))]), w))))"

definition tool_mitm_cert :: "'rx net_env \<Rightarrow> json \<Rightarrow> 'rx net_tool" where
  "tool_mitm_cert env params = with_str params ''ca_pem'' (\<lambda>ca w. (ne_install_mitm_ca env ca, w))"

definition net_tools :: "'rx net_env \<Rightarrow> (string \<times> (json \<Rightarrow> 'rx net_tool)) list" where
  "net_tools env =
     [(''net.intercept'', tool_net_intercept env),
      (''net.mock'', tool_net_mock env),
      (''net.observe'', tool_net_observe env),
      (''net.intercept.fulfill_with_body'', tool_fulfill_with_body env),
      (''net.intercept.modify_request'', tool_modify_request env),
      (''net.intercept.fail'', tool_intercept_fail env),
      (''net.replay'', tool_net_replay env),
      (''net.websocket.observe'', observe_channel env WsChannel ''ws'' ''ws''),
      (''net.websocket.inject_frame'', tool_inject_frame env),
      (''net.eventsource.observe'', observe_channel env EsChannel ''es'' ''eventsource''),
      (''net.har.export'', tool_har_export env),
      (''net.proxy'', tool_net_proxy env),
      (''net.mitm_cert.install'', tool_mitm_cert env)]"

definition net_dispatch :: "'rx net_env \<Rightarrow> string \<Rightarrow> json \<Rightarrow> 'rx net_tool" where
  "net_dispatch env meth params w =
     (case map_of (net_tools env) meth of
        Some tool \<Rightarrow> tool params w | None \<Rightarrow> (Inl (method_not_found meth), w))"

subsection \<open>Frames\<close>

lemmas net_op_defs = cdp_send_def refresh_fetch_patterns_def register_handler_def net_intercept_def
  net_intercept_fulfill_with_body_def net_intercept_modify_request_def net_intercept_fail_def net_replay_def

lemma page_net_set [simp]: "page_net tab (set_page_net tab' p w) = (if tab = tab' then p else page_net tab w)"
  by (simp add: page_net_def set_page_net_def update_conv')

lemma set_page_net_frame [simp]:
  "nw_entry (set_page_net tab p w) = nw_entry w" "nw_forwarders (set_page_net tab p w) = nw_forwarders w"
  "nw_next_task (set_page_net tab p w) = nw_next_task w" "nw_calls (set_page_net tab p w) = nw_calls w"
  by (simp_all add: set_page_net_def)

lemma spawn_forwarder_frame [simp]:
  "nw_pages (spawn_forwarder ch tab sub rx w) = nw_pages w"
  "en_durable_network_observe (nw_entry (spawn_forwarder ch tab sub rx w)) = en_durable_network_observe (nw_entry w)"
  by (simp_all add: spawn_forwarder_def Let_def push_forwarder_def)

lemma page_net_spawn [simp]: "page_net t (spawn_forwarder ch tab sub rx w) = page_net t w"
  by (simp add: page_net_def)

lemma page_net_entry [simp]: "page_net t (w\<lparr> nw_entry := e \<rparr>) = page_net t w"
  by (simp add: page_net_def)

subsection \<open>Subscription numbers are per tab\<close>

lemma dispatch_observe: "net_dispatch env ''net.observe'' = tool_net_observe env"
  by (simp add: net_dispatch_def [abs_def] net_tools_def fun_eq_iff)

lemma hex_one: "nat_to_hex 1 = ''1''" "nat_to_hex (Suc 0) = ''1''"
  by code_simp+

lemma observe_fresh:
  assumes "map_of (nw_pages w) tab = Some p" "pn_next_id p = 0" "ne_current_session env"
  defines "params \<equiv> JObject [(''tab_id'', JString tab)]"
  shows "net_dispatch env ''net.observe'' params w =
    (Inr (JObject [(''subscription_id'', JString ''s_1'')]),
     spawn_forwarder ObserveChannel tab ''s_1'' None
       ((set_page_net tab (p\<lparr> pn_next_id := 1 \<rparr>) w)\<lparr> nw_entry := upsert_durable_network_observe
          \<lparr> dno_subscription_id = ''s_1'', dno_tab_id = tab, dno_filter = None \<rparr> (nw_entry w) \<rparr>))"
  using assms
  by (simp add: dispatch_observe tool_net_observe_def with_page_def required_str_def need_def get_str_def
      compile_filter_def allocate_id_def page_net_def Let_def hex_one)

lemma upsert_twice:
  assumes "dno_subscription_id a = dno_subscription_id b"
  shows "upsert_observe b (upsert_observe a obs) = upsert_observe b obs"
  using assms by (induction obs) auto

lemma upsert_set: "distinct (map dno_subscription_id obs) \<Longrightarrow>
  set (upsert_observe b obs) = insert b {x \<in> set obs. dno_subscription_id x \<noteq> dno_subscription_id b}"
  by (induction obs) (auto intro: rev_image_eqI)


definition net_sample_env :: "string net_env" where
  "net_sample_env = \<lparr> ne_lib = net_sample_lib, ne_current_session = True, ne_user_data_root = Some ''/r'', ne_cdp = (\<lambda>_ _ _ _. Inr JNull),
     ne_write_proxy = (\<lambda>_ _. None), ne_decode = (\<lambda>_. None), ne_bytes_json = (\<lambda>_. []), ne_str_json = (\<lambda>s. s),
     ne_ws_bootstrap = [], ne_inject_script = (\<lambda>a b. a), ne_version = ''1'', ne_install_mitm_ca = (\<lambda>_. Inr ok_true) \<rparr>"

definition net_sample_world :: "string net_world" where
  "net_sample_world = \<lparr> nw_pages = [(''A'', page_network_new), (''B'', page_network_new)], nw_entry = entry_new 0 0 ''S'' 0,
     nw_next_task = 0, nw_forwarders = [], nw_staged_proxy = None, nw_calls = [] \<rparr>"


subsection \<open>Interception without a body\<close>

lemma insert_handler_find:
  assumes "pn_handlers p = []"
  shows "pn_handlers (snd (insert_handler spec p)) =
    [(fst (insert_handler spec p), spec\<lparr> hs_id := fst (insert_handler spec p) \<rparr>)]"
  using assms by (simp add: insert_handler_def allocate_id_def Let_def)

lemma register_handler_page:
  "page_net tab (snd (register_handler env tab spec w)) = snd (insert_handler spec (page_net tab w))"
  by (simp add: net_op_defs page_net_def set_page_net_def update_conv' split: prod.split sum.split)

text \<open>
  Intercepting with the action \<open>fulfill\<close> through \<open>net.intercept\<close> answers with status 0. The tool takes no
  response, the handler it registers has none, and a paused request that only this handler matches is then answered by
  \<open>Fetch.fulfillRequest\<close> with response code 0 and no body, whatever the outcome of the registration.
\<close>
theorem plain_fulfill_status_zero:
  assumes "map_of (nw_pages w) tab = Some p" "pn_handlers p = []"
    and "nl_new (ne_lib env) (glob_source pattern) = Inr rx" "\<And>m. mset (nl_iter (ne_lib env) m) = mset m"
    and "nl_match (ne_lib env) rx (str_field ''url'' [] (pe_request e))"
  shows "let w' = snd (net_dispatch env ''net.intercept''
            (JObject [(''tab_id'', JString tab), (''pattern'', JString pattern), (''action'', JString ''fulfill'')]) w)
         in run_fetch_dispatch (dispatch_fetch_event (ne_lib env) (page_net tab w') e) =
            (''Fetch.fulfillRequest'', JObject [(''requestId'', pe_request_id e), (''responseCode'', JPos 0)])"
proof -
  let ?spec = "handler_spec_of ''h'' pattern rx ActFulfill None None None"
  let ?params = "JObject [(''tab_id'', JString tab), (''pattern'', JString pattern), (''action'', JString ''fulfill'')]"
  let ?w' = "snd (net_dispatch env ''net.intercept'' ?params w)"
  have "snd (tool_finish n f r) = snd r" for n :: string and f :: "string \<Rightarrow> json" and r
    by (simp add: tool_finish_def split: prod.split sum.split)
  then have w': "?w' = snd (register_handler env tab ?spec w)"
    using assms(1,3)
    by (simp add: net_dispatch_def net_tools_def tool_net_intercept_def with_page_def with_str_def required_str_def need_def
        get_str_def parse_intercept_action_def net_intercept_def glob_to_regex_def)
  obtain hid where h: "pn_handlers (page_net tab ?w') = [(hid, ?spec\<lparr> hs_id := hid \<rparr>)]"
    unfolding w' register_handler_page using insert_handler_find [of p ?spec] assms(1,2) by (simp add: page_net_def)
  have "mset (nl_iter (ne_lib env) (pn_handlers (page_net tab ?w'))) = {# (hid, ?spec\<lparr> hs_id := hid \<rparr>) #}"
    unfolding assms(4) h by simp
  then have "nl_iter (ne_lib env) (pn_handlers (page_net tab ?w')) = [(hid, ?spec\<lparr> hs_id := hid \<rparr>)]"
    by (simp add: mset_single_iff)
  then show ?thesis
    using assms(5)
    by (simp add: Let_def dispatch_eq handler_matches_def handler_spec_of_def action_of_def mock_default_def header_json_def
        run_fetch_dispatch_def cdp_opt_field_def)
qed

theorem plain_fulfill_status_zero_witness:
  "let lib = net_sample_lib\<lparr> nl_match := (\<lambda>rx url. True) \<rparr>;
       w' = snd (net_dispatch (net_sample_env\<lparr> ne_lib := lib \<rparr>) ''net.intercept''
            (JObject [(''tab_id'', JString ''A''), (''pattern'', JString ''*''), (''action'', JString ''fulfill'')]) net_sample_world)
   in run_fetch_dispatch (dispatch_fetch_event lib (page_net ''A'' w') sample_paused) =
        (''Fetch.fulfillRequest'', JObject [(''requestId'', JString ''r''), (''responseCode'', JPos 0)])"
  using plain_fulfill_status_zero [of net_sample_world "''A''" page_network_new
      "net_sample_env\<lparr> ne_lib := net_sample_lib\<lparr> nl_match := (\<lambda>rx url. True) \<rparr> \<rparr>" "''*''" "glob_source ''*''" sample_paused]
  by (simp add: net_sample_world_def net_sample_env_def page_network_new_def net_sample_lib_def sample_paused_def Let_def)

end
