(* ===== verification/Page_Tabs.thy ===== *)
theory Page_Tabs
  imports Router_Net
begin

text \<open>
  Tabs: which URLs may be opened (\<^verbatim>\<open>validate_navigable_url\<close> of \<^verbatim>\<open>browser-engine/src/browser.rs\<close>),
  the waits of a page (\<^verbatim>\<open>browser-engine/src/wait.rs\<close>), the tabs of a browser context
  (\<^verbatim>\<open>browser-engine/src/context.rs\<close>, \<^verbatim>\<open>navigate\<close>, \<^verbatim>\<open>close\<close> and
  \<^verbatim>\<open>refresh_target_info\<close> of \<^verbatim>\<open>page.rs\<close>) and the tools on them (\<^verbatim>\<open>broker/src/router/tab.rs\<close>).
  Times are nanoseconds. A wait on a channel is given what arrives after it subscribed, with the time of arrival;
  a polling wait is given the readings of the clock and what each poll sees. The answers of the browser to the
  commands of one call are the fields of \<open>tab_io\<close>.
\<close>

subsection \<open>URLs\<close>

definition split_once :: "char \<Rightarrow> string \<Rightarrow> (string \<times> string) option" where
  "split_once c s = (case find_char c s of None \<Rightarrow> None | Some i \<Rightarrow> Some (take i s, drop (Suc i) s))"

text \<open>The error, if any.\<close>

definition validate_navigable_url :: "string \<Rightarrow> string option" where
  "validate_navigable_url url =
     (if url = ''about:blank'' then None
      else
        case split_once CHR '':'' url of
          None \<Rightarrow> Some ''navigation URL must include an explicit scheme''
        | Some (s, remainder) \<Rightarrow>
            let scheme = to_ascii_lowercase s
            in if scheme = ''http'' \<or> scheme = ''https''
               then if take 2 remainder = ''//'' then None
                    else Some (''navigation URL must use an absolute '' @ scheme @ ''://'' @ '' URL'')
               else if scheme = ''about'' then Some ''only about:blank is allowed for navigation''
               else if scheme \<in> set [''file'', ''chrome'', ''chrome-error'', ''chrome-extension'', ''javascript'', ''data'',
                      ''view-source'', ''devtools'']
               then Some (''unsafe navigation URL scheme: '' @ scheme)
               else Some (''unsupported navigation URL scheme: '' @ scheme))"

subsection \<open>Waiting on a channel\<close>

text \<open>What a subscriber receives: an event of the pump, or the error of a receiver that lagged or was closed.\<close>

datatype page_feed = Fed page_event | FeedError string

type_synonym feeds = "(nat \<times> page_feed) list"

fun await_match :: "(page_event \<Rightarrow> 'a option) \<Rightarrow> nat \<Rightarrow> feeds \<Rightarrow> string + 'a option" where
  "await_match sel deadline [] = Inr None"
| "await_match sel deadline ((t, f) # fs) =
     (if deadline < t then Inr None
      else case f of
        FeedError e \<Rightarrow> Inl e
      | Fed ev \<Rightarrow> (case sel ev of Some x \<Rightarrow> Inr (Some x) | None \<Rightarrow> await_match sel deadline fs))"

definition wait_target :: "wait_until \<Rightarrow> string option" where
  "wait_target u =
     (case u of WaitNone \<Rightarrow> None | WaitLoad \<Rightarrow> Some ''load'' | WaitDomContentLoaded \<Rightarrow> Some ''DOMContentLoaded''
      | WaitNetworkIdle \<Rightarrow> Some ''networkIdle'')"

definition lifecycle_is :: "string \<Rightarrow> page_event \<Rightarrow> unit option" where
  "lifecycle_is target ev =
     (case ev of LifecycleEvent _ nam _ \<Rightarrow> if nam = target then Some () else None | _ \<Rightarrow> None)"

text \<open>\<open>dur\<close> prints a duration.\<close>

definition wait_for_lifecycle :: "(nat \<Rightarrow> string) \<Rightarrow> wait_until \<Rightarrow> nat \<Rightarrow> feeds \<Rightarrow> string option" where
  "wait_for_lifecycle dur until deadline fs =
     (case wait_target until of
        None \<Rightarrow> None
      | Some target \<Rightarrow>
          (case await_match (lifecycle_is target) deadline fs of
             Inl e \<Rightarrow> Some (''lifecycle channel error: '' @ e)
           | Inr (Some _) \<Rightarrow> None
           | Inr None \<Rightarrow> Some (''timed out waiting for lifecycle '' @ target @ '' after '' @ dur deadline)))"

definition nav_matches :: "(string \<Rightarrow> bool) \<Rightarrow> page_event \<Rightarrow> string option" where
  "nav_matches re ev =
     (case ev of
        FrameNavigated frame \<Rightarrow>
          (case get_str ''url'' frame of Some url \<Rightarrow> if re url then Some url else None | None \<Rightarrow> None)
      | _ \<Rightarrow> None)"

definition wait_for_url ::
  "'rx net_lib \<Rightarrow> (nat \<Rightarrow> string) \<Rightarrow> string \<Rightarrow> nat \<Rightarrow> string \<Rightarrow> feeds \<Rightarrow> string + string" where
  "wait_for_url lib dur pattern deadline current fs =
     (case nl_new lib pattern of
        Inl e \<Rightarrow> Inl (''invalid url_regex: '' @ e)
      | Inr re \<Rightarrow>
          if current \<noteq> [] \<and> nl_match lib re current then Inr current
          else
            case await_match (nav_matches (nl_match lib re)) deadline fs of
              Inl e \<Rightarrow> Inl (''nav channel error: '' @ e)
            | Inr (Some url) \<Rightarrow> Inr url
            | Inr None \<Rightarrow> Inl (''timed out waiting for url '' @ debug_str pattern @ '' after '' @ dur deadline))"

subsection \<open>Polling\<close>

text \<open>
  A polling loop reads the clock a fixed number of times per poll; \<open>clk n\<close> is the n-th reading of a call. The loops may
  not end, so they are functions into an option: \<open>None\<close> is a loop that never returns.
\<close>

definition MILLI :: nat where "MILLI = 1000000"

partial_function (option) idle_loop ::
  "(nat \<Rightarrow> nat) \<Rightarrow> (nat \<Rightarrow> nat) \<Rightarrow> nat \<Rightarrow> nat \<Rightarrow> nat \<Rightarrow> nat \<Rightarrow> bool option" where
  "idle_loop clk in_flight idle_window deadline i last_busy_at =
     (if in_flight i = 0 \<and> clk (2 * i + 2) - last_busy_at \<ge> idle_window then Some True
      else
        let last_busy_at = (if in_flight i = 0 then last_busy_at else clk (2 * i + 2))
        in if clk (2 * i + 3) - clk 0 \<ge> deadline then Some False
           else idle_loop clk in_flight idle_window deadline (Suc i) last_busy_at)"

text \<open>The first two readings are those of \<^verbatim>\<open>start\<close> and \<^verbatim>\<open>last_busy_at\<close>.\<close>

definition wait_for_network_idle ::
  "(nat \<Rightarrow> string) \<Rightarrow> (nat \<Rightarrow> nat) \<Rightarrow> (nat \<Rightarrow> nat) \<Rightarrow> nat \<Rightarrow> nat \<Rightarrow> string option option" where
  "wait_for_network_idle dur clk in_flight idle_window deadline =
     map_option (\<lambda>ok. if ok then None
         else Some (''network-idle window '' @ dur idle_window @ '' not reached within '' @ dur deadline))
       (idle_loop clk in_flight idle_window deadline 0 (clk 1))"

datatype selector_answer = SelectorError | SelectorValue json

definition selector_found :: "json \<Rightarrow> bool" where
  "selector_found v = (get_bool ''value'' v = Some True)"

partial_function (option) selector_loop ::
  "(nat \<Rightarrow> nat) \<Rightarrow> (nat \<Rightarrow> selector_answer) \<Rightarrow> nat \<Rightarrow> nat \<Rightarrow> (string + bool) option" where
  "selector_loop clk answer deadline i =
     (case answer i of
        SelectorError \<Rightarrow> Some (Inl ''Runtime.evaluate while wait_for_selector'')
      | SelectorValue v \<Rightarrow>
          if selector_found v then Some (Inr True)
          else if clk (i + 1) - clk 0 \<ge> deadline then Some (Inr False)
          else selector_loop clk answer deadline (Suc i))"

definition wait_for_selector ::
  "(nat \<Rightarrow> string) \<Rightarrow> (nat \<Rightarrow> nat) \<Rightarrow> (nat \<Rightarrow> selector_answer) \<Rightarrow> string \<Rightarrow> nat \<Rightarrow> string option option" where
  "wait_for_selector dur clk answer selector deadline =
     map_option (\<lambda>r. case r of
         Inl e \<Rightarrow> Some e
       | Inr True \<Rightarrow> None
       | Inr False \<Rightarrow> Some (''timed out waiting for selector '' @ debug_str selector @ '' after '' @ dur deadline))
       (selector_loop clk answer deadline 0)"

subsection \<open>Termination of polling loops\<close>

text \<open>
  A polling loop as its client sees it: the body of a poll either ends the loop or goes on with a new state, and it
  ends at the latest at poll \<open>bound\<close> when the clock runs. The loop then returns, with the result of the first poll
  that ends it.
\<close>

locale polling_loop =
  fixes body :: "nat \<Rightarrow> 's \<Rightarrow> 'r + 's"
    and loop :: "nat \<Rightarrow> 's \<Rightarrow> 'r option"
    and running :: bool
    and bound :: nat
  assumes loop_unfold: "loop i s = (case body i s of Inl r \<Rightarrow> Some r | Inr s' \<Rightarrow> loop (Suc i) s')"
    and bound_stops: "running \<Longrightarrow> bound \<le> i \<Longrightarrow> \<exists>r. body i s = Inl r"
begin

primrec iter_state :: "'s \<Rightarrow> nat \<Rightarrow> 's" where
  "iter_state s 0 = s"
| "iter_state s (Suc i) = (case body i (iter_state s i) of Inr s' \<Rightarrow> s' | Inl _ \<Rightarrow> iter_state s i)"

lemma loop_until:
  assumes "\<And>j. j < n \<Longrightarrow> \<exists>s'. body j (iter_state s j) = Inr s'"
  shows "loop 0 s = loop n (iter_state s n)"
  using assms
proof (induction n)
  case (Suc n)
  then have "loop 0 s = loop n (iter_state s n)" by simp
  moreover obtain s' where "body n (iter_state s n) = Inr s'" using Suc.prems [of n] by auto
  ultimately show ?case by (simp add: loop_unfold [of n])
qed simp

lemma loop_returns:
  assumes running
  shows "\<exists>n r. n \<le> bound \<and> loop 0 s = Some r \<and> body n (iter_state s n) = Inl r \<and>
    (\<forall>j<n. \<exists>s'. body j (iter_state s j) = Inr s')"
proof -
  let ?P = "\<lambda>n. \<exists>r. body n (iter_state s n) = Inl r"
  define n where "n = (LEAST n. ?P n)"
  have b: "?P bound" using bound_stops [OF assms, of bound] by simp
  then have p: "?P n" unfolding n_def by (rule LeastI)
  have "n \<le> bound" unfolding n_def using b by (rule Least_le)
  have before: "\<exists>s'. body j (iter_state s j) = Inr s'" if "j < n" for j
    using not_less_Least [of j ?P] that unfolding n_def by (cases "body j (iter_state s j)") auto
  obtain r where r: "body n (iter_state s n) = Inl r" using p by blast
  have "loop 0 s = loop n (iter_state s n)" by (rule loop_until) (rule before)
  then have "loop 0 s = Some r" by (simp add: loop_unfold [of n] r)
  with \<open>n \<le> bound\<close> r before show ?thesis by blast
qed

end

text \<open>The clock of a loop with \<open>k\<close> readings per poll after \<open>f\<close> initial ones: it never runs back, and the sleep takes its time.\<close>

definition sleeps :: "nat \<Rightarrow> nat \<Rightarrow> nat \<Rightarrow> (nat \<Rightarrow> nat) \<Rightarrow> bool" where
  "sleeps f k period clk \<longleftrightarrow>
     (\<forall>n. clk n \<le> clk (Suc n)) \<and> (\<forall>i. clk (f + k * i + (k - 1)) + period \<le> clk (f + k * Suc i))"

lemma sleeps_progress:
  assumes "sleeps f k period clk" "0 < k"
  shows "clk 0 + i * period \<le> clk (f + k * i + (k - 1))"
proof -
  have m: "mono clk" using assms(1) by (simp add: sleeps_def mono_iff_le_Suc)
  show ?thesis
  proof (induction i)
    case 0
    show ?case using monoD [OF m, of 0 "f + (k - 1)"] by simp
  next
    case (Suc i)
    have "clk (f + k * i + (k - 1)) + period \<le> clk (f + k * Suc i)" using assms(1) by (simp add: sleeps_def)
    also have "\<dots> \<le> clk (f + k * Suc i + (k - 1))" by (rule monoD [OF m]) simp
    finally show ?case using Suc by simp
  qed
qed

lemma past_deadline: "0 < period \<Longrightarrow> deadline div period + 1 \<le> i \<Longrightarrow> deadline \<le> i * period" for period :: nat
proof -
  assume p: "0 < period" and i: "deadline div period + 1 \<le> i"
  have "deadline < (deadline div period + 1) * period" using p by (simp add: dividend_less_div_times)
  also have "\<dots> \<le> i * period" using i by (rule mult_le_mono1)
  finally show ?thesis by simp
qed

definition idle_body :: "(nat \<Rightarrow> nat) \<Rightarrow> (nat \<Rightarrow> nat) \<Rightarrow> nat \<Rightarrow> nat \<Rightarrow> nat \<Rightarrow> nat \<Rightarrow> bool + nat" where
  "idle_body clk in_flight idle_window deadline i last_busy_at =
     (if in_flight i = 0 \<and> clk (2 * i + 2) - last_busy_at \<ge> idle_window then Inl True
      else if clk (2 * i + 3) - clk 0 \<ge> deadline then Inl False
      else Inr (if in_flight i = 0 then last_busy_at else clk (2 * i + 2)))"

definition selector_body :: "(nat \<Rightarrow> nat) \<Rightarrow> (nat \<Rightarrow> selector_answer) \<Rightarrow> nat \<Rightarrow> nat \<Rightarrow> unit \<Rightarrow> (string + bool) + unit" where
  "selector_body clk answer deadline i s =
     (case answer i of
        SelectorError \<Rightarrow> Inl (Inl ''Runtime.evaluate while wait_for_selector'')
      | SelectorValue v \<Rightarrow>
          if selector_found v then Inl (Inr True)
          else if clk (i + 1) - clk 0 \<ge> deadline then Inl (Inr False)
          else Inr ())"

interpretation idle: polling_loop "idle_body clk in_flight w d" "idle_loop clk in_flight w d" "sleeps 2 2 (50 * MILLI) clk"
  "d div (50 * MILLI) + 1"
proof
  show "idle_loop clk in_flight w d i s =
      (case idle_body clk in_flight w d i s of Inl r \<Rightarrow> Some r | Inr s' \<Rightarrow> idle_loop clk in_flight w d (Suc i) s')" for i s
    by (subst idle_loop.simps) (simp add: idle_body_def Let_def)
  show "\<exists>r. idle_body clk in_flight w d i s = Inl r"
    if "sleeps 2 2 (50 * MILLI) clk" "d div (50 * MILLI) + 1 \<le> i" for i s
  proof -
    have "d \<le> i * (50 * MILLI)" by (rule past_deadline [OF _ that(2)]) (simp add: MILLI_def)
    moreover have "clk 0 + i * (50 * MILLI) \<le> clk (2 * i + 3)"
      using sleeps_progress [OF that(1), of i] by (simp add: numeral_3_eq_3)
    ultimately have "d \<le> clk (2 * i + 3) - clk 0" by linarith
    then show ?thesis by (auto simp: idle_body_def)
  qed
qed

interpretation selector: polling_loop "selector_body clk answer d" "\<lambda>i _. selector_loop clk answer d i"
  "sleeps 1 1 (100 * MILLI) clk" "d div (100 * MILLI) + 1"
proof
  show "selector_loop clk answer d i =
      (case selector_body clk answer d i s of Inl r \<Rightarrow> Some r | Inr _ \<Rightarrow> selector_loop clk answer d (Suc i))" for i s
    by (subst selector_loop.simps) (simp add: selector_body_def split: selector_answer.split)
  show "\<exists>r. selector_body clk answer d i s = Inl r"
    if "sleeps 1 1 (100 * MILLI) clk" "d div (100 * MILLI) + 1 \<le> i" for i s
  proof -
    have "d \<le> i * (100 * MILLI)" by (rule past_deadline [OF _ that(2)]) (simp add: MILLI_def)
    moreover have "clk 0 + i * (100 * MILLI) \<le> clk (i + 1)"
      using sleeps_progress [OF that(1), of i] by (simp add: add.commute)
    ultimately have "d \<le> clk (i + 1) - clk 0" by linarith
    then show ?thesis by (simp add: selector_body_def split: selector_answer.split)
  qed
qed

text \<open>The reading at the last poll before poll \<open>n\<close> that saw a request in flight.\<close>

primrec last_busy :: "(nat \<Rightarrow> nat) \<Rightarrow> (nat \<Rightarrow> nat) \<Rightarrow> nat \<Rightarrow> nat" where
  "last_busy clk in_flight 0 = clk 1"
| "last_busy clk in_flight (Suc n) = (if in_flight n = 0 then last_busy clk in_flight n else clk (2 * n + 2))"

definition idle_ok :: "(nat \<Rightarrow> nat) \<Rightarrow> (nat \<Rightarrow> nat) \<Rightarrow> nat \<Rightarrow> nat \<Rightarrow> bool" where
  "idle_ok clk in_flight w n \<longleftrightarrow> in_flight n = 0 \<and> w \<le> clk (2 * n + 2) - last_busy clk in_flight n"

definition idle_late :: "(nat \<Rightarrow> nat) \<Rightarrow> nat \<Rightarrow> nat \<Rightarrow> bool" where
  "idle_late clk d n \<longleftrightarrow> d \<le> clk (2 * n + 3) - clk 0"

lemma idle_iter_state:
  assumes "\<forall>j<n. \<exists>s'. idle_body clk in_flight w d j (idle.iter_state clk in_flight w d (clk 1) j) = Inr s'"
  shows "idle.iter_state clk in_flight w d (clk 1) n = last_busy clk in_flight n"
  using assms
proof (induction n)
  case (Suc n)
  then have "idle.iter_state clk in_flight w d (clk 1) n = last_busy clk in_flight n" by simp
  moreover obtain s' where "idle_body clk in_flight w d n (idle.iter_state clk in_flight w d (clk 1) n) = Inr s'"
    using Suc.prems by blast
  ultimately show ?case
    unfolding idle.iter_state.simps by (auto simp: idle_body_def simp del: One_nat_def split: if_splits)
qed simp

lemma network_idle_end:
  assumes "sleeps 2 2 (50 * MILLI) clk"
  shows "\<exists>n \<le> d div (50 * MILLI) + 1.
    (idle_ok clk in_flight w n \<or> idle_late clk d n) \<and> (\<forall>j<n. \<not> idle_ok clk in_flight w j \<and> \<not> idle_late clk d j) \<and>
    wait_for_network_idle dur clk in_flight w d =
      Some (if idle_ok clk in_flight w n then None
            else Some (''network-idle window '' @ dur w @ '' not reached within '' @ dur d))"
proof -
  obtain n r where n: "n \<le> d div (50 * MILLI) + 1" and loop: "idle_loop clk in_flight w d 0 (clk 1) = Some r"
      and r: "idle_body clk in_flight w d n (idle.iter_state clk in_flight w d (clk 1) n) = Inl r"
      and before: "\<forall>j<n. \<exists>s'. idle_body clk in_flight w d j (idle.iter_state clk in_flight w d (clk 1) j) = Inr s'"
    using idle.loop_returns [OF assms] by blast
  have s: "idle.iter_state clk in_flight w d (clk 1) j = last_busy clk in_flight j" if "j \<le> n" for j
    using before that by (intro idle_iter_state) auto
  have "\<not> idle_ok clk in_flight w j \<and> \<not> idle_late clk d j" if "j < n" for j
    using before [rule_format, OF that] that
    by (auto simp: s idle_body_def idle_ok_def idle_late_def simp del: One_nat_def split: if_splits)
  moreover have "(idle_ok clk in_flight w n \<or> idle_late clk d n) \<and> (r \<longleftrightarrow> idle_ok clk in_flight w n)"
    using r by (auto simp: s idle_body_def idle_ok_def idle_late_def simp del: One_nat_def split: if_splits)
  ultimately show ?thesis
    using n loop by (intro exI [of _ n]) (auto simp: wait_for_network_idle_def)
qed

text \<open>
  C37. Waiting for network idle ends, and with the right result. When the clock runs (it does not go back and every sleep
  takes its 50 ms), the wait returns after at most one poll more than the deadline has periods: at the first poll that
  has seen no request in flight since the last busy poll for the idle window, which is success, or that is past the
  deadline, which is the error, success winning a tie.
\<close>
theorem network_idle_returns:
  assumes "sleeps 2 2 (50 * MILLI) clk"
  shows "\<exists>n \<le> d div (50 * MILLI) + 1.
    (idle_ok clk in_flight w n \<or> idle_late clk d n) \<and> (\<forall>j<n. \<not> idle_ok clk in_flight w j \<and> \<not> idle_late clk d j) \<and>
    wait_for_network_idle dur clk in_flight w d =
      Some (if idle_ok clk in_flight w n then None
            else Some (''network-idle window '' @ dur w @ '' not reached within '' @ dur d))"
  by (rule network_idle_end [OF assms])

theorem network_idle_returns_witness:
  "sleeps 2 2 (50 * MILLI) (\<lambda>n. n div 2 * (50 * MILLI)) \<and>
   (\<exists>r. wait_for_network_idle (\<lambda>_. []) (\<lambda>n. n div 2 * (50 * MILLI)) (\<lambda>i. if i < 3 then 1 else 0) (500 * MILLI) (30000 * MILLI) = Some r)"
proof -
  have "sleeps 2 2 (50 * MILLI) (\<lambda>n. n div 2 * (50 * MILLI))" by (auto simp: sleeps_def MILLI_def div_le_mono)
  with network_idle_returns [OF this] show ?thesis by blast
qed



text \<open>
  Idle is only sampled. Take a page on which a request is in flight at every instant but the multiples of 50 ms after
  the wait began, and polls at exactly these instants. The wait succeeds, for every idle window up to the deadline: no
  span of any length was free of requests, although the wait is for a window without any.
\<close>
theorem idle_only_sampled:
  assumes "w \<le> d" and "clk = (\<lambda>n. start + (n - 2) div 2 * (50 * MILLI))"
    and "busy = (\<lambda>t. if (t - start) mod (50 * MILLI) = 0 then 0 else Suc 0)"
  shows "wait_for_network_idle dur clk (\<lambda>i. busy (clk (2 * i + 2))) w d = Some None \<and>
    (\<forall>t. busy t = 0 \<longrightarrow> 50 * MILLI dvd t - start)"
proof -
  have fl: "(\<lambda>i. busy (clk (2 * i + 2))) = (\<lambda>_. 0)" by (simp add: assms(2,3))
  have lb: "last_busy clk (\<lambda>_. 0) n = start" for n by (induction n) (simp_all add: assms(2))
  have runs: "sleeps 2 2 (50 * MILLI) clk" by (auto simp: sleeps_def assms(2) intro: div_le_mono)
  obtain n where n: "idle_ok clk (\<lambda>_. 0) w n \<or> idle_late clk d n"
      and res: "wait_for_network_idle dur clk (\<lambda>_. 0) w d =
        Some (if idle_ok clk (\<lambda>_. 0) w n then None
              else Some (''network-idle window '' @ dur w @ '' not reached within '' @ dur d))"
    using network_idle_end [OF runs, of d "\<lambda>_. 0" w dur] by blast
  have "idle_ok clk (\<lambda>_. 0) w n"
  proof (rule ccontr)
    assume "\<not> idle_ok clk (\<lambda>_. 0) w n"
    then have "idle_late clk d n" "\<not> w \<le> clk (2 * n + 2) - start" using n by (auto simp: idle_ok_def lb)
    moreover have "clk (2 * n + 3) = clk (2 * n + 2)" "clk 0 = start" by (simp_all add: assms(2))
    ultimately show False using assms(1) by (simp add: idle_late_def)
  qed
  with res show ?thesis unfolding fl by (simp add: assms(3) dvd_eq_mod_eq_0)
qed

theorem idle_only_sampled_witness:
  "wait_for_network_idle (\<lambda>_. []) (\<lambda>n. 0 + (n - 2) div 2 * (50 * MILLI))
     (\<lambda>i. (\<lambda>t. if (t - 0) mod (50 * MILLI) = 0 then 0 else Suc 0) ((\<lambda>n. 0 + (n - 2) div 2 * (50 * MILLI)) (2 * i + 2)))
     (500 * MILLI) (30000 * MILLI) = Some None"
  using idle_only_sampled [of "500 * MILLI" "30000 * MILLI", OF _ refl refl, where start = 0 and dur = "\<lambda>_. []"]
  by (simp add: MILLI_def)

subsection \<open>The tabs of a context\<close>

record 'rx tab =
  tb_target :: string
  tb_pump :: "'rx pump"

text \<open>
  \<open>cx_targets\<close> are the targets the browser was asked to create and has not been asked, successfully, to close; it is
  what is open in the browser, whether or not the map of pages knows it.
\<close>

record 'rx tab_ctx =
  cx_pages :: "(string \<times> 'rx tab) list"
  cx_targets :: "string list"
  cx_calls :: "(string \<times> string) list"
  cx_stealth :: bool
  cx_forwarded :: "string list"
  cx_trace_driven :: "string list"

text \<open>
  The answers during one call, by the context string of the command; the events the pump handles before the wait
  subscribes and what it is fed afterwards; the session as the tool sees it.
\<close>

record 'rx tab_io =
  tio_lib :: "'rx net_lib"
  tio_dur :: "nat \<Rightarrow> string"
  tio_cdp :: "string \<Rightarrow> string + json"
  tio_seed :: bool
  tio_before :: "page_event list"
  tio_after :: feeds
  tio_current_session :: bool
  tio_tracing :: bool
  tio_clk :: "nat \<Rightarrow> nat"
  tio_in_flight :: "nat \<Rightarrow> nat"
  tio_selector :: "nat \<Rightarrow> selector_answer"

definition tab_id_of :: "string \<Rightarrow> string" where
  "tab_id_of target = ''t_'' @ take 8 target"

definition fed_events :: "feeds \<Rightarrow> page_event list" where
  "fed_events fs = List.map_filter (\<lambda>(t, f). case f of Fed ev \<Rightarrow> Some ev | FeedError _ \<Rightarrow> None) fs"

text \<open>The steps of \<^verbatim>\<open>Page::bootstrap\<close>: whether a failure is fatal, and the context of its error.\<close>

definition bootstrap_steps :: "'rx tab_io \<Rightarrow> (bool \<times> string) list" where
  "bootstrap_steps io =
     [(True, ''Page.enable''), (True, ''Network.enable''), (True, ''Runtime.enable''), (True, ''DOM.enable''),
      (True, ''Accessibility.enable''), (False, ''Page.setLifecycleEventsEnabled'')]
     @ (if Option.bind (nl_proxy (tio_lib io)) pc_auth \<noteq> None then [(True, ''Fetch.enable (proxy auth)'')] else [])
     @ [(True, ''install mutation observer (SPEC '' @ [CHR 0xA7] @ ''10 M2)'')]
     @ (if tio_seed io
        then [(True, ''Page.addScriptToEvaluateOnNewDocument (V-R1 sessionStorage seed)''), (False, ''Runtime.evaluate'')]
        else [])"

fun run_steps :: "'rx tab_io \<Rightarrow> (bool \<times> string) list \<Rightarrow> string option" where
  "run_steps io [] = None"
| "run_steps io ((fatal, context) # steps) =
     (case tio_cdp io context of
        Inl _ \<Rightarrow> if fatal then Some context else run_steps io steps
      | Inr _ \<Rightarrow> run_steps io steps)"

definition page_bootstrap :: "'rx tab_io \<Rightarrow> string \<Rightarrow> string + 'rx tab" where
  "page_bootstrap io target =
     (case run_steps io (bootstrap_steps io) of
        Some e \<Rightarrow> Inl e
      | None \<Rightarrow> Inr \<lparr> tb_target = target, tb_pump = pump_new target \<rparr>)"

definition pump_during :: "'rx tab_io \<Rightarrow> 'rx tab \<Rightarrow> 'rx tab" where
  "pump_during io tb =
     tb\<lparr> tb_pump := fold (event_pump (tio_lib io)) (tio_before io @ fed_events (tio_after io)) (tb_pump tb) \<rparr>"

definition inject_stealth :: "'rx tab_io \<Rightarrow> bool \<Rightarrow> string option" where
  "inject_stealth io stealth =
     (if stealth
      then case tio_cdp io ''Page.addScriptToEvaluateOnNewDocument (stealth)'' of
             Inl _ \<Rightarrow> Some ''Page.addScriptToEvaluateOnNewDocument (stealth)'' | Inr _ \<Rightarrow> None
      else None)"

definition open_wait :: "'rx tab_io \<Rightarrow> wait_until \<Rightarrow> string option" where
  "open_wait io until =
     (if until = WaitNone then None else wait_for_lifecycle (tio_dur io) until (30000 * MILLI) (tio_after io))"

text \<open>Opening a tab once its target exists: attach, bootstrap, stealth script, wait.\<close>

definition attach_tab :: "'rx tab_io \<Rightarrow> bool \<Rightarrow> wait_until \<Rightarrow> string \<Rightarrow> string + 'rx tab" where
  "attach_tab io stealth until target =
     (case tio_cdp io ''Target.attachToTarget'' of
        Inl _ \<Rightarrow> Inl ''Target.attachToTarget''
      | Inr v \<Rightarrow>
          (case as_str v of
             None \<Rightarrow> Inl (''Target.attachToTarget returned non-string sessionId: '' @ nl_print (tio_lib io) v)
           | Some sid \<Rightarrow>
               (case page_bootstrap io target of
                  Inl e \<Rightarrow> Inl e
                | Inr page \<Rightarrow>
                    (case inject_stealth io stealth of
                       Some e \<Rightarrow> Inl e
                     | None \<Rightarrow> (case open_wait io until of Some e \<Rightarrow> Inl e | None \<Rightarrow> Inr (pump_during io page))))))"

definition open_tab :: "'rx tab_io \<Rightarrow> string \<Rightarrow> wait_until \<Rightarrow> 'rx tab_ctx \<Rightarrow> (string + string) \<times> 'rx tab_ctx" where
  "open_tab io url until c =
     (case validate_navigable_url url of
        Some e \<Rightarrow> (Inl e, c)
      | None \<Rightarrow>
          let c = c\<lparr> cx_calls := cx_calls c @ [(''Target.createTarget'', url)] \<rparr>
          in case tio_cdp io ''Target.createTarget'' of
               Inl _ \<Rightarrow> (Inl ''Target.createTarget'', c)
             | Inr v \<Rightarrow>
                 (case as_str v of
                    None \<Rightarrow> (Inl (''Target.createTarget returned non-string targetId: '' @ nl_print (tio_lib io) v), c)
                  | Some target \<Rightarrow>
                      let c = c\<lparr> cx_targets := cx_targets c @ [target] \<rparr>
                      in case attach_tab io (cx_stealth c) until target of
                           Inl e \<Rightarrow> (Inl e, c)
                         | Inr page \<Rightarrow>
                             (Inr (tab_id_of target), c\<lparr> cx_pages := AList.update (tab_id_of target) page (cx_pages c) \<rparr>)))"

definition refresh_target_info :: "'rx tab_io \<Rightarrow> 'rx tab \<Rightarrow> 'rx tab" where
  "refresh_target_info io tb =
     (case tio_cdp io ''Target.getTargetInfo'' of
        Inl _ \<Rightarrow> tb
      | Inr info \<Rightarrow>
          let h = tb_pump tb; p = pu_page h;
              p = (case get_str ''url'' info of Some u \<Rightarrow> p\<lparr> ps_url := u \<rparr> | None \<Rightarrow> p);
              p = (case get_str ''title'' info of Some t \<Rightarrow> p\<lparr> ps_title := t \<rparr> | None \<Rightarrow> p)
          in tb\<lparr> tb_pump := h\<lparr> pu_page := p \<rparr> \<rparr>)"

text \<open>The error of closing a target is only logged.\<close>

definition close_tab :: "'rx tab_io \<Rightarrow> string \<Rightarrow> 'rx tab_ctx \<Rightarrow> (string + unit) \<times> 'rx tab_ctx" where
  "close_tab io tab c =
     (case map_of (cx_pages c) tab of
        None \<Rightarrow> (Inl ''tab not found'', c)
      | Some page \<Rightarrow>
          let c = c\<lparr> cx_pages := AList.delete tab (cx_pages c), cx_calls := cx_calls c @ [(''Target.closeTarget'', tb_target page)] \<rparr>
          in (Inr (),
              case tio_cdp io ''Target.closeTarget'' of
                Inl _ \<Rightarrow> c | Inr _ \<Rightarrow> c\<lparr> cx_targets := removeAll (tb_target page) (cx_targets c) \<rparr>))"

text \<open>The error, the page afterwards (its pump runs in any case) and the URLs sent to the browser.\<close>

definition page_navigate :: "'rx tab_io \<Rightarrow> string \<Rightarrow> wait_until \<Rightarrow> 'rx tab \<Rightarrow> string option \<times> 'rx tab \<times> string list" where
  "page_navigate io url until tb =
     (case validate_navigable_url url of
        Some e \<Rightarrow> (Some e, tb, [])
      | None \<Rightarrow>
          let tb = pump_during io tb
          in case tio_cdp io ''Page.navigate'' of
               Inl _ \<Rightarrow> (Some ''Page.navigate'', tb, [url])
             | Inr _ \<Rightarrow>
                 (case open_wait io until of
                    Some e \<Rightarrow> (Some e, tb, [url]) | None \<Rightarrow> (None, refresh_target_info io tb, [url])))"

text \<open>
  After a restart of the browser: \<open>ios\<close> are the answers for each target found. The errors of a target only skip it; a
  failure to install the stealth script again is only logged and has no branch.
\<close>

definition reattach_one :: "(string \<Rightarrow> 'rx tab_io) \<Rightarrow> json \<Rightarrow> 'rx tab option" where
  "reattach_one ios info =
     (if str_field ''type'' [] info \<noteq> ''page'' then None
      else
        case get_str ''targetId'' info of
          None \<Rightarrow> None
        | Some target \<Rightarrow>
            (case tio_cdp (ios target) ''Target.attachToTarget'' of
               Inr (JString sid) \<Rightarrow>
                 (case page_bootstrap (ios target) target of
                    Inl _ \<Rightarrow> None | Inr page \<Rightarrow> Some (refresh_target_info (ios target) page))
             | _ \<Rightarrow> None))"

definition reattach_existing_targets ::
  "string + json \<Rightarrow> (string \<Rightarrow> 'rx tab_io) \<Rightarrow> 'rx tab_ctx \<Rightarrow> (string + string list) \<times> 'rx tab_ctx" where
  "reattach_existing_targets answer ios c =
     (case answer of
        Inl _ \<Rightarrow> (Inl ''Target.getTargets'', c)
      | Inr infos \<Rightarrow>
          let restored = List.map_filter (reattach_one ios) (case as_array infos of Some xs \<Rightarrow> xs | None \<Rightarrow> [])
          in (Inr (map tb_target restored),
              c\<lparr> cx_pages := fold (\<lambda>p. AList.update (tab_id_of (tb_target p)) p) restored [] \<rparr>))"

subsection \<open>The tools\<close>

abbreviation tab_url :: "'rx tab \<Rightarrow> string" where "tab_url tb \<equiv> ps_url (pu_page (tb_pump tb))"

abbreviation tab_title :: "'rx tab \<Rightarrow> string" where "tab_title tb \<equiv> ps_title (pu_page (tb_pump tb))"

type_synonym 'rx tab_tool = "'rx tab_ctx \<Rightarrow> (router_error + json) \<times> 'rx tab_ctx"

definition str_param :: "json \<Rightarrow> string \<Rightarrow> (string \<Rightarrow> 'rx tab_tool) \<Rightarrow> 'rx tab_tool" where
  "str_param params k f c = (case required_str params k of Inl e \<Rightarrow> (Inl e, c) | Inr v \<Rightarrow> f v c)"

definition tab_open :: "'rx tab_io \<Rightarrow> json \<Rightarrow> 'rx tab_tool" where
  "tab_open io params =
     str_param params ''url'' (\<lambda>url c.
       case validate_navigable_url url of
         Some e \<Rightarrow> (Inl (nav_error (''tab.open: '' @ e)), c)
       | None \<Rightarrow>
           (case parse_wait_until (jget ''wait_until'' params) of
              Inl e \<Rightarrow> (Inl e, c)
            | Inr until \<Rightarrow>
                (case open_tab io url until c of
                   (Inl e, c) \<Rightarrow> (Inl (nav_error (''tab.open: '' @ e)), c)
                 | (Inr tab, c) \<Rightarrow>
                     (case map_of (cx_pages c) tab of
                        None \<Rightarrow> (Inl tab_not_found, c)
                      | Some page \<Rightarrow>
                          let page = refresh_target_info io page;
                              c = c\<lparr> cx_pages := AList.update tab page (cx_pages c) \<rparr>;
                              c = (if tio_current_session io then c\<lparr> cx_forwarded := cx_forwarded c @ [tab] \<rparr> else c);
                              c = (if tio_current_session io \<and> tio_tracing io
                                   then c\<lparr> cx_trace_driven := cx_trace_driven c @ [tab] \<rparr> else c)
                          in (Inr (JObject [(''tab_id'', JString tab), (''target_id'', JString (tb_target page)),
                                 (''frame_id'', JString []), (''url'', JString (tab_url page)), (''title'', JString (tab_title page))]),
                              c)))))"

definition tab_list :: "'rx tab_tool" where
  "tab_list c =
     (Inr (JObject [(''tabs'', JArray (map (\<lambda>(tab, p). JObject [(''tab_id'', JString tab), (''url'', JString (tab_url p)),
        (''title'', JString (tab_title p)), (''active'', JBool False)]) (cx_pages c)))]), c)"

definition tab_close :: "'rx tab_io \<Rightarrow> json \<Rightarrow> 'rx tab_tool" where
  "tab_close io params =
     str_param params ''tab_id'' (\<lambda>tab c.
       case close_tab io tab c of (Inl _, c) \<Rightarrow> (Inl tab_not_found, c) | (Inr _, c) \<Rightarrow> (Inr ok_true, c))"

definition tab_focus :: "'rx tab_io \<Rightarrow> json \<Rightarrow> 'rx tab_tool" where
  "tab_focus io params =
     str_param params ''tab_id'' (\<lambda>tab c.
       if map_of (cx_pages c) tab = None then (Inl tab_not_found, c)
       else ((case tio_cdp io ''Page.bringToFront'' of
                Inl _ \<Rightarrow> Inl (internal ''Page.bringToFront: Page.bringToFront'') | Inr _ \<Rightarrow> Inr ok_true), c))"

definition tab_navigate :: "'rx tab_io \<Rightarrow> json \<Rightarrow> 'rx tab_tool" where
  "tab_navigate io params =
     str_param params ''tab_id'' (\<lambda>tab. str_param params ''url'' (\<lambda>url c.
       case validate_navigable_url url of
         Some e \<Rightarrow> (Inl (nav_error (''tab.navigate: '' @ e)), c)
       | None \<Rightarrow>
           (case parse_wait_until (jget ''wait_until'' params) of
              Inl e \<Rightarrow> (Inl e, c)
            | Inr until \<Rightarrow>
                (case map_of (cx_pages c) tab of
                   None \<Rightarrow> (Inl tab_not_found, c)
                 | Some page \<Rightarrow>
                     (case page_navigate io url until page of (err, page, urls) \<Rightarrow>
                        let c = c\<lparr> cx_calls := cx_calls c @ map (\<lambda>u. (''Page.navigate'', u)) urls,
                                  cx_pages := AList.update tab page (cx_pages c) \<rparr>
                        in case err of
                             Some e \<Rightarrow> (Inl (nav_error (''tab.navigate: '' @ e)), c)
                           | None \<Rightarrow>
                               (Inr (JObject [(''frame_id'', JString []), (''url'', JString (tab_url page)),
                                  (''title'', JString (tab_title page))]), c))))))"

text \<open>A wait that never returns makes the tool never return.\<close>

definition tab_wait_error :: "'rx tab_io \<Rightarrow> json \<Rightarrow> nat \<Rightarrow> 'rx tab \<Rightarrow> (router_error + string option) option" where
  "tab_wait_error io predicate deadline page =
     (case as_str predicate of
        Some s \<Rightarrow>
          if s = ''load'' then Some (Inr (wait_for_lifecycle (tio_dur io) WaitLoad deadline (tio_after io)))
          else if s = ''networkidle''
          then map_option Inr (wait_for_network_idle (tio_dur io) (tio_clk io) (tio_in_flight io) (500 * MILLI) deadline)
          else Some (Inl (invalid_params (''unknown predicate: '' @ s)))
      | None \<Rightarrow>
          (case get_str ''selector'' predicate of
             Some sel \<Rightarrow> map_option Inr (wait_for_selector (tio_dur io) (tio_clk io) (tio_selector io) sel deadline)
           | None \<Rightarrow>
               (case get_str ''url_regex'' predicate of
                  Some re \<Rightarrow>
                    Some (Inr (case wait_for_url (tio_lib io) (tio_dur io) re deadline (tab_url page) (tio_after io) of
                       Inl e \<Rightarrow> Some e | Inr _ \<Rightarrow> None))
                | None \<Rightarrow> Some (Inl (invalid_params ''malformed predicate'')))))"

definition tab_wait :: "'rx tab_io \<Rightarrow> u64 \<Rightarrow> json \<Rightarrow> 'rx tab_ctx \<Rightarrow> (router_error + json) option" where
  "tab_wait io elapsed_ms params c =
     (case required_str params ''tab_id'' of
        Inl e \<Rightarrow> Some (Inl e)
      | Inr tab \<Rightarrow>
          let timeout_ms = (case get_u64 ''timeout_ms'' params of Some n \<Rightarrow> n | None \<Rightarrow> 30000)
          in case map_of (cx_pages c) tab of
               None \<Rightarrow> Some (Inl tab_not_found)
             | Some page \<Rightarrow>
                 (case jget ''predicate'' params of
                    None \<Rightarrow> Some (Inl (invalid_params ''missing predicate''))
                  | Some predicate \<Rightarrow>
                      map_option (\<lambda>r. case r of
                          Inl e \<Rightarrow> Inl e
                        | Inr (Some e) \<Rightarrow> Inl (timeout_error e)
                        | Inr None \<Rightarrow> Inr (JObject [(''ok'', JBool True), (''elapsed_ms'', JPos elapsed_ms)]))
                        (tab_wait_error io predicate (unat timeout_ms * MILLI) page)))"

subsection \<open>Which URLs are opened\<close>

definition web_url :: "string \<Rightarrow> bool" where
  "web_url url \<longleftrightarrow> url = ''about:blank'' \<or> to_ascii_lowercase (take 7 url) = ''http://'' \<or>
     to_ascii_lowercase (take 8 url) = ''https://''"

lemma ascii_lower_fixed:
  assumes "\<not> (97 \<le> (of_char d :: nat) \<and> of_char d \<le> (122 :: nat))"
  shows "ascii_lower c = d \<Longrightarrow> c = d"
  using assms by (auto simp: ascii_lower_def Let_def split: if_splits)

lemma find_char_first:
  assumes "c \<notin> set s"
  shows "find_char c (s @ c # rest) = Some (length s)"
proof -
  have "takeWhile (\<lambda>x. x \<noteq> c) (s @ c # rest) = s" using assms by (subst takeWhile_append2) auto
  then show ?thesis by (simp add: find_char_def Let_def)
qed

lemma find_char_SomeD: "find_char c s = Some i \<Longrightarrow> s = take i s @ c # drop (Suc i) s"
proof -
  assume a: "find_char c s = Some i"
  then have i: "i = length (takeWhile (\<lambda>x. x \<noteq> c) s)" "i < length s" by (auto simp: find_char_def Let_def split: if_splits)
  then have "s ! i = c" using nth_length_takeWhile [of "\<lambda>x. x \<noteq> c" s] by simp
  with i(2) show ?thesis by (metis id_take_nth_drop)
qed

lemma lower_colon: "to_ascii_lowercase w = v \<Longrightarrow> list_all (\<lambda>d. (97 :: nat) \<le> of_char d \<and> of_char d \<le> (122 :: nat)) v \<Longrightarrow>
    CHR '':'' \<notin> set w"
  by (force simp: to_ascii_lowercase_def list_all_iff ascii_lower_def)

lemma scheme_split:
  assumes "to_ascii_lowercase (take (length v + 3) url) = v @ ''://''"
    and v: "list_all (\<lambda>d. (97 :: nat) \<le> of_char d \<and> of_char d \<le> (122 :: nat)) v"
  shows "\<exists>w rest. url = w @ CHR '':'' # ''//'' @ rest \<and> to_ascii_lowercase w = v \<and> CHR '':'' \<notin> set w"
proof -
  let ?w = "take (length v) url"
  have l: "length v + 3 \<le> length url"
    using arg_cong [OF assms(1), of length] by (simp add: to_ascii_lowercase_def)
  have s: "take (length v + 3) url = ?w @ take 3 (drop (length v) url)" by (simp add: take_add)
  have "to_ascii_lowercase ?w = v \<and> to_ascii_lowercase (take 3 (drop (length v) url)) = ''://''"
    using assms(1) l unfolding s by (simp add: to_ascii_lowercase_def)
  then have w: "to_ascii_lowercase ?w = v" and t: "map ascii_lower (take 3 (drop (length v) url)) = ''://''"
    by (simp_all add: to_ascii_lowercase_def)
  have "take 3 (drop (length v) url) = ''://''"
    using t ascii_lower_fixed [of "CHR '':''"] ascii_lower_fixed [of "CHR ''/''"] by (auto simp: map_eq_Cons_conv)
  then have "url = ?w @ ''://'' @ drop (length v + 3) url"
    by (metis append.assoc append_take_drop_id s)
  with w lower_colon [OF w v] show ?thesis by (intro exI [of _ ?w] exI [of _ "drop (length v + 3) url"]) simp
qed

lemma validate_scheme:
  assumes "CHR '':'' \<notin> set w" "to_ascii_lowercase w = ''http'' \<or> to_ascii_lowercase w = ''https''"
  shows "validate_navigable_url (w @ CHR '':'' # ''//'' @ rest) = None"
  using assms(2) find_char_first [OF assms(1), of "''//'' @ rest"]
  by (auto simp: validate_navigable_url_def split_once_def Let_def)

lemma validate_exact: "validate_navigable_url url = None \<longleftrightarrow> web_url url"
proof
  assume a: "web_url url"
  have "validate_navigable_url ''about:blank'' = None" by (simp add: validate_navigable_url_def)
  moreover have "validate_navigable_url url = None" if "to_ascii_lowercase (take 7 url) = ''http://''"
    using scheme_split [of "''http''" url] that validate_scheme by (auto simp: numeral_eq_Suc)
  moreover have "validate_navigable_url url = None" if "to_ascii_lowercase (take 8 url) = ''https://''"
    using scheme_split [of "''https''" url] that validate_scheme by (auto simp: numeral_eq_Suc)
  ultimately show "validate_navigable_url url = None" using a by (auto simp: web_url_def)
next
  assume a: "validate_navigable_url url = None"
  show "web_url url"
  proof (cases "url = ''about:blank''")
    case False
    then obtain i where i: "find_char CHR '':'' url = Some i"
      using a by (auto simp: validate_navigable_url_def split_once_def split: option.splits)
    obtain w r where u: "url = w @ CHR '':'' # r" and s: "split_once CHR '':'' url = Some (w, r)"
      using find_char_SomeD [OF i] by (auto simp: split_once_def i)
    have w: "to_ascii_lowercase w = ''http'' \<or> to_ascii_lowercase w = ''https''" and r: "take 2 r = ''//''"
      using a False by (auto simp: validate_navigable_url_def s Let_def split: if_splits)
    have low: "to_ascii_lowercase (v @ ''://'') = to_ascii_lowercase v @ ''://''" for v
      by (simp add: to_ascii_lowercase_def ascii_lower_def)
    have "take (length w + 3) url = w @ CHR '':'' # take 2 r" by (simp add: u)
    then have t: "to_ascii_lowercase (take (length w + 3) url) = to_ascii_lowercase w @ ''://''"
      using low [of w] by (simp add: r)
    have "length w = length (to_ascii_lowercase w)" by (simp add: to_ascii_lowercase_def)
    with w t show ?thesis by (auto simp: web_url_def)
  qed (simp add: web_url_def)
qed

subsection \<open>Runs of the tools\<close>

definition tab_tools :: "'rx tab_io \<Rightarrow> json \<Rightarrow> (string \<times> 'rx tab_tool) list" where
  "tab_tools io params =
     [(''tab.open'', tab_open io params), (''tab.list'', tab_list), (''tab.close'', tab_close io params),
      (''tab.focus'', tab_focus io params), (''tab.navigate'', tab_navigate io params)]"

type_synonym 'rx tab_request = "string \<times> 'rx tab_io \<times> json"

definition tab_step :: "'rx tab_request \<Rightarrow> 'rx tab_ctx \<Rightarrow> 'rx tab_ctx" where
  "tab_step req c =
     (case req of (meth, io, params) \<Rightarrow>
        case map_of (tab_tools io params) meth of Some tool \<Rightarrow> snd (tool c) | None \<Rightarrow> c)"

text \<open>
  The URLs sent to the browser are web pages, the map of pages is keyed by the tab of its target, and the target of
  every page is open.
\<close>

definition tabs_inv :: "'rx tab_ctx \<Rightarrow> bool" where
  "tabs_inv c \<longleftrightarrow>
     (\<forall>(m, u)\<in>set (cx_calls c). m \<in> {''Target.createTarget'', ''Page.navigate''} \<longrightarrow> web_url u) \<and>
     keyed_by (\<lambda>p. tab_id_of (tb_target p)) (cx_pages c) \<and>
     (\<forall>p\<in>snd ` set (cx_pages c). tb_target p \<in> set (cx_targets c))"

lemma refresh_target [simp]: "tb_target (refresh_target_info io tb) = tb_target tb"
  by (simp add: refresh_target_info_def Let_def split: sum.split option.split)

lemma pump_during_target [simp]: "tb_target (pump_during io tb) = tb_target tb"
  by (simp add: pump_during_def)

lemma page_navigate_frame:
  "page_navigate io url until tb = (err, tb', urls) \<Longrightarrow> tb_target tb' = tb_target tb \<and> (\<forall>u\<in>set urls. web_url u)"
  by (auto simp: page_navigate_def Let_def simp flip: validate_exact split: option.splits sum.splits)

lemma page_bootstrap_target: "page_bootstrap io t = Inr tb \<Longrightarrow> tb_target tb = t"
  by (auto simp: page_bootstrap_def split: option.splits)

lemma attach_tab_target: "attach_tab io stealth until t = Inr tb \<Longrightarrow> tb_target tb = t"
  by (auto simp: attach_tab_def dest: page_bootstrap_target split: option.splits sum.splits)

text \<open>The outcomes of opening a tab.\<close>

lemma open_tab_cases:
  assumes "open_tab io url until c = (r, c')"
  obtains (rejected) "c' = c" "\<exists>e. r = Inl e"
  | (failed) "web_url url" "c' = c\<lparr> cx_calls := cx_calls c @ [(''Target.createTarget'', url)] \<rparr>" "\<exists>e. r = Inl e"
  | (leaked) t where "web_url url" "tio_cdp io ''Target.createTarget'' = Inr (JString t)" "\<exists>e. r = Inl e"
      "c' = c\<lparr> cx_calls := cx_calls c @ [(''Target.createTarget'', url)], cx_targets := cx_targets c @ [t] \<rparr>"
  | (opened) t tb where "web_url url" "tio_cdp io ''Target.createTarget'' = Inr (JString t)" "r = Inr (tab_id_of t)" "tb_target tb = t"
      "c' = c\<lparr> cx_calls := cx_calls c @ [(''Target.createTarget'', url)], cx_targets := cx_targets c @ [t],
              cx_pages := AList.update (tab_id_of t) tb (cx_pages c) \<rparr>"
  using assms attach_tab_target
  unfolding open_tab_def Let_def validate_exact [symmetric]
  by (fastforce split: option.splits sum.splits)

lemma update_in:
  assumes "p \<in> snd ` set (AList.update k v m)"
  shows "p = v \<or> p \<in> snd ` set m"
  using assms by (auto dest!: set_alist_update)

lemma delete_in_pair: "p \<in> snd ` set (AList.delete k m) \<Longrightarrow> \<exists>l. (l, p) \<in> set m \<and> l \<noteq> k"
  by (induction m) (auto split: if_splits)

lemma delete_in: "p \<in> snd ` set (AList.delete k m) \<Longrightarrow> p \<in> snd ` set m"
  using delete_in_pair by force

lemma map_of_in: "map_of m k = Some v \<Longrightarrow> v \<in> snd ` set m"
  by (force dest: map_of_SomeD)

lemma tabs_inv_open:
  assumes "tabs_inv c" "open_tab io url until c = (r, c')"
  shows "tabs_inv c'"
  using assms(2)
proof (cases rule: open_tab_cases)
  case (opened t tb)
  then show ?thesis
    using assms(1) unfolding tabs_inv_def by (auto intro!: keyed_by_update dest!: set_alist_update)
qed (use assms(1) in \<open>auto simp: tabs_inv_def\<close>)

lemma tabs_inv_put:
  assumes "tabs_inv c" "map_of (cx_pages c) tab = Some p" "tb_target p' = tb_target p"
  shows "tabs_inv (c\<lparr> cx_pages := AList.update tab p' (cx_pages c) \<rparr>)"
  using assms map_of_in [OF assms(2)] keyed_by_map_of [of _ "cx_pages c" tab p] unfolding tabs_inv_def
  by (auto intro!: keyed_by_update dest!: set_alist_update)

lemma tabs_inv_frame:
  "tabs_inv (c\<lparr> cx_forwarded := x \<rparr>) = tabs_inv c" "tabs_inv (c\<lparr> cx_trace_driven := y \<rparr>) = tabs_inv c"
  by (simp_all add: tabs_inv_def)

lemma tabs_inv_tab_open: "tabs_inv c \<Longrightarrow> tabs_inv (snd (tab_open io params c))"
  by (auto simp: tab_open_def str_param_def Let_def tabs_inv_frame dest: tabs_inv_open
      intro!: tabs_inv_put split: sum.splits option.splits prod.splits)

lemma tabs_inv_tab_close: "tabs_inv c \<Longrightarrow> tabs_inv (snd (tab_close io params c))"
proof -
  assume c: "tabs_inv c"
  have "tabs_inv (snd (close_tab io tab c))" for tab
  proof (cases "map_of (cx_pages c) tab")
    case None
    then show ?thesis using c by (simp add: close_tab_def)
  next
    case (Some p)
    have k: "keyed_by (\<lambda>p. tab_id_of (tb_target p)) (cx_pages c)" using c by (simp add: tabs_inv_def)
    have other: "tb_target q \<noteq> tb_target p" if q: "q \<in> snd ` set (AList.delete tab (cx_pages c))" for q
    proof -
      obtain l where l: "(l, q) \<in> set (cx_pages c)" "l \<noteq> tab" using delete_in_pair [OF q] by blast
      then have "l = tab_id_of (tb_target q)" "tab = tab_id_of (tb_target p)"
        using k keyed_by_map_of [OF k Some] by (auto simp: keyed_by_def list_all_iff)
      with l(2) show ?thesis by auto
    qed
    have k': "keyed_by (\<lambda>p. tab_id_of (tb_target p)) (AList.delete tab (cx_pages c))" by (rule keyed_by_delete [OF k])
    have t': "tb_target q \<in> set (cx_targets c)" if "q \<in> snd ` set (AList.delete tab (cx_pages c))" for q
      using c delete_in [OF that] unfolding tabs_inv_def by blast
    have calls: "\<forall>(m, u)\<in>set (cx_calls c). m \<in> {''Target.createTarget'', ''Page.navigate''} \<longrightarrow> web_url u"
      using c by (simp add: tabs_inv_def)
    show ?thesis
      unfolding close_tab_def Some option.case Let_def snd_conv
      by (cases "tio_cdp io ''Target.closeTarget''") (use k' t' calls other in \<open>simp_all add: tabs_inv_def ball_Un\<close>)
  qed
  then have "tabs_inv c'" if "close_tab io tab c = (r, c')" for tab r c'
    using that by (metis snd_conv)
  then show ?thesis
    using c by (auto simp: tab_close_def str_param_def split: sum.splits prod.splits)
qed

lemma tabs_inv_tab_navigate: "tabs_inv c \<Longrightarrow> tabs_inv (snd (tab_navigate io params c))"
proof -
  assume c: "tabs_inv c"
  have "tabs_inv (c\<lparr> cx_calls := cx_calls c @ map (\<lambda>u. (''Page.navigate'', u)) urls,
      cx_pages := AList.update tab p' (cx_pages c) \<rparr>)"
    if "map_of (cx_pages c) tab = Some p" "page_navigate io url until p = (err, p', urls)" for tab p p' urls url until err
  proof -
    note f = page_navigate_frame [OF that(2)]
    have "tabs_inv (c\<lparr> cx_pages := AList.update tab p' (cx_pages c) \<rparr>)" by (rule tabs_inv_put [OF c that(1)]) (simp add: f)
    then show ?thesis using f by (auto simp: tabs_inv_def)
  qed
  then show ?thesis
    using c by (auto simp: tab_navigate_def str_param_def Let_def split: sum.splits option.splits prod.splits)
qed

interpretation tab_machine: invariant_machine tab_step tabs_inv
proof
  fix c :: "'a tab_ctx" and req :: "'a tab_request"
  assume c: "tabs_inv c"
  obtain meth io params where req: "req = (meth, io, params)" by (cases req)
  have l: "tabs_inv (snd (tab_list c))" "tabs_inv (snd (tab_focus io params c))"
    using c by (auto simp: tab_list_def tab_focus_def str_param_def split: sum.split)
  show "tabs_inv (tab_step req c)"
    using c l tabs_inv_tab_open [OF c] tabs_inv_tab_close [OF c] tabs_inv_tab_navigate [OF c]
    by (auto simp: tab_step_def req tab_tools_def)
qed

definition ctx_new :: "bool \<Rightarrow> 'rx tab_ctx" where
  "ctx_new stealth = \<lparr> cx_pages = [], cx_targets = [], cx_calls = [], cx_stealth = stealth, cx_forwarded = [], cx_trace_driven = [] \<rparr>"

text \<open>
  C39. Tabs only ever show the web. Whatever requests the tab tools handle and whatever the browser answers, every URL
  they ask the browser to open or to navigate to is \<open>about:blank\<close> or begins with \<open>http://\<close> or \<open>https://\<close> in any case of
  letters; the page found under a tab is the one of that tab, and its target is one that was opened and not closed.
\<close>
theorem tabs_web_only:
  "let c = fold tab_step reqs (ctx_new stealth)
   in (\<forall>m u. (m, u) \<in> set (cx_calls c) \<and> m \<in> {''Target.createTarget'', ''Page.navigate''} \<longrightarrow>
         u = ''about:blank'' \<or> to_ascii_lowercase (take 7 u) = ''http://'' \<or> to_ascii_lowercase (take 8 u) = ''https://'') \<and>
      (\<forall>tab p. map_of (cx_pages c) tab = Some p \<longrightarrow> tab = tab_id_of (tb_target p) \<and> tb_target p \<in> set (cx_targets c))"
proof -
  let ?c = "fold tab_step reqs (ctx_new stealth)"
  have "tabs_inv (ctx_new stealth)" by (simp add: tabs_inv_def ctx_new_def)
  then have "tabs_inv ?c" by (rule tab_machine.run_inv)
  then have u: "\<And>m u. (m, u) \<in> set (cx_calls ?c) \<Longrightarrow> m \<in> {''Target.createTarget'', ''Page.navigate''} \<Longrightarrow> web_url u"
      and k: "keyed_by (\<lambda>p. tab_id_of (tb_target p)) (cx_pages ?c)"
      and t: "\<And>p. p \<in> snd ` set (cx_pages ?c) \<Longrightarrow> tb_target p \<in> set (cx_targets ?c)"
    unfolding tabs_inv_def by blast+
  show ?thesis
    unfolding Let_def
  proof (intro conjI allI impI)
    fix m u
    assume "(m, u) \<in> set (cx_calls ?c) \<and> m \<in> {''Target.createTarget'', ''Page.navigate''}"
    then show "u = ''about:blank'' \<or> to_ascii_lowercase (take 7 u) = ''http://'' \<or> to_ascii_lowercase (take 8 u) = ''https://''"
      using u [unfolded web_url_def] by blast
  next
    fix tab p
    assume p: "map_of (cx_pages ?c) tab = Some p"
    show "tab = tab_id_of (tb_target p)" using keyed_by_map_of [OF k p] by simp
    show "tb_target p \<in> set (cx_targets ?c)" by (rule t [OF map_of_in [OF p]])
  qed
qed

definition tab_sample_io :: "string \<Rightarrow> feeds \<Rightarrow> string tab_io" where
  "tab_sample_io target fs = \<lparr> tio_lib = net_sample_lib, tio_dur = (\<lambda>_. ''30s''),
     tio_cdp = (\<lambda>m. if m = ''Target.createTarget'' then Inr (JString target)
                    else if m = ''Target.attachToTarget'' then Inr (JString ''s'')
                    else Inr (JObject [(''url'', JString ''https://a/''), (''errorText'', JString ''net::ERR_FAILED'')])),
     tio_seed = False, tio_before = [LifecycleEvent JNull ''load'' JNull], tio_after = fs, tio_current_session = True,
     tio_tracing = False, tio_clk = (\<lambda>n. n), tio_in_flight = (\<lambda>_. 0), tio_selector = (\<lambda>_. SelectorError) \<rparr>"

lemma sample_bootstrap:
  "page_bootstrap (tab_sample_io t fs) t = Inr \<lparr> tb_target = t, tb_pump = pump_new t \<rparr>"
  by (simp add: page_bootstrap_def bootstrap_steps_def tab_sample_io_def net_sample_lib_def)

lemma sample_open:
  "tab_open (tab_sample_io t []) (JObject [(''url'', JString ''https://a/'')]) (ctx_new False) =
     (Inr (JObject [(''tab_id'', JString (tab_id_of t)), (''target_id'', JString t), (''frame_id'', JString []),
        (''url'', JString ''https://a/''), (''title'', JString [])]),
      \<lparr> cx_pages = [(tab_id_of t, refresh_target_info (tab_sample_io t []) (pump_during (tab_sample_io t []) \<lparr> tb_target = t, tb_pump = pump_new t \<rparr>))],
        cx_targets = [t], cx_calls = [(''Target.createTarget'', ''https://a/'')], cx_stealth = False,
        cx_forwarded = [tab_id_of t], cx_trace_driven = [] \<rparr>)"
proof -
  have "web_url ''https://a/''" by (simp add: web_url_def to_ascii_lowercase_def ascii_lower_def)
  then have v: "validate_navigable_url ''https://a/'' = None" by (simp only: validate_exact)
  have a: "attach_tab (tab_sample_io t []) False WaitNone t =
      Inr (pump_during (tab_sample_io t []) \<lparr> tb_target = t, tb_pump = pump_new t \<rparr>)"
  proof -
    have "tio_cdp (tab_sample_io t []) ''Target.attachToTarget'' = Inr (JString ''s'')" by (simp add: tab_sample_io_def)
    then show ?thesis
      using sample_bootstrap [of t "[]"] by (simp add: attach_tab_def inject_stealth_def open_wait_def)
  qed
  have c: "tio_cdp (tab_sample_io t []) ''Target.createTarget'' = Inr (JString t)"
      "tio_current_session (tab_sample_io t [])" "\<not> tio_tracing (tab_sample_io t [])"
    by (simp_all add: tab_sample_io_def)
  have i: "tab_url (refresh_target_info (tab_sample_io t []) tb) = ''https://a/''"
      "tab_title (refresh_target_info (tab_sample_io t []) tb) = tab_title tb" for tb
    by (simp_all add: refresh_target_info_def tab_sample_io_def Let_def get_str_def)
  have t: "tab_title (pump_during (tab_sample_io t []) \<lparr> tb_target = t, tb_pump = pump_new t \<rparr>) = []"
    by (simp add: pump_during_def tab_sample_io_def fed_events_def List.map_filter_def pump_lifecycle_def pump_new_def page_new_def)
  show ?thesis
    by (simp add: tab_open_def str_param_def required_str_def need_def get_str_def v parse_wait_until_def open_tab_def c
        ctx_new_def a Let_def i t)
qed

theorem tabs_web_only_witness:
  "let c = fold tab_step [(''tab.open'', tab_sample_io ''T1'' [], JObject [(''url'', JString ''https://a/'')])] (ctx_new False)
   in map fst (cx_pages c) = [''t_T1''] \<and> cx_calls c = [(''Target.createTarget'', ''https://a/'')] \<and> ''T1'' \<in> set (cx_targets c)"
proof -
  let ?c = "fold tab_step [(''tab.open'', tab_sample_io ''T1'' [], JObject [(''url'', JString ''https://a/'')])] (ctx_new False)"
  have c: "?c = snd (tab_open (tab_sample_io ''T1'' []) (JObject [(''url'', JString ''https://a/'')]) (ctx_new False))"
    by (simp add: tab_step_def tab_tools_def)
  obtain p where p: "map_of (cx_pages ?c) ''t_T1'' = Some p" "tb_target p = ''T1''"
    unfolding c sample_open by (simp add: tab_id_of_def)
  have "tb_target p \<in> set (cx_targets ?c)"
    using tabs_web_only [of "[(''tab.open'', tab_sample_io ''T1'' [], JObject [(''url'', JString ''https://a/'')])]" False] p(1)
    unfolding Let_def by blast
  then show ?thesis using p(2) unfolding c sample_open by (simp add: tab_id_of_def)
qed

subsection \<open>Opening a tab that loads too early\<close>

definition leaked_target :: "string \<Rightarrow> 'rx tab_ctx \<Rightarrow> bool" where
  "leaked_target t c \<longleftrightarrow> t \<in> set (cx_targets c) \<and> (\<forall>p\<in>snd ` set (cx_pages c). tb_target p \<noteq> t)"

definition creates :: "'rx tab_io \<Rightarrow> string \<Rightarrow> bool" where
  "creates io t \<longleftrightarrow> tio_cdp io ''Target.createTarget'' = Inr (JString t)"

lemma leaked_open:
  assumes "leaked_target t c" "\<not> creates io t" "open_tab io url until c = (r, c')"
  shows "leaked_target t c'"
  using assms(3)
proof (cases rule: open_tab_cases)
  case (opened t' tb)
  then show ?thesis using assms(1,2) by (auto simp: leaked_target_def creates_def dest!: set_alist_update)
qed (use assms(1) in \<open>auto simp: leaked_target_def\<close>)

lemma leaked_put:
  assumes "leaked_target t c" "map_of (cx_pages c) tab = Some p" "tb_target p' = tb_target p"
  shows "leaked_target t (c\<lparr> cx_pages := AList.update tab p' (cx_pages c) \<rparr>)"
  using assms map_of_in [OF assms(2)] by (auto simp: leaked_target_def dest!: set_alist_update)

lemma leaked_frame:
  "leaked_target t (c\<lparr> cx_forwarded := x \<rparr>) = leaked_target t c" "leaked_target t (c\<lparr> cx_trace_driven := y \<rparr>) = leaked_target t c"
  "leaked_target t (c\<lparr> cx_calls := z \<rparr>) = leaked_target t c"
  by (simp_all add: leaked_target_def)

lemma leaked_close: "leaked_target t c \<Longrightarrow> close_tab io tab c = (r, c') \<Longrightarrow> leaked_target t c'"
  by (auto simp: close_tab_def Let_def leaked_target_def AList.delete_eq dest!: map_of_in split: option.splits sum.splits)

lemma leaked_tab_open: "leaked_target t c \<Longrightarrow> \<not> creates io t \<Longrightarrow> leaked_target t (snd (tab_open io params c))"
  by (auto simp: tab_open_def str_param_def Let_def leaked_frame dest: leaked_open
      intro!: leaked_put split: sum.splits option.splits prod.splits)

lemma leaked_tab_close: "leaked_target t c \<Longrightarrow> leaked_target t (snd (tab_close io params c))"
  by (auto simp: tab_close_def str_param_def dest: leaked_close split: sum.splits prod.splits)

lemma leaked_tab_navigate: "leaked_target t c \<Longrightarrow> leaked_target t (snd (tab_navigate io params c))"
proof -
  assume c: "leaked_target t c"
  have "leaked_target t (c\<lparr> cx_calls := z, cx_pages := AList.update tab p' (cx_pages c) \<rparr>)"
    if "map_of (cx_pages c) tab = Some p" "page_navigate io url until p = (err, p', urls)" for tab p p' urls url until err z
    using leaked_put [OF c that(1), of p'] page_navigate_frame [OF that(2)] by (simp add: leaked_target_def)
  then show ?thesis
    using c by (auto simp: tab_navigate_def str_param_def Let_def split: sum.splits option.splits prod.splits)
qed

lemma leaked_step:
  assumes c: "leaked_target t c" and io: "\<not> creates io t"
  shows "leaked_target t (tab_step (meth, io, params) c)"
proof -
  have "leaked_target t (snd (tab_list c))" "leaked_target t (snd (tab_focus io params c))"
    using c by (auto simp: tab_list_def tab_focus_def str_param_def split: sum.split)
  then show ?thesis
    using c leaked_tab_open [OF c io] leaked_tab_close [OF c] leaked_tab_navigate [OF c]
    by (auto simp: tab_step_def tab_tools_def)
qed

lemma leaked_run:
  assumes "leaked_target t c" "\<forall>(meth, io, params)\<in>set reqs. \<not> creates io t"
  shows "leaked_target t (fold tab_step reqs c)"
  using assms by (induction reqs arbitrary: c) (auto simp: leaked_step)

lemma await_nothing:
  assumes "\<forall>(time, f)\<in>set fs. \<exists>ev. f = Fed ev \<and> sel ev = None"
  shows "await_match sel deadline fs = Inr None"
  using assms by (induction fs) auto

text \<open>
  C40. A tab that finishes loading before the wait subscribes is lost. When the target is created, attached and
  bootstrapped, and the lifecycle event that \<open>tab.open\<close> waits for does not arrive after the wait has subscribed (it may
  have arrived before: nothing looks at the past), opening fails with a timeout after 30 seconds. The target stays open in
  the browser without a tab, and no later request to the tab tools closes it.
\<close>
theorem early_load_leaks_tab:
  assumes "web_url url" "creates io t" "tio_cdp io ''Target.attachToTarget'' = Inr (JString sid)"
    and "run_steps io (bootstrap_steps io) = None" "inject_stealth io (cx_stealth c) = None"
    and "wait_target until = Some name"
    and "\<forall>(time, f)\<in>set (tio_after io). \<exists>ev. f = Fed ev \<and> lifecycle_is name ev = None"
    and "\<forall>p\<in>snd ` set (cx_pages c). tb_target p \<noteq> t" "\<forall>(meth, io', params)\<in>set later. \<not> creates io' t"
  shows "let (r, c') = open_tab io url until c; c'' = fold tab_step later c'
         in r = Inl (''timed out waiting for lifecycle '' @ name @ '' after '' @ tio_dur io (30000 * MILLI)) \<and>
            cx_pages c' = cx_pages c \<and> t \<in> set (cx_targets c'') \<and>
            (\<forall>tab p. map_of (cx_pages c'') tab = Some p \<longrightarrow> tb_target p \<noteq> t)"
proof -
  let ?c' = "c\<lparr> cx_calls := cx_calls c @ [(''Target.createTarget'', url)], cx_targets := cx_targets c @ [t] \<rparr>"
  let ?msg = "''timed out waiting for lifecycle '' @ name @ '' after '' @ tio_dur io (30000 * MILLI)"
  have "until \<noteq> WaitNone" using assms(6) by (auto simp: wait_target_def)
  then have w: "open_wait io until = Some ?msg"
    using await_nothing [OF assms(7)] by (simp add: open_wait_def wait_for_lifecycle_def assms(6))
  have a: "attach_tab io (cx_stealth c) until t = Inl ?msg"
    by (simp add: attach_tab_def assms(3,5) page_bootstrap_def assms(4) w)
  have o: "open_tab io url until c = (Inl ?msg, ?c')"
    using assms(1,2) a by (simp add: open_tab_def validate_exact [THEN iffD2] creates_def Let_def)
  have "leaked_target t ?c'" using assms(8) by (simp add: leaked_target_def)
  from leaked_run [OF this assms(9)] show ?thesis
    unfolding o by (auto simp: leaked_target_def dest: map_of_in)
qed

theorem early_load_leaks_tab_witness:
  "LifecycleEvent JNull ''load'' JNull \<in> set (tio_before (tab_sample_io ''T1'' [])) \<and>
   fst (open_tab (tab_sample_io ''T1'' []) ''https://a/'' WaitLoad (ctx_new True)) =
     Inl ''timed out waiting for lifecycle load after 30s'' \<and>
   ''T1'' \<in> set (cx_targets (tab_step (''tab.close'', tab_sample_io ''T2'' [], JObject [(''tab_id'', JString ''t_T1'')])
     (snd (open_tab (tab_sample_io ''T1'' []) ''https://a/'' WaitLoad (ctx_new True)))))"
proof -
  let ?io = "tab_sample_io ''T1'' []" and ?later = "[(''tab.close'', tab_sample_io ''T2'' [], JObject [(''tab_id'', JString ''t_T1'')])]"
  have u: "web_url ''https://a/''" by (simp add: web_url_def to_ascii_lowercase_def ascii_lower_def)
  have c: "creates ?io ''T1''" "\<not> creates (tab_sample_io ''T2'' []) ''T1''" by (simp_all add: creates_def tab_sample_io_def)
  have a: "tio_cdp ?io ''Target.attachToTarget'' = Inr (JString ''s'')" "inject_stealth ?io (cx_stealth (ctx_new True)) = None"
      "run_steps ?io (bootstrap_steps ?io) = None" "tio_after ?io = []" "tio_dur ?io = (\<lambda>_. ''30s'')"
      "LifecycleEvent JNull ''load'' JNull \<in> set (tio_before ?io)"
    by (simp_all add: tab_sample_io_def inject_stealth_def bootstrap_steps_def net_sample_lib_def)
  have t: "wait_target WaitLoad = Some ''load''" "\<forall>p\<in>snd ` set (cx_pages (ctx_new True)). tb_target p \<noteq> ''T1''"
    by (simp_all add: wait_target_def ctx_new_def)
  show ?thesis
    using early_load_leaks_tab [OF u c(1) a(1,3,2) t(1) _ t(2), of ?later] a(4,5,6) c(2)
    by (simp add: Let_def split: prod.splits)
qed

subsection \<open>Navigation errors\<close>

text \<open>
  A navigation that the browser refuses is reported as done. The browser reports a navigation that failed (an unknown
  host, a refused connection) in the \<open>errorText\<close> of its answer to \<open>Page.navigate\<close>. The answer is not looked at: whatever
  it holds, \<open>tab.navigate\<close> without a wait succeeds.
\<close>
theorem navigate_ignores_answer:
  assumes "web_url url" "map_of (cx_pages c) tab = Some p" "tio_cdp io ''Page.navigate'' = Inr answer"
  shows "\<exists>v. fst (tab_navigate io (JObject [(''tab_id'', JString tab), (''url'', JString url)]) c) = Inr v"
  using assms
  by (simp add: tab_navigate_def str_param_def required_str_def need_def get_str_def validate_exact [THEN iffD2]
      parse_wait_until_def page_navigate_def open_wait_def Let_def)

theorem navigate_ignores_answer_witness:
  "jget ''errorText'' (JObject [(''url'', JString ''https://a/''), (''errorText'', JString ''net::ERR_FAILED'')]) \<noteq> None \<and>
   (\<exists>v. fst (tab_navigate (tab_sample_io ''T1'' []) (JObject [(''tab_id'', JString ''t_T1''), (''url'', JString ''https://a/'')])
      ((ctx_new True)\<lparr> cx_pages := [(''t_T1'', \<lparr> tb_target = ''T1'', tb_pump = pump_new ''T1'' \<rparr>)] \<rparr>)) = Inr v)"
proof -
  have "web_url ''https://a/''" by (simp add: web_url_def to_ascii_lowercase_def ascii_lower_def)
  then show ?thesis
    using navigate_ignores_answer [of "''https://a/''"
        "(ctx_new True)\<lparr> cx_pages := [(''t_T1'', \<lparr> tb_target = ''T1'', tb_pump = pump_new ''T1'' \<rparr>)] \<rparr>" "''t_T1''" _ "tab_sample_io ''T1'' []"]
    by (simp add: tab_sample_io_def)
qed

end
