(* ===== verification/Spec2Isabelle.thy ===== *)
theory Spec2Isabelle
  imports World_Model Cdp_Session Frame_Ring Broker_Wire Terminal_State Broker_Server Sandbox_Merge Vision_Diff Obs_Trace
    Page_Storage Page_Tabs
begin

text \<open>
  \<^bold>\<open>The program.\<close> One-for-all gives coding agents a browser, a terminal and the desktop of a Mac. An agent speaks MCP
  to \<^verbatim>\<open>mcp-server\<close>, which forwards every call over a socket to the \<^verbatim>\<open>broker\<close>. The broker keeps one
  session per agent: a Chromium process driven over a pipe (\<^verbatim>\<open>cdp-client\<close>, \<^verbatim>\<open>browser-engine\<close>,
  \<^verbatim>\<open>ax-engine\<close>), terminals (\<^verbatim>\<open>terminal-control\<close>), a sandboxed copy of files (\<^verbatim>\<open>sandbox\<close>) and
  subscriptions to what happens on the screen (\<^verbatim>\<open>vision\<close>, \<^verbatim>\<open>world-model\<close>). Sessions survive crashes of
  the browser, drain when nobody is connected, and may record a trace (\<^verbatim>\<open>observability\<close>). All paths below are
  relative to \<^verbatim>\<open>src/crates\<close>.

  \<^bold>\<open>Conventions.\<close> A struct is a record, an enum a datatype, an operation one definition on an explicit state; an error
  is the left value of a sum, or \<open>Some\<close> message where the operation has no result. \<^verbatim>\<open>u8\<close>, \<^verbatim>\<open>u32\<close>
  and \<^verbatim>\<open>u64\<close> are words where they can wrap; a counter that cannot reach its limit is a natural number, and the
  theory says so. A double is its bit pattern. A hash map is an association list; where the order of its iteration can
  be seen, the order is an argument. Code outside the repository (JSON text, regular expressions, bincode, hashing,
  base64, compression, the terminal emulator, the browser, files and clocks) is an argument or a field of a record of
  arguments. Concurrent tasks are machines whose steps are what a task does between two suspension points; the theorems
  quantify over all sequences of steps.

  \<^bold>\<open>Shared theories.\<close>
  \<^item> \<open>Prelude\<close>: integer types, decimal printing and parsing, association lists, bounded queues, and the interfaces
    \<open>capped_log\<close> (a log that keeps its newest entries), \<open>invariant_machine\<close> (steps that preserve an invariant),
    \<open>keyed_upsert\<close> and \<open>keyed_store\<close> (tables whose entries carry their key). The rings of the world model, the output of
    a terminal and the HAR log interpret the first; the publisher, the pipe, the broker, the event pump and the tab tools
    the second; durable subscriptions, sessions and traces the last two.
  \<^item> \<open>Json\<close>: the values of \<^verbatim>\<open>serde_json\<close> and their accessors. \<open>Float64\<close>: IEEE 754 addition, multiplication,
    division, comparison and conversion of doubles on bit patterns.

  \<^bold>\<open>World model.\<close> \<open>World_Model\<close> is \<^verbatim>\<open>world-model/src/store.rs\<close> and \<^verbatim>\<open>model.rs\<close>. The store stays well
  formed under any inputs, its three rings are the newest entries of the history, and the handles it publishes are those
  delivered last.

  \<^bold>\<open>The pipe to the browser.\<close> \<open>Cdp_Framing\<close> is \<^verbatim>\<open>cdp-client/src/framing.rs\<close>, \<^verbatim>\<open>error.rs\<close> and the retry
  loop: decoding does not depend on the chunks read, encoding and decoding are inverse, and the retry loop makes the
  attempts its policy allows. \<open>Cdp_Session\<close> is \<^verbatim>\<open>session.rs\<close> and \<^verbatim>\<open>connection.rs\<close>: a call
  waits exactly when its sender is stored under its id, so that the reply completes it; two sessions that reach the same
  id interfere.

  \<^bold>\<open>Vision.\<close> \<open>Frame_Ring\<close> is \<^verbatim>\<open>vision/src/frame_ring.rs\<close> and \<^verbatim>\<open>animation.rs\<close>: a reader never sees a frame
  change when operations are atomic, and the interleaving of the two stores of a commit in which it can. \<open>Vision_Diff\<close> is
  \<^verbatim>\<open>vision/src/diff.rs\<close>: a tile is reported exactly when its hash changed, with its exact box; changes the
  hash cannot see are exhibited.

  \<^bold>\<open>Broker.\<close> \<open>Broker_Wire\<close> is \<^verbatim>\<open>broker/src/protocol.rs\<close> with the client's reader
  (\<^verbatim>\<open>mcp-server/src/broker_client.rs\<close>): round trips of the binary frames, and when a line reader delivers them.
  \<open>Broker_Registry\<close> is \<^verbatim>\<open>registry.rs\<close>: an event for a bound client is in its queue or counted as dropped.
  \<open>Broker_Recovery\<close> is \<^verbatim>\<open>recovery.rs\<close>: what a run of the watcher reports, and that a respawn rebinds every
  subscription. \<open>Broker_Server\<close> is \<^verbatim>\<open>server.rs\<close>, \<^verbatim>\<open>lifecycle.rs\<close> and the registration of
  \<^verbatim>\<open>router/session.rs\<close>: no session drains below a connection, the cap on sessions, and the sessions that are
  never drained.

  \<^bold>\<open>Terminal, sandbox, trace.\<close> \<open>Terminal_State\<close> is \<^verbatim>\<open>terminal-control/src/state.rs\<close> and parts of
  \<^verbatim>\<open>controller.rs\<close>: accounting of output bytes, exactness of attribute runs. \<open>Sandbox_Merge\<close> is
  \<^verbatim>\<open>sandbox/src/merge.rs\<close>: the table computes a longest common subsequence, and the diff determines both files.
  \<open>Obs_Trace\<close> is \<^verbatim>\<open>observability/src/trace.rs\<close>: every event that entered the buffer has left
  through the writer, is still there or is counted as dropped, what is below a denied key
  does not influence the trace, and a manifest lists the files of its run only.

  \<^bold>\<open>Pages.\<close> \<open>Page_Snapshot\<close> is \<^verbatim>\<open>browser-engine/src/snapshot.rs\<close> with the mutation log of
  \<^verbatim>\<open>ax-engine/src/mutation.rs\<close>: a delta is complete and a snapshot names its elements well, and when mutations
  are lost. \<open>Router_Core\<close>, \<open>Page_Input\<close> and \<open>Page_Storage\<close> are \<^verbatim>\<open>broker/src/router/page.rs\<close> with the helpers of
  \<^verbatim>\<open>router/mod.rs\<close>: stale references do nothing, a handler makes one call, tools without their capability do
  nothing, and web storage is a map.

  \<^bold>\<open>Network and tabs.\<close>
  \<^item> \<open>Har_Time\<close> is the calendar and the time stamps of \<^verbatim>\<open>browser-engine/src/network.rs\<close>. The conversions are shown
    equal to the Gregorian calendar, given by its leap years and month lengths, for all integers; time stamps from
    1970 to 9999 survive printing and parsing.
  \<^item> \<open>Page_Network\<close> is the rest of the page side of \<^verbatim>\<open>network.rs\<close> and \<^verbatim>\<open>event_pump\<close> of
    \<^verbatim>\<open>page.rs\<close>, one definition per event. After any events the HAR log is the newest 1024 finished requests and
    the counter of requests in flight is exact; a paused request gets exactly one answer.
  \<^item> \<open>Router_Net\<close> is \<^verbatim>\<open>broker/src/router/net.rs\<close> with the operations it calls, every tool of the net namespace.
    Subscriptions of two tabs collide; a plain fulfil answers with status 0.
  \<^item> \<open>Page_Tabs\<close> is \<^verbatim>\<open>browser-engine/src/wait.rs\<close>, \<^verbatim>\<open>context.rs\<close> and
    \<^verbatim>\<open>broker/src/router/tab.rs\<close>. The two polling waits are partial functions into an option and the interface
    \<open>polling_loop\<close> shows that they return; only web URLs reach the browser; and the tab that loads too early is lost.

  \<^bold>\<open>Bounds and fuel.\<close> No definition has fuel. The polling waits return after at most one poll more than their deadline
  has periods, provided the clock does not go back and every sleep takes its time; the other loops are structural or
  have termination proofs. Time stamps are bounded by the year 9999 because the text has four digits for a year. The
  merge bounds the first file by \<open>2 ^ 32\<close> lines, the width of the table's cells, and the tile difference asks that the
  products of the frame's dimensions fit in 32 bits; the accounting of output asks for fewer than \<open>2 ^ 64\<close> bytes, the
  width of its counters. The capacities of rings and logs are the constants of the sources.

  \<^bold>\<open>Not modelled.\<close> The bindings to macOS (\<^verbatim>\<open>native-control\<close>, \<^verbatim>\<open>system-control\<close>,
  \<^verbatim>\<open>focus-manager\<close>) apart from the types the world model reads; the fetching and starting of Chromium; the
  generated protocol bindings; the accessibility merge of \<^verbatim>\<open>ax-engine\<close>, whose result is an argument of
  \<open>Page_Snapshot\<close>; hit testing and the event sequences of \<^verbatim>\<open>browser-engine/src/actions.rs\<close>, emulation, PDF and
  performance, which are commands to the browser; image analysis and OCR; sandbox profiles, clones and limits, which are
  operations of the system; metrics and latency histograms; the tables of tools and schemas of \<^verbatim>\<open>mcp-server\<close>; the
  routers of the native, system, terminal and administrative tools, which pass parameters on; the command line front end and
  the benchmarks. The event pump also copies each event to an attached trace sink; the copy is left out, and the
  writer behind the sink is \<open>Obs_Trace\<close>. Log lines are left out everywhere.
\<close>

end
